(* ===== verification/Go_Prelude.thy ===== *)
theory Go_Prelude
  imports Main "HOL-Library.Sublist" "HOL-Library.Char_ord" "HOL-Library.List_Lexorder"
    "HOL-Library.Word"
begin

text \<open>
  What every component of the module shares: the Go types the packages pass around, the parts of
  the Go standard library they call, and the lemmas about them.

  A Go \<open>string\<close> and a \<open>[]byte\<close> are both a sequence of bytes, which is the HOL type
  \<open>string\<close> (a list of eight bit characters); its lexicographic order is Go's \<open><\<close>.
  A \<open>time.Time\<close> is its distance in nanoseconds from the zero time (1 January of year 1, UTC),
  an \<open>int\<close>; a \<open>time.Duration\<close> is an \<open>int\<close> in the range of an \<open>int64\<close>.
  Errors are values of \<open>go_error\<close>: sentinel variables, MySQL server errors, and \<open>fmt.Errorf\<close>
  wrappers. An operation that may fail returns \<open>go_error + 'a\<close>.
\<close>

named_theorems go_string_simps \<open>equations of the string functions of the standard library\<close>
named_theorems go_time_simps \<open>clock and duration arithmetic\<close>
named_theorems table_simps \<open>lookups in a table after a statement\<close>
named_theorems err_simps \<open>classification of errors\<close>

section \<open>Machine integers\<close>

text \<open>An \<open>int64\<close> result wraps around; \<open>wrap64\<close> is the value a 64 bit register holds.\<close>

definition wrap64 :: "int \<Rightarrow> int" where
  "wrap64 n = sint (word_of_int n :: 64 word)"

definition int64_min :: int where "int64_min = - (2 ^ 63)"
definition int64_max :: int where "int64_max = 2 ^ 63 - 1"

definition is_int64 :: "int \<Rightarrow> bool" where
  "is_int64 n \<longleftrightarrow> int64_min \<le> n \<and> n \<le> int64_max"

lemma wrap64_mod: "wrap64 n = (n + 2 ^ 63) mod 2 ^ 64 - 2 ^ 63"
proof -
  have "wrap64 n = signed_take_bit 63 n" by (simp add: wrap64_def signed_of_int)
  also have "\<dots> = take_bit 64 (n + 2 ^ 63) - 2 ^ 63"
    by (simp only: signed_take_bit_eq_take_bit_shift) simp
  finally show ?thesis by (simp add: take_bit_eq_mod)
qed

lemma wrap64_id [simp]: "is_int64 n \<Longrightarrow> wrap64 n = n"
  unfolding wrap64_mod is_int64_def int64_min_def int64_max_def by simp

lemma wrap64_range [simp]: "is_int64 (wrap64 n)"
proof -
  have "0 \<le> (n + 2 ^ 63) mod 2 ^ 64" "(n + 2 ^ 63) mod 2 ^ 64 < 2 ^ 64" by simp_all
  then show ?thesis
    unfolding wrap64_mod is_int64_def int64_min_def int64_max_def by simp
qed

section \<open>Time\<close>

type_synonym go_time = int
type_synonym duration = int

definition nanosecond :: duration where "nanosecond = 1"
definition microsecond :: duration where "microsecond = 1000"
definition millisecond :: duration where "millisecond = 1000000"
definition second :: duration where "second = 1000000000"
definition minute :: duration where "minute = 60 * second"
definition hour :: duration where "hour = 60 * minute"

lemmas duration_units = nanosecond_def microsecond_def millisecond_def second_def minute_def hour_def

text \<open>\<open>Time.Sub\<close> (and \<open>time.Since\<close>, \<open>time.Until\<close>) saturates at the ends of the range of a duration.\<close>

definition time_sub :: "go_time \<Rightarrow> go_time \<Rightarrow> duration" where
  "time_sub t u = max int64_min (min int64_max (t - u))"

text \<open>\<open>Time.Truncate d\<close> rounds down to a multiple of \<open>d\<close> since the zero time; a non positive \<open>d\<close>
  changes nothing.\<close>

definition time_truncate :: "go_time \<Rightarrow> duration \<Rightarrow> go_time" where
  "time_truncate t d = (if d \<le> 0 then t else t - t mod d)"

lemma time_sub_ge [go_time_simps]:
  "is_int64 d \<Longrightarrow> int64_min < d \<Longrightarrow> d \<le> time_sub t u \<longleftrightarrow> u + d \<le> t"
  unfolding time_sub_def is_int64_def by auto

lemma time_sub_gt [go_time_simps]:
  "is_int64 d \<Longrightarrow> d < int64_max \<Longrightarrow> d < time_sub t u \<longleftrightarrow> u + d < t"
  unfolding time_sub_def is_int64_def int64_min_def int64_max_def by auto

lemma time_sub_exact [go_time_simps]: "is_int64 (t - u) \<Longrightarrow> time_sub t u = t - u"
  unfolding time_sub_def is_int64_def by simp

lemma time_sub_range [simp]: "is_int64 (time_sub t u)"
  unfolding time_sub_def is_int64_def int64_min_def int64_max_def by simp

lemma time_truncate_le: "time_truncate t d \<le> t"
proof (cases "d \<le> 0")
  case True
  then show ?thesis by (simp add: time_truncate_def)
next
  case False
  then have "0 \<le> t mod d" by simp
  with False show ?thesis by (simp add: time_truncate_def)
qed

lemma time_truncate_gt: "0 < d \<Longrightarrow> t < time_truncate t d + d"
  using pos_mod_bound [of d t] by (simp add: time_truncate_def)

lemma time_truncate_idem [simp]: "time_truncate (time_truncate t d) d = time_truncate t d"
  by (simp add: time_truncate_def mod_diff_left_eq [symmetric])

section \<open>Strings\<close>

definition byte_val :: "char \<Rightarrow> nat" where
  "byte_val c = of_char c"

lemma byte_val_less [simp]: "byte_val c < 256"
  by (simp add: byte_val_def)

lemma byte_val_inj: "byte_val c = byte_val d \<Longrightarrow> c = d"
  by (simp add: byte_val_def)

lemma byte_val_char_of [simp]: "n < 256 \<Longrightarrow> byte_val (char_of n) = n"
  by (simp add: byte_val_def)

lemma eq_char_of: "n < 256 \<Longrightarrow> c = char_of n \<longleftrightarrow> of_char c = (n :: nat)"
  by auto

definition is_ascii :: "char \<Rightarrow> bool" where
  "is_ascii c \<longleftrightarrow> byte_val c < 128"

text \<open>\<open>strings.HasPrefix\<close>, \<open>TrimPrefix\<close>, \<open>TrimSuffix\<close>, \<open>Contains\<close>.\<close>

fun has_prefix :: "string \<Rightarrow> string \<Rightarrow> bool" where
  "has_prefix s [] = True"
| "has_prefix [] (p # ps) = False"
| "has_prefix (c # s) (p # ps) = (c = p \<and> has_prefix s ps)"

definition trim_prefix :: "string \<Rightarrow> string \<Rightarrow> string" where
  "trim_prefix s p = (if has_prefix s p then drop (length p) s else s)"

definition trim_suffix :: "string \<Rightarrow> string \<Rightarrow> string" where
  "trim_suffix s p = (if has_prefix (rev s) (rev p) then take (length s - length p) s else s)"

fun contains_sub :: "string \<Rightarrow> string \<Rightarrow> bool" where
  "contains_sub [] sub = (sub = [])"
| "contains_sub (c # s) sub = (has_prefix (c # s) sub \<or> contains_sub s sub)"

lemma has_prefix_iff: "has_prefix s p \<longleftrightarrow> (\<exists>r. s = p @ r)"
  by (induction s p rule: has_prefix.induct) auto

lemma has_prefix_append [simp]: "has_prefix (p @ r) p"
  by (auto simp: has_prefix_iff)

lemma trim_prefix_append [simp, go_string_simps]: "trim_prefix (p @ r) p = r"
  by (simp add: trim_prefix_def)

lemma trim_suffix_append [simp, go_string_simps]: "trim_suffix (r @ p) p = r"
  by (simp add: trim_suffix_def)

lemma contains_sub_iff: "contains_sub s sub \<longleftrightarrow> (\<exists>a b. s = a @ sub @ b)"
proof (induction s sub rule: contains_sub.induct)
  case (1 sub)
  then show ?case by auto
next
  case (2 c s sub)
  show ?case
  proof
    assume "contains_sub (c # s) sub"
    then consider "has_prefix (c # s) sub" | "contains_sub s sub" by auto
    then show "\<exists>a b. c # s = a @ sub @ b"
    proof cases
      case 1
      then obtain r where "c # s = sub @ r" by (auto simp: has_prefix_iff)
      then have "c # s = [] @ sub @ r" by simp
      then show ?thesis by blast
    next
      case 2
      with "2.IH" obtain a b where "s = a @ sub @ b" by auto
      then have "c # s = (c # a) @ sub @ b" by simp
      then show ?thesis by blast
    qed
  next
    assume "\<exists>a b. c # s = a @ sub @ b"
    then obtain a b where ab: "c # s = a @ sub @ b" by blast
    show "contains_sub (c # s) sub"
    proof (cases a)
      case Nil
      with ab have "has_prefix (c # s) sub" by (auto simp: has_prefix_iff)
      then show ?thesis by simp
    next
      case (Cons x xs)
      with ab have "s = xs @ sub @ b" by simp
      with "2.IH" have "contains_sub s sub" by blast
      then show ?thesis by simp
    qed
  qed
qed

text \<open>
  \<open>strings.TrimSpace\<close> and \<open>bytes.TrimSpace\<close> drop the leading and trailing runes that Unicode
  calls white space: the six ASCII ones and the UTF-8 sequences of U+0085, U+00A0, U+1680,
  U+2000 to U+200A, U+2028, U+2029, U+202F, U+205F and U+3000.
\<close>

definition space_runes :: "string list" where
  "space_runes = map (map char_of)
     ([[9], [10], [11], [12], [13], [32], [0xC2, 0x85], [0xC2, 0xA0], [0xE1, 0x9A, 0x80],
       [0xE2, 0x80, 0xA8], [0xE2, 0x80, 0xA9], [0xE2, 0x80, 0xAF], [0xE2, 0x81, 0x9F],
       [0xE3, 0x80, 0x80]]
      @ map (\<lambda>k. [0xE2, 0x80, 0x80 + k]) [0,1,2,3,4,5,6,7,8,9,10 :: nat])"

fun first_prefix :: "string list \<Rightarrow> string \<Rightarrow> nat" where
  "first_prefix [] s = 0"
| "first_prefix (w # ws) s = (if has_prefix s w then length w else first_prefix ws s)"

function trim_with :: "string list \<Rightarrow> string \<Rightarrow> string" where
  "trim_with ws s =
     (if s = [] \<or> first_prefix ws s = 0 then s else trim_with ws (drop (first_prefix ws s) s))"
  by pat_completeness auto
termination
  by (relation "measure (\<lambda>(ws, s). length s)") auto

declare trim_with.simps [simp del]

definition trim_left_space :: "string \<Rightarrow> string" where
  "trim_left_space s = trim_with space_runes s"

definition trim_right_space :: "string \<Rightarrow> string" where
  "trim_right_space s = rev (trim_with (map rev space_runes) (rev s))"

definition trim_space :: "string \<Rightarrow> string" where
  "trim_space s = trim_right_space (trim_left_space s)"

lemma trim_with_stops: "first_prefix ws (trim_with ws s) = 0 \<or> trim_with ws s = []"
proof (induction ws s rule: trim_with.induct)
  case (1 ws s)
  then show ?case by (subst (1 2) trim_with.simps) (auto simp: trim_with.simps [of ws s])
qed

lemma trim_with_fixed: "first_prefix ws s = 0 \<Longrightarrow> trim_with ws s = s"
  by (simp add: trim_with.simps)

lemma trim_with_Nil [simp]: "trim_with ws [] = []"
  by (simp add: trim_with.simps)

lemma trim_with_idem [simp]: "trim_with ws (trim_with ws s) = trim_with ws s"
  using trim_with_stops [of ws s] trim_with_fixed by auto

lemma trim_with_length: "length (trim_with ws s) \<le> length s"
proof (induction ws s rule: trim_with.induct)
  case (1 ws s)
  show ?case
  proof (cases "s = [] \<or> first_prefix ws s = 0")
    case True
    then show ?thesis by (subst trim_with.simps) simp
  next
    case False
    from 1 [OF False] show ?thesis
      by (subst trim_with.simps) (simp add: False)
  qed
qed

lemma trim_space_length: "length (trim_space s) \<le> length s"
  unfolding trim_space_def trim_right_space_def trim_left_space_def
  by (metis length_rev order_trans trim_with_length)

lemma trim_space_Nil [simp]: "trim_space [] = []"
  by (simp add: trim_space_def trim_left_space_def trim_right_space_def)

text \<open>No white space rune starts or ends with a visible ASCII byte.\<close>

definition visible :: "char \<Rightarrow> bool" where
  "visible c \<longleftrightarrow> 33 \<le> byte_val c \<and> byte_val c < 128"

lemma first_prefix_zero:
  "(\<And>w. w \<in> set ws \<Longrightarrow> w \<noteq> [] \<and> hd w \<noteq> c) \<Longrightarrow> first_prefix ws (c # s) = 0"
proof (induction ws)
  case (Cons w ws)
  then have "w \<noteq> [] \<and> hd w \<noteq> c" by simp
  then have "\<not> has_prefix (c # s) w" by (cases w) auto
  with Cons show ?case by simp
qed simp

lemma space_runes_invisible:
  "w \<in> set space_runes \<Longrightarrow> w \<noteq> [] \<and> \<not> visible (hd w)"
  "w \<in> set (map rev space_runes) \<Longrightarrow> w \<noteq> [] \<and> \<not> visible (hd w)"
proof -
  have "\<forall>w \<in> set space_runes. w \<noteq> [] \<and> \<not> visible (hd w)"
    by (simp add: space_runes_def visible_def)
  then show "w \<in> set space_runes \<Longrightarrow> w \<noteq> [] \<and> \<not> visible (hd w)" by blast
  have "\<forall>w \<in> set (map rev space_runes). w \<noteq> [] \<and> \<not> visible (hd w)"
    by (simp add: space_runes_def visible_def)
  then show "w \<in> set (map rev space_runes) \<Longrightarrow> w \<noteq> [] \<and> \<not> visible (hd w)" by blast
qed

lemma first_prefix_visible:
  "visible c \<Longrightarrow> first_prefix space_runes (c # s) = 0"
  "visible c \<Longrightarrow> first_prefix (map rev space_runes) (c # s) = 0"
  using space_runes_invisible by (auto intro!: first_prefix_zero simp del: set_map)

lemma trim_left_visible: "visible c \<Longrightarrow> trim_left_space (c # s) = c # s"
  by (simp add: trim_left_space_def trim_with_fixed first_prefix_visible)

lemma trim_right_visible: "visible c \<Longrightarrow> trim_right_space (s @ [c]) = s @ [c]"
  by (simp add: trim_right_space_def trim_with_fixed first_prefix_visible)

lemma trim_space_visible:
  assumes "s \<noteq> []" and "visible (hd s)" and "visible (last s)"
  shows "trim_space s = s" and "trim_space (CHR '' '' # s) = s"
proof -
  have l: "trim_left_space s = s" using trim_left_visible [of "hd s" "tl s"] assms by simp
  have r: "trim_right_space s = s" using trim_right_visible [of "last s" "butlast s"] assms by simp
  show "trim_space s = s" by (simp add: trim_space_def l r)
  have "first_prefix space_runes (CHR '' '' # s) = 1"
    by (simp add: space_runes_def eq_char_of byte_val_def)
  then have "trim_left_space (CHR '' '' # s) = trim_left_space s"
    by (simp add: trim_left_space_def trim_with.simps [of space_runes "CHR '' '' # s"])
  then show "trim_space (CHR '' '' # s) = s" by (simp add: trim_space_def l r)
qed

text \<open>
  \<open>strings.ToLower\<close> and \<open>strings.ToUpper\<close>: on ASCII strings the letters are mapped; the Unicode
  case tables that other strings need are an argument \<open>uni\<close>.
\<close>

definition ascii_lower :: "char \<Rightarrow> char" where
  "ascii_lower c = (if 65 \<le> byte_val c \<and> byte_val c \<le> 90 then char_of (byte_val c + 32) else c)"

definition ascii_upper :: "char \<Rightarrow> char" where
  "ascii_upper c = (if 97 \<le> byte_val c \<and> byte_val c \<le> 122 then char_of (byte_val c - 32) else c)"

definition to_lower :: "(string \<Rightarrow> string) \<Rightarrow> string \<Rightarrow> string" where
  "to_lower uni s = (if list_all is_ascii s then map ascii_lower s else uni s)"

definition to_upper :: "(string \<Rightarrow> string) \<Rightarrow> string \<Rightarrow> string" where
  "to_upper uni s = (if list_all is_ascii s then map ascii_upper s else uni s)"

text \<open>\<open>strings.Split\<close> on a one byte separator, and \<open>strings.Join\<close>.\<close>

fun split_on :: "char \<Rightarrow> string \<Rightarrow> string list" where
  "split_on sep [] = [[]]"
| "split_on sep (c # s) =
     (if c = sep then [] # split_on sep s
      else (case split_on sep s of [] \<Rightarrow> [[c]] | w # ws \<Rightarrow> (c # w) # ws))"

fun join_with :: "string \<Rightarrow> string list \<Rightarrow> string" where
  "join_with sep [] = []"
| "join_with sep [w] = w"
| "join_with sep (w # v # ws) = w @ sep @ join_with sep (v # ws)"

lemma split_on_nonempty [simp]: "split_on sep s \<noteq> []"
  by (induction s) (auto split: list.splits)

lemma join_split_on: "join_with [sep] (split_on sep s) = s"
proof (induction s)
  case Nil
  then show ?case by simp
next
  case (Cons c s)
  obtain w ws where w: "split_on sep s = w # ws" by (cases "split_on sep s") auto
  show ?case using Cons w by (cases ws) auto
qed

lemma split_on_no_sep: "w \<in> set (split_on sep s) \<Longrightarrow> sep \<notin> set w"
proof (induction s arbitrary: w)
  case Nil
  then show ?case by simp
next
  case (Cons c s)
  obtain v vs where v: "split_on sep s = v # vs" by (cases "split_on sep s") auto
  show ?case using Cons v by (auto split: if_splits)
qed

text \<open>Decimal digits, as \<open>strconv.Itoa\<close> and \<open>strconv.FormatInt\<close> print them.\<close>

definition digit_char :: "nat \<Rightarrow> char" where
  "digit_char d = char_of (48 + d)"

fun show_nat :: "nat \<Rightarrow> string" where
  "show_nat n = (if n < 10 then [digit_char n] else show_nat (n div 10) @ [digit_char (n mod 10)])"

declare show_nat.simps [simp del]

definition show_int :: "int \<Rightarrow> string" where
  "show_int i = (if i < 0 then CHR ''-'' # show_nat (nat (- i)) else show_nat (nat i))"

text \<open>\<open>strconv.ParseInt (s, 10, 64)\<close> and \<open>strconv.Atoi\<close>: an optional sign, then one or more digits,
  in the range of an \<open>int64\<close>.\<close>

fun digits_val :: "int \<Rightarrow> string \<Rightarrow> int option" where
  "digits_val acc [] = Some acc"
| "digits_val acc (c # s) =
     (if 48 \<le> byte_val c \<and> byte_val c \<le> 57
      then digits_val (10 * acc + int (byte_val c - 48)) s else None)"

definition parse_digits :: "string \<Rightarrow> int option" where
  "parse_digits s = (if s = [] then None else digits_val 0 s)"

definition parse_int :: "string \<Rightarrow> int option" where
  "parse_int s =
     (let v = (case s of [] \<Rightarrow> None
                | c # r \<Rightarrow> if c = CHR ''-'' then map_option uminus (parse_digits r)
                          else if c = CHR ''+'' then parse_digits r else parse_digits s)
      in case v of Some n \<Rightarrow> if is_int64 n then Some n else None | None \<Rightarrow> None)"

lemma parse_int_range: "parse_int s = Some n \<Longrightarrow> is_int64 n"
  by (auto simp: parse_int_def Let_def split: option.splits if_splits)

lemma digits_val_append:
  "digits_val acc (s @ t) = (case digits_val acc s of None \<Rightarrow> None | Some v \<Rightarrow> digits_val v t)"
  by (induction acc s rule: digits_val.induct) auto

lemma byte_val_digit [simp]: "d < 10 \<Longrightarrow> byte_val (digit_char d) = 48 + d"
  by (simp add: digit_char_def byte_val_def)

lemma show_nat_nonempty [simp]: "show_nat n \<noteq> []"
  by (subst show_nat.simps) simp

lemma digits_val_show_nat: "digits_val 0 (show_nat n) = Some (int n)"
proof (induction n rule: show_nat.induct)
  case (1 n)
  show ?case
  proof (cases "n < 10")
    case True
    then show ?thesis by (simp add: show_nat.simps [of n])
  next
    case False
    with 1 show ?thesis
      by (simp add: show_nat.simps [of n] digits_val_append) presburger
  qed
qed

lemma show_nat_digits: "c \<in> set (show_nat n) \<Longrightarrow> 48 \<le> byte_val c \<and> byte_val c \<le> 57"
proof (induction n rule: show_nat.induct)
  case (1 n)
  show ?case
  proof (cases "n < 10")
    case True
    with "1.prems" show ?thesis by (simp add: show_nat.simps [of n])
  next
    case False
    have "n mod 10 < 10" by simp
    then have "48 + n mod 10 \<le> 57" by linarith
    with False 1 show ?thesis by (auto simp: show_nat.simps [of n])
  qed
qed

text \<open>Printing and parsing back.\<close>

lemma parse_int_show_int: "is_int64 i \<Longrightarrow> parse_int (show_int i) = Some i"
proof (cases "i < 0")
  case True
  moreover assume "is_int64 i"
  ultimately show ?thesis
    by (simp add: parse_int_def show_int_def parse_digits_def digits_val_show_nat)
next
  case False
  assume i: "is_int64 i"
  obtain c r where s: "show_nat (nat i) = c # r" by (cases "show_nat (nat i)") auto
  have "48 \<le> byte_val c" using show_nat_digits [of c "nat i"] s by simp
  then have "c \<noteq> CHR ''-''" "c \<noteq> CHR ''+''" by (auto simp: byte_val_def)
  moreover have "digits_val 0 (c # r) = Some i"
    using digits_val_show_nat [of "nat i"] False s by simp
  ultimately show ?thesis
    using False i s by (simp add: parse_int_def show_int_def parse_digits_def del: digits_val.simps)
qed

lemma show_int_inj: "is_int64 i \<Longrightarrow> is_int64 j \<Longrightarrow> show_int i = show_int j \<Longrightarrow> i = j"
  by (metis option.inject parse_int_show_int)

text \<open>\<open>hex.EncodeToString\<close> and \<open>%x\<close>.\<close>

definition hex_digit :: "nat \<Rightarrow> char" where
  "hex_digit d = (if d < 10 then char_of (48 + d) else char_of (87 + d))"

fun hex_encode :: "string \<Rightarrow> string" where
  "hex_encode [] = []"
| "hex_encode (c # s) = hex_digit (byte_val c div 16) # hex_digit (byte_val c mod 16) # hex_encode s"

lemma hex_digit_inj: "d < 16 \<Longrightarrow> e < 16 \<Longrightarrow> hex_digit d = hex_digit e \<Longrightarrow> d = e"
proof -
  assume d: "d < 16" and e: "e < 16" and eq: "hex_digit d = hex_digit e"
  have "byte_val (hex_digit d) = byte_val (hex_digit e)" using eq by simp
  with d e show "d = e" by (auto simp: hex_digit_def split: if_splits)
qed

lemma hex_encode_inj: "hex_encode s = hex_encode t \<Longrightarrow> s = t"
proof (induction s arbitrary: t)
  case Nil
  then show ?case by (cases t) auto
next
  case (Cons c s)
  from Cons.prems obtain d u where t: "t = d # u" by (cases t) auto
  have lt: "byte_val c div 16 < 16" "byte_val d div 16 < 16"
    using byte_val_less [of c] byte_val_less [of d] by linarith+
  have "byte_val c div 16 = byte_val d div 16" "byte_val c mod 16 = byte_val d mod 16"
    using Cons.prems lt hex_digit_inj unfolding t by auto
  then have "byte_val c = byte_val d" by (metis mult_div_mod_eq)
  with Cons show ?case unfolding t by (auto dest: byte_val_inj)
qed

lemma length_hex_encode [simp]: "length (hex_encode s) = 2 * length s"
  by (induction s) auto

section \<open>Dynamic values\<close>

text \<open>
  A value of type \<open>any\<close>: what \<open>encoding/json\<close> decodes into one, and what handlers put into an
  envelope. A nil slice or map is \<open>None\<close>. A number is the text \<open>json.Marshal\<close> prints for it.
  Any other Go value (a struct, a channel) is opaque and only has an identity.
\<close>

datatype any_val =
    VNil
  | VBool bool
  | VNum string
  | VStr string
  | VSlice "any_val list option"
  | VMap "(string \<times> any_val) list option"
  | VOther nat

section \<open>Errors\<close>

text \<open>
  \<open>errors.New\<close> variables are compared by identity, which is their name here; \<open>Wrapped\<close> is
  \<open>fmt.Errorf\<close> with \<open>%w\<close> (one or more wrapped errors) or \<open>errors.Join\<close>.
\<close>

datatype go_error =
    Sentinel string
  | MySQLError nat string
  | Wrapped string "go_error list"

fun err_is :: "go_error \<Rightarrow> string \<Rightarrow> bool" where
  "err_is (Sentinel n) t = (n = t)"
| "err_is (MySQLError c m) t = False"
| "err_is (Wrapped m es) t = list_ex (\<lambda>e. err_is e t) es"

fun first_some :: "'a option list \<Rightarrow> 'a option" where
  "first_some [] = None"
| "first_some (None # xs) = first_some xs"
| "first_some (Some x # xs) = Some x"

text \<open>\<open>errors.As\<close> with a \<open>*mysql.MySQLError\<close> target: the first one of the error tree, in pre-order.\<close>

fun as_mysql :: "go_error \<Rightarrow> (nat \<times> string) option" where
  "as_mysql (Sentinel n) = None"
| "as_mysql (MySQLError c m) = Some (c, m)"
| "as_mysql (Wrapped m es) = first_some (map as_mysql es)"

abbreviation wrap_err :: "string \<Rightarrow> go_error \<Rightarrow> go_error" where
  "wrap_err m e \<equiv> Wrapped m [e]"

abbreviation new_err :: "string \<Rightarrow> go_error" where
  "new_err m \<equiv> Wrapped m []"

lemma err_is_wrap [err_simps]: "err_is (wrap_err m e) t = err_is e t"
  by simp

lemma as_mysql_wrap [err_simps]: "as_mysql (wrap_err m e) = as_mysql e"
  by (cases "as_mysql e") simp_all

section \<open>Lists\<close>

text \<open>Slicing a Go string to at most \<open>n\<close> bytes: the \<open>truncate\<close> helpers of two packages.\<close>

definition truncate_bytes :: "string \<Rightarrow> nat \<Rightarrow> string" where
  "truncate_bytes s n = (if length s \<le> n then s else take n s)"

lemma truncate_bytes_take [simp]: "truncate_bytes s n = take n s"
  by (simp add: truncate_bytes_def)

lemma filter_filter_mono:
  "(\<And>x. x \<in> set xs \<Longrightarrow> Q x \<Longrightarrow> P x) \<Longrightarrow> filter Q (filter P xs) = filter Q xs"
  by (induction xs) auto

end
