(* ===== verification/Go_Url.thy ===== *)
theory Go_Url
  imports Go_Prelude
begin

text \<open>
  The part of \<open>net/url\<close> the module calls: query strings. \<open>url.Values\<close> is a map from a key to the
  list of its values; it is an association list with distinct keys, in the order of first use,
  which only \<open>Encode\<close> and \<open>sort\<close> of the code could observe, and both sort the keys first.
\<close>

type_synonym url_values = "(string \<times> string list) list"

section \<open>Escaping\<close>

definition unhex :: "char \<Rightarrow> nat option" where
  "unhex c = (let n = byte_val c in
     if 48 \<le> n \<and> n \<le> 57 then Some (n - 48)
     else if 97 \<le> n \<and> n \<le> 102 then Some (n - 87)
     else if 65 \<le> n \<and> n \<le> 70 then Some (n - 55) else None)"

fun query_unescape :: "string \<Rightarrow> string option" where
  "query_unescape [] = Some []"
| "query_unescape (c # s) =
     (if c = CHR ''%'' then
        (case s of
           a # b # r \<Rightarrow>
             (case (unhex a, unhex b) of
                (Some x, Some y) \<Rightarrow> map_option (Cons (char_of (16 * x + y))) (query_unescape r)
              | _ \<Rightarrow> None)
         | _ \<Rightarrow> None)
      else map_option (Cons (if c = CHR ''+'' then CHR '' '' else c)) (query_unescape s))"

definition unreserved :: "char \<Rightarrow> bool" where
  "unreserved c = (let n = byte_val c in
     (97 \<le> n \<and> n \<le> 122) \<or> (65 \<le> n \<and> n \<le> 90) \<or> (48 \<le> n \<and> n \<le> 57) \<or> n \<in> {45, 46, 95, 126})"

definition upper_hex :: "nat \<Rightarrow> char" where
  "upper_hex d = (if d < 10 then char_of (48 + d) else char_of (55 + d))"

fun query_escape :: "string \<Rightarrow> string" where
  "query_escape [] = []"
| "query_escape (c # s) =
     (if unreserved c then c # query_escape s
      else if c = CHR '' '' then CHR ''+'' # query_escape s
      else CHR ''%'' # upper_hex (byte_val c div 16) # upper_hex (byte_val c mod 16) # query_escape s)"

lemma unhex_upper_hex: "d < 16 \<Longrightarrow> unhex (upper_hex d) = Some d"
  by (simp add: unhex_def upper_hex_def Let_def)

lemma byte_val_split: "byte_val c div 16 < 16" "char_of (16 * (byte_val c div 16) + byte_val c mod 16) = c"
proof -
  show "byte_val c div 16 < 16" using byte_val_less [of c] by linarith
  have "16 * (byte_val c div 16) + byte_val c mod 16 = byte_val c" by simp
  then show "char_of (16 * (byte_val c div 16) + byte_val c mod 16) = c"
    by (simp add: byte_val_def)
qed

lemma unreserved_plain: "unreserved c \<Longrightarrow> c \<noteq> CHR ''%'' \<and> c \<noteq> CHR ''+'' \<and> c \<noteq> CHR ''&'' \<and> c \<noteq> CHR ''='' \<and> c \<noteq> CHR '';''"
  by (auto simp: unreserved_def byte_val_def)

lemma query_unescape_escape: "query_unescape (query_escape s) = Some s"
proof (induction s)
  case Nil
  then show ?case by simp
next
  case (Cons c s)
  consider "unreserved c" | "\<not> unreserved c" "c = CHR '' ''" | "\<not> unreserved c" "c \<noteq> CHR '' ''" by blast
  then show ?case
  proof cases
    case 1
    with Cons unreserved_plain [OF 1] show ?thesis by simp
  next
    case 2
    with Cons show ?thesis by simp
  next
    case 3
    with Cons byte_val_split [of c] show ?thesis by (simp add: unhex_upper_hex)
  qed
qed

lemma upper_hex_plain: "d < 16 \<Longrightarrow> unreserved (upper_hex d)"
  by (auto simp: unreserved_def upper_hex_def)

lemma query_escape_chars:
  "c \<in> set (query_escape s) \<Longrightarrow> unreserved c \<or> c = CHR ''+'' \<or> c = CHR ''%''"
proof (induction s)
  case Nil
  then show ?case by simp
next
  case (Cons d s)
  with byte_val_split(1) [of d] show ?case
    by (auto split: if_splits simp: upper_hex_plain)
qed

lemma query_escape_no_sep:
  "CHR ''&'' \<notin> set (query_escape s)" "CHR ''='' \<notin> set (query_escape s)" "CHR '';'' \<notin> set (query_escape s)"
  by (auto dest!: query_escape_chars simp: unreserved_def byte_val_def)

section \<open>Values\<close>

fun values_add :: "string \<Rightarrow> string \<Rightarrow> url_values \<Rightarrow> url_values" where
  "values_add k v [] = [(k, [v])]"
| "values_add k v ((k', vs) # m) =
     (if k' = k then (k', vs @ [v]) # m else (k', vs) # values_add k v m)"

definition values_get :: "url_values \<Rightarrow> string \<Rightarrow> string" where
  "values_get m k = (case map_of m k of Some (v # vs) \<Rightarrow> v | _ \<Rightarrow> [])"

definition values_set :: "string \<Rightarrow> string \<Rightarrow> url_values \<Rightarrow> url_values" where
  "values_set k v m = filter (\<lambda>(k', _). k' \<noteq> k) m @ [(k, [v])]"

lemma values_get_set [simp]:
  "values_get (values_set k v m) k' = (if k' = k then v else values_get m k')"
proof -
  have "map_of (filter (\<lambda>(k', _). k' \<noteq> k) m) k' = (if k' = k then None else map_of m k')" for k'
    by (induction m) auto
  then show ?thesis by (simp add: values_get_def values_set_def map_add_def split: option.splits)
qed

lemma values_add_keys: "set (map fst (values_add k v m)) = insert k (set (map fst m))"
  by (induction k v m rule: values_add.induct) auto

lemma values_add_distinct: "distinct (map fst m) \<Longrightarrow> distinct (map fst (values_add k v m))"
proof (induction k v m rule: values_add.induct)
  case (2 k v k' vs m)
  then show ?case using values_add_keys [of k v m] by auto
qed simp

section \<open>Query strings\<close>

fun cut_at :: "char \<Rightarrow> string \<Rightarrow> string \<times> string" where
  "cut_at sep [] = ([], [])"
| "cut_at sep (c # s) = (if c = sep then ([], s) else (let (a, b) = cut_at sep s in (c # a, b)))"

text \<open>One \<open>key=value\<close> piece: \<open>None\<close> is a parse error, \<open>Some None\<close> an empty piece that is skipped.\<close>

definition parse_pair :: "string \<Rightarrow> (string \<times> string) option option" where
  "parse_pair s =
     (if CHR '';'' \<in> set s then None
      else if s = [] then Some None
      else (let (k, v) = cut_at (CHR ''='') s
            in case (query_unescape k, query_unescape v) of
                 (Some k', Some v') \<Rightarrow> Some (Some (k', v'))
               | _ \<Rightarrow> None))"

fun add_pairs :: "string list \<Rightarrow> url_values \<Rightarrow> url_values option" where
  "add_pairs [] m = Some m"
| "add_pairs (s # ss) m =
     (case parse_pair s of
        None \<Rightarrow> None
      | Some None \<Rightarrow> add_pairs ss m
      | Some (Some (k, v)) \<Rightarrow> add_pairs ss (values_add k v m))"

text \<open>
  \<open>url.ParseQuery\<close>; every caller here gives up when it reports an error. Recent releases of Go bound
  the number of pieces by a setting of the toolchain, which is the argument \<open>max_params\<close>.
\<close>

definition parse_query :: "nat \<Rightarrow> string \<Rightarrow> url_values option" where
  "parse_query max_params q =
     (let ps = split_on (CHR ''&'') q
      in if max_params < length ps then None else add_pairs ps [])"

lemma add_pairs_distinct:
  "add_pairs ss m = Some m' \<Longrightarrow> distinct (map fst m) \<Longrightarrow> distinct (map fst m')"
  by (induction ss m rule: add_pairs.induct) (auto split: option.splits simp: values_add_distinct)

lemma parse_query_distinct: "parse_query n q = Some m \<Longrightarrow> distinct (map fst m)"
  by (auto simp: parse_query_def Let_def split: if_splits dest: add_pairs_distinct)

text \<open>\<open>Values.Encode\<close>: the pieces sorted by key, joined with \<open>&\<close>.\<close>

definition encode_pair :: "string \<times> string \<Rightarrow> string" where
  "encode_pair = (\<lambda>(k, v). query_escape k @ ''='' @ query_escape v)"

definition values_encode :: "url_values \<Rightarrow> string" where
  "values_encode m = join_with ''&''
     (concat (map (\<lambda>k. map (\<lambda>v. encode_pair (k, v)) (case map_of m k of Some vs \<Rightarrow> vs | None \<Rightarrow> []))
        (sort (map fst m))))"

lemma cut_at_append: "sep \<notin> set a \<Longrightarrow> cut_at sep (a @ sep # b) = (a, b)"
  by (induction a) auto

lemma parse_pair_encode: "parse_pair (encode_pair (k, v)) = Some (Some (k, v))"
proof -
  have "CHR '';'' \<notin> set (encode_pair (k, v))"
    using query_escape_no_sep(3) by (auto simp: encode_pair_def)
  moreover have "cut_at (CHR ''='') (encode_pair (k, v)) = (query_escape k, query_escape v)"
    using cut_at_append [OF query_escape_no_sep(2) [of k], of "query_escape v"]
    by (simp add: encode_pair_def)
  moreover have "encode_pair (k, v) \<noteq> []" by (simp add: encode_pair_def)
  ultimately show ?thesis by (simp add: parse_pair_def query_unescape_escape)
qed

section \<open>Reading back what was encoded\<close>

lemma split_on_plain: "sep \<notin> set w \<Longrightarrow> split_on sep w = [w]"
  by (induction w) auto

lemma split_on_append: "sep \<notin> set w \<Longrightarrow> split_on sep (w @ sep # s) = w # split_on sep s"
  by (induction w) auto

lemma split_join: "ws \<noteq> [] \<Longrightarrow> (\<And>w. w \<in> set ws \<Longrightarrow> sep \<notin> set w) \<Longrightarrow> split_on sep (join_with [sep] ws) = ws"
proof (induction ws rule: induct_list012)
  case (3 w v ws)
  then show ?case by (simp add: split_on_append)
qed (simp_all add: split_on_plain)

lemma map_of_values_add [table_simps]:
  "map_of (values_add k v m) k' =
     (if k' = k then Some ((case map_of m k of None \<Rightarrow> [] | Some vs \<Rightarrow> vs) @ [v]) else map_of m k')"
  by (induction k v m rule: values_add.induct) auto

lemma add_pairs_encode: "add_pairs (map encode_pair kvs) m = Some (fold (\<lambda>(k, v). values_add k v) kvs m)"
proof (induction kvs arbitrary: m)
  case (Cons p kvs)
  obtain k v where "p = (k, v)" by (cases p)
  then show ?case using Cons by (simp add: parse_pair_encode)
qed simp

lemma map_of_fold_add:
  "map_of (fold (\<lambda>(k, v). values_add k v) kvs m) k =
     (let vs = map snd (filter (\<lambda>p. fst p = k) kvs)
      in if vs = [] then map_of m k else Some ((case map_of m k of None \<Rightarrow> [] | Some ws \<Rightarrow> ws) @ vs))"
  by (induction kvs arbitrary: m) (auto simp: map_of_values_add Let_def)

text \<open>The pairs \<open>Encode\<close> prints, in its order.\<close>

definition sorted_pairs :: "url_values \<Rightarrow> (string \<times> string) list" where
  "sorted_pairs m = concat (map (\<lambda>k. map (Pair k) (case map_of m k of Some vs \<Rightarrow> vs | None \<Rightarrow> [])) (sort (map fst m)))"

lemma values_encode_pairs: "values_encode m = join_with ''&'' (map encode_pair (sorted_pairs m))"
  by (simp add: values_encode_def sorted_pairs_def map_concat comp_def)

lemma sorted_pairs_of_key:
  assumes "distinct (map fst m)"
  shows "map snd (filter (\<lambda>p. fst p = k) (sorted_pairs m)) = (case map_of m k of Some vs \<Rightarrow> vs | None \<Rightarrow> [])"
proof -
  have "map snd (filter (\<lambda>p. fst p = k) (concat (map (\<lambda>j. map (Pair j) (f j)) ks))) = (if k \<in> set ks then f k else [])"
    if "distinct ks" for ks and f :: "string \<Rightarrow> string list"
    using that by (induction ks) (auto simp: filter_map comp_def intro!: filter_False)
  from this [of "sort (map fst m)" "\<lambda>j. case map_of m j of Some vs \<Rightarrow> vs | None \<Rightarrow> []"] assms
  have "map snd (filter (\<lambda>p. fst p = k) (sorted_pairs m)) =
      (if k \<in> fst ` set m then case map_of m k of Some vs \<Rightarrow> vs | None \<Rightarrow> [] else [])"
    by (simp add: sorted_pairs_def)
  moreover have "k \<notin> fst ` set m \<Longrightarrow> map_of m k = None" by (simp add: map_of_eq_None_iff)
  ultimately show ?thesis by auto
qed

text \<open>\<open>ParseQuery\<close> reads what \<open>Encode\<close> prints, up to the order of the keys.\<close>

lemma parse_encode:
  assumes "distinct (map fst m)" and "list_all (\<lambda>(k, vs). vs \<noteq> []) m" and "m \<noteq> []"
    and "length (sorted_pairs m) \<le> n"
  obtains m' where "parse_query n (values_encode m) = Some m'" and "map_of m' = map_of m" and "distinct (map fst m')"
proof -
  let ?m' = "fold (\<lambda>(k, v). values_add k v) (sorted_pairs m) []"
  have "sorted_pairs m \<noteq> []"
  proof -
    obtain k vs r where "m = (k, vs) # r" using assms(3) by (cases m) auto
    then have "map_of m k = Some vs" "vs \<noteq> []" using assms(2) by auto
    then show ?thesis using sorted_pairs_of_key [OF assms(1), of k] by auto
  qed
  then have "split_on (CHR ''&'') (values_encode m) = map encode_pair (sorted_pairs m)"
    unfolding values_encode_pairs
    by (intro split_join) (auto simp: encode_pair_def query_escape_no_sep split: prod.splits)
  then have p: "parse_query n (values_encode m) = Some ?m'"
    using assms(4) by (simp add: parse_query_def Let_def add_pairs_encode)
  moreover have "map_of ?m' k = map_of m k" for k
  proof (cases "map_of m k")
    case None
    then show ?thesis by (simp add: map_of_fold_add sorted_pairs_of_key [OF assms(1)])
  next
    case (Some vs)
    then have "vs \<noteq> []" using assms(2) by (auto simp: list_all_iff dest: map_of_SomeD)
    with Some show ?thesis by (simp add: map_of_fold_add sorted_pairs_of_key [OF assms(1)])
  qed
  ultimately show thesis using that parse_query_distinct [OF p] by blast
qed

end
