(* ===== verification/Go_Json.thy ===== *)
theory Go_Json
  imports Go_Url
begin

text \<open>
  The part of \<open>encoding/json\<close> the module calls: the string encoder of \<open>json.Marshal\<close> (with HTML
  escaping), and \<open>json.Unmarshal\<close> into an \<open>any\<close>. The conversion of a number literal to a
  \<open>float64\<close> and back to the text \<open>json.Marshal\<close> prints is an argument \<open>num\<close> of the parser, with
  \<open>None\<close> for a literal out of range; a number is the text printed for it. The nesting limit of the
  library (ten thousand levels) is not modelled.

  This theory holds the values and the strings: \<open>pstr_escape\<close> shows that the reader of string literals
  reads back what the encoder prints, for every string of valid UTF-8. The parser of whole documents
  is in \<open>Json_Value\<close>, the canonical encoder in \<open>Canonical_Json\<close>.
\<close>

datatype json = JNull | JBool bool | JNum string | JStr string | JArr "json list"
  | JObj "(string \<times> json) list"

section \<open>UTF-8\<close>

definition cont_byte :: "nat \<Rightarrow> bool" where
  "cont_byte n \<longleftrightarrow> 0x80 \<le> n \<and> n \<le> 0xBF"

definition second_byte :: "nat \<Rightarrow> nat \<Rightarrow> bool" where
  "second_byte x y \<longleftrightarrow> (if x = 0xE0 then 0xA0 \<le> y \<and> y \<le> 0xBF
     else if x = 0xED then 0x80 \<le> y \<and> y \<le> 0x9F
     else if x = 0xF0 then 0x90 \<le> y \<and> y \<le> 0xBF
     else if x = 0xF4 then 0x80 \<le> y \<and> y \<le> 0x8F else cont_byte y)"

text \<open>The length of the rune a string starts with; 0 when its first bytes are not valid UTF-8.\<close>

fun rune_len :: "string \<Rightarrow> nat" where
  "rune_len [] = 0"
| "rune_len (a # s) = (let x = byte_val a in
     if x < 0x80 then 1
     else if 0xC2 \<le> x \<and> x \<le> 0xDF then
       (case s of b # _ \<Rightarrow> if cont_byte (byte_val b) then 2 else 0 | _ \<Rightarrow> 0)
     else if 0xE0 \<le> x \<and> x \<le> 0xEF then
       (case s of b # c # _ \<Rightarrow> if second_byte x (byte_val b) \<and> cont_byte (byte_val c) then 3 else 0 | _ \<Rightarrow> 0)
     else if 0xF0 \<le> x \<and> x \<le> 0xF4 then
       (case s of b # c # d # _ \<Rightarrow>
          if second_byte x (byte_val b) \<and> cont_byte (byte_val c) \<and> cont_byte (byte_val d) then 4 else 0 | _ \<Rightarrow> 0)
     else 0)"

lemma rune_len_le: "rune_len s \<le> length s"
proof (cases s)
  case (Cons a t)
  show ?thesis
    by (simp add: Cons Let_def del: One_nat_def split: list.splits)
qed simp

function utf8_ok :: "string \<Rightarrow> bool" where
  "utf8_ok s = (if s = [] then True else if rune_len s = 0 then False
     else utf8_ok (drop (rune_len s) s))"
  by pat_completeness auto
termination
  by (relation "measure length") auto

declare utf8_ok.simps [simp del]

definition encode_rune :: "nat \<Rightarrow> string" where
  "encode_rune u =
     (if u < 0x80 then [char_of u]
      else if u < 0x800 then [char_of (0xC0 + u div 64), char_of (0x80 + u mod 64)]
      else if u < 0x10000 then
        [char_of (0xE0 + u div 4096), char_of (0x80 + u div 64 mod 64), char_of (0x80 + u mod 64)]
      else [char_of (0xF0 + u div 262144), char_of (0x80 + u div 4096 mod 64),
            char_of (0x80 + u div 64 mod 64), char_of (0x80 + u mod 64)])"

definition scalar_value :: "nat \<Rightarrow> bool" where
  "scalar_value u \<longleftrightarrow> u < 0xD800 \<or> (0xDFFF < u \<and> u < 0x110000)"

definition replacement_char :: string where
  "replacement_char = encode_rune 0xFFFD"

lemma utf8_ok_Nil [simp]: "utf8_ok []"
  by (simp add: utf8_ok.simps)

lemma utf8_ok_step: "rune_len s \<noteq> 0 \<Longrightarrow> utf8_ok s = utf8_ok (drop (rune_len s) s)"
  by (subst utf8_ok.simps) auto

lemma rune_len_append: "rune_len s \<noteq> 0 \<Longrightarrow> rune_len (s @ t) = rune_len s"
  by (cases s) (auto simp: Let_def split: list.splits if_splits)

lemma rune_len_ascii [simp]: "byte_val c < 128 \<Longrightarrow> rune_len (c # s) = 1"
  by simp

lemma utf8_ok_Cons_ascii [simp]: "byte_val c < 128 \<Longrightarrow> utf8_ok (c # s) = utf8_ok s"
  by (subst utf8_ok.simps) simp

lemma rune_len_two:
  "2 \<le> a \<Longrightarrow> a < 32 \<Longrightarrow> b < 64 \<Longrightarrow> rune_len (char_of (0xC0 + a :: nat) # char_of (0x80 + b :: nat) # t) = 2"
  by (simp add: cont_byte_def)

lemma rune_len_three:
  assumes "a < 16" "b < 64" "c < 64" "a = 0 \<longrightarrow> 32 \<le> b" "a = 13 \<longrightarrow> b < 32"
  shows "rune_len (char_of (0xE0 + a :: nat) # char_of (0x80 + b :: nat) # char_of (0x80 + c :: nat) # t) = 3"
proof -
  have "second_byte (0xE0 + a) (0x80 + b)"
    using assms unfolding second_byte_def cont_byte_def by (cases "a = 0"; cases "a = 13") simp_all
  moreover have "cont_byte (0x80 + c)" using assms by (simp add: cont_byte_def)
  ultimately show ?thesis using assms by simp
qed

lemma rune_len_four:
  assumes "a < 5" "b < 64" "c < 64" "d < 64" "a = 0 \<longrightarrow> 16 \<le> b" "a = 4 \<longrightarrow> b < 16"
  shows "rune_len (char_of (0xF0 + a :: nat) # char_of (0x80 + b :: nat) # char_of (0x80 + c :: nat) # char_of (0x80 + d :: nat) # t) = 4"
proof -
  have "second_byte (0xF0 + a) (0x80 + b)"
    using assms unfolding second_byte_def cont_byte_def by (cases "a = 0"; cases "a = 4") simp_all
  moreover have "cont_byte (0x80 + c)" "cont_byte (0x80 + d)" using assms by (simp_all add: cont_byte_def)
  ultimately show ?thesis using assms by simp
qed

lemma rune_len_encode:
  assumes "scalar_value u"
  shows "rune_len (encode_rune u @ t) = length (encode_rune u)"
proof -
  have m: "u mod 64 < 64" "u div 64 mod 64 < 64" "u div 4096 mod 64 < 64" by simp_all
  consider "u < 0x80" | "0x80 \<le> u" "u < 0x800" | "0x800 \<le> u" "u < 0x10000" | "0x10000 \<le> u" "u < 0x110000"
    using assms unfolding scalar_value_def
    by (cases "u < 0x80"; cases "u < 0x800"; cases "u < 0x10000") auto
  then show ?thesis
  proof cases
    case 1
    then show ?thesis by (simp add: encode_rune_def)
  next
    case 2
    then have "u div 64 < 32" "2 \<le> u div 64" by simp_all
    with 2 m rune_len_two [of "u div 64" "u mod 64" t] show ?thesis
      by (simp add: encode_rune_def del: rune_len.simps)
  next
    case 3
    have e: "u = 4096 * (u div 4096) + 64 * (u div 64 mod 64) + u mod 64"
    proof -
      have "u div 4096 = u div 64 div 64" using div_mult2_eq [of u 64 64] by simp
      then show ?thesis
        using mult_div_mod_eq [of 64 u] mult_div_mod_eq [of 64 "u div 64"] by linarith
    qed
    have "u div 4096 = 0 \<longrightarrow> 32 \<le> u div 64 mod 64" using 3(1) e m by linarith
    moreover have "u div 4096 = 13 \<longrightarrow> u div 64 mod 64 < 32"
    proof
      assume "u div 4096 = 13"
      with e m have "u < 0xD800 \<longrightarrow> u div 64 mod 64 < 32" "u \<le> 0xDFFF" by linarith+
      with assms show "u div 64 mod 64 < 32" by (auto simp: scalar_value_def)
    qed
    moreover have "u div 4096 < 16" using 3 by simp
    ultimately show ?thesis
      using 3 m rune_len_three [of "u div 4096" "u div 64 mod 64" "u mod 64" t]
      by (simp add: encode_rune_def del: rune_len.simps)
  next
    case 4
    have e: "u = 262144 * (u div 262144) + 4096 * (u div 4096 mod 64) + u mod 4096"
    proof -
      have "u div 262144 = u div 4096 div 64" using div_mult2_eq [of u 4096 64] by simp
      then show ?thesis
        using mult_div_mod_eq [of 4096 u] mult_div_mod_eq [of 64 "u div 4096"] by linarith
    qed
    have "u mod 4096 < 4096" by simp
    then have "u div 262144 = 0 \<longrightarrow> 16 \<le> u div 4096 mod 64"
      "u div 262144 = 4 \<longrightarrow> u div 4096 mod 64 < 16"
      using 4 e by linarith+
    moreover have "u div 262144 < 5" using 4 by simp
    ultimately show ?thesis
      using 4 m rune_len_four [of "u div 262144" "u div 4096 mod 64" "u div 64 mod 64" "u mod 64" t]
      by (simp add: encode_rune_def del: rune_len.simps)
  qed
qed

lemma encode_rune_nonempty [simp]: "encode_rune u \<noteq> []"
  by (simp add: encode_rune_def)

lemma utf8_ok_encode [simp]: "scalar_value u \<Longrightarrow> utf8_ok (encode_rune u @ t) = utf8_ok t"
  by (subst utf8_ok_step) (simp_all add: rune_len_encode)

lemma utf8_ok_replacement [simp]: "utf8_ok (replacement_char @ t) = utf8_ok t"
  by (simp add: replacement_char_def scalar_value_def)

lemma rune_len_take: "rune_len s \<noteq> 0 \<Longrightarrow> rune_len (take (rune_len s) s @ t) = rune_len s"
  by (cases s) (auto simp: Let_def split: list.splits if_splits)

lemma utf8_ok_take: "rune_len s \<noteq> 0 \<Longrightarrow> utf8_ok (take (rune_len s) s @ t) = utf8_ok t"
  using rune_len_le [of s] by (subst utf8_ok_step) (simp_all add: rune_len_take)

section \<open>Encoding strings\<close>

definition line_sep :: string where "line_sep = map char_of [0xE2, 0x80, 0xA8 :: nat]"
definition para_sep :: string where "para_sep = map char_of [0xE2, 0x80, 0xA9 :: nat]"

definition backslash :: char where "backslash = CHR 0x5C"
definition dquote :: char where "dquote = CHR 0x22"

definition escape_ascii :: "char \<Rightarrow> string" where
  "escape_ascii c =
     (let n = byte_val c in
      if c = dquote \<or> c = backslash then [backslash, c]
      else if n = 8 then backslash # ''b'' else if n = 12 then backslash # ''f''
      else if n = 10 then backslash # ''n'' else if n = 13 then backslash # ''r''
      else if n = 9 then backslash # ''t''
      else if n < 32 \<or> c \<in> {CHR ''<'', CHR ''>'', CHR ''&''}
        then backslash # ''u00'' @ [hex_digit (n div 16), hex_digit (n mod 16)]
      else [c])"

function escape_body :: "string \<Rightarrow> string" where
  "escape_body [] = []"
| "escape_body (c # s) =
     (if byte_val c < 128 then escape_ascii c @ escape_body s
      else let n = rune_len (c # s) in
        if n = 0 then backslash # ''ufffd'' @ escape_body s
        else (if take n (c # s) = line_sep then backslash # ''u2028''
              else if take n (c # s) = para_sep then backslash # ''u2029''
              else take n (c # s)) @ escape_body (drop n (c # s)))"
  by pat_completeness auto
termination
  by (relation "measure length") (auto simp: Let_def)

definition json_quote :: "string \<Rightarrow> string" where
  "json_quote s = dquote # escape_body s @ [dquote]"

section \<open>Decoding strings\<close>

fun hex4 :: "string \<Rightarrow> nat option" where
  "hex4 (a # b # c # d # s) =
     (case (unhex a, unhex b, unhex c, unhex d) of
        (Some w, Some x, Some y, Some z) \<Rightarrow> Some (4096 * w + 256 * x + 16 * y + z)
      | _ \<Rightarrow> None)"
| "hex4 _ = None"

text \<open>After a backslash: the bytes an escape stands for and the number of bytes it takes.\<close>

definition unescape_u :: "string \<Rightarrow> (string \<times> nat) option" where
  "unescape_u r = (case hex4 r of
       None \<Rightarrow> None
     | Some u \<Rightarrow>
        if 0xD800 \<le> u \<and> u \<le> 0xDFFF then
          (case drop 4 r of
             b # x # r2 \<Rightarrow>
               (if b = backslash \<and> x = CHR ''u'' \<and> u \<le> 0xDBFF then
                  (case hex4 r2 of
                     Some v \<Rightarrow> if 0xDC00 \<le> v \<and> v \<le> 0xDFFF
                       then Some (encode_rune (0x10000 + (u - 0xD800) * 1024 + (v - 0xDC00)), 11)
                       else Some (replacement_char, 5)
                   | None \<Rightarrow> Some (replacement_char, 5))
                else Some (replacement_char, 5))
           | _ \<Rightarrow> Some (replacement_char, 5))
        else Some (encode_rune u, 5))"

fun unescape :: "string \<Rightarrow> (string \<times> nat) option" where
  "unescape [] = None"
| "unescape (e # r) =
     (if e \<in> {dquote, backslash, CHR ''/''} then Some ([e], 1)
      else if e = CHR ''b'' then Some ([char_of (8 :: nat)], 1)
      else if e = CHR ''f'' then Some ([char_of (12 :: nat)], 1)
      else if e = CHR ''n'' then Some ([char_of (10 :: nat)], 1)
      else if e = CHR ''r'' then Some ([char_of (13 :: nat)], 1)
      else if e = CHR ''t'' then Some ([char_of (9 :: nat)], 1)
      else if e = CHR ''u'' then unescape_u r else None)"

definition prepend :: "string \<Rightarrow> (string \<times> string) option \<Rightarrow> (string \<times> string) option" where
  "prepend t p = map_option (\<lambda>(u, r). (t @ u, r)) p"

function pstr :: "string \<Rightarrow> (string \<times> string) option" where
  "pstr [] = None"
| "pstr (c # s) =
     (if c = dquote then Some ([], s)
      else if c = backslash then
        (case unescape s of None \<Rightarrow> None | Some (t, k) \<Rightarrow> prepend t (pstr (drop k s)))
      else if byte_val c < 32 then None
      else if byte_val c < 128 then prepend [c] (pstr s)
      else let n = rune_len (c # s) in
        if n = 0 then prepend replacement_char (pstr s)
        else prepend (take n (c # s)) (pstr (drop n (c # s))))"
  by pat_completeness auto
termination
  by (relation "measure length") (auto simp: Let_def)

lemma prepend_simps [simp]:
  "prepend t None = None" "prepend t (Some (u, r)) = Some (t @ u, r)"
  "prepend t p = Some (w, r) \<longleftrightarrow> (\<exists>u. p = Some (u, r) \<and> w = t @ u)"
  by (auto simp: prepend_def split: option.splits prod.splits)

text \<open>A decoded string is valid UTF-8, and something is consumed.\<close>

lemma hex4_bound: "hex4 r = Some u \<Longrightarrow> u < 0x10000"
proof -
  have h: "unhex c = Some n \<Longrightarrow> n < 16" for c n by (auto simp: unhex_def Let_def split: if_splits)
  assume "hex4 r = Some u"
  then obtain w x y z where "u = 4096 * w + 256 * x + 16 * y + z" "w < 16" "x < 16" "y < 16" "z < 16"
    by (cases r rule: hex4.cases) (auto split: option.splits dest!: h)
  then show ?thesis by linarith
qed

lemma utf8_ok_unescape:
  assumes "unescape s = Some (t, k)"
  shows "utf8_ok (t @ u) = utf8_ok u"
proof (cases s)
  case Nil
  with assms show ?thesis by simp
next
  case (Cons e r)
  show ?thesis
  proof (cases "e = CHR ''u''")
    case True
    then have *: "unescape_u r = Some (t, k)"
      using assms Cons by (simp add: dquote_def backslash_def)
    then obtain x where x: "hex4 r = Some x" by (auto simp: unescape_u_def split: option.splits)
    from * x hex4_bound [OF x] show ?thesis
      by (auto simp: unescape_u_def scalar_value_def split: if_splits list.splits option.splits)
  next
    case False
    with assms Cons show ?thesis
      by (auto simp: dquote_def backslash_def byte_val_def split: if_splits)
  qed
qed

lemma pstr_utf8: "pstr s = Some (t, r) \<Longrightarrow> utf8_ok t"
proof (induction s arbitrary: t r rule: pstr.induct)
  case 1
  then show ?case by simp
next
  case (2 c s)
  then show ?case
    by (auto simp: Let_def utf8_ok_unescape utf8_ok_take simp del: rune_len.simps
        split: if_splits option.splits)
qed

lemma pstr_shorter: "pstr s = Some (t, r) \<Longrightarrow> length r < length s"
proof (induction s arbitrary: t r rule: pstr.induct)
  case 1
  then show ?case by simp
next
  case (2 c s)
  then show ?case
    by (fastforce simp: Let_def simp del: rune_len.simps split: if_splits option.splits)
qed


text \<open>The encoder's output is read back: the round trip for strings.\<close>

lemma unhex_hex_digit: "d < 16 \<Longrightarrow> unhex (hex_digit d) = Some d"
  by (simp add: unhex_def hex_digit_def Let_def)

lemma pstr_control:
  "n < 128 \<Longrightarrow> pstr (backslash # ''u00'' @ hex_digit (n div 16) # hex_digit (n mod 16) # t) = prepend [char_of n] (pstr t)"
proof -
  assume n: "n < 128"
  then have d: "n div 16 < 16" "n mod 16 < 16" by simp_all
  have "unhex (CHR ''0'') = Some 0" by (simp add: unhex_def byte_val_def)
  then have "hex4 (''00'' @ hex_digit (n div 16) # hex_digit (n mod 16) # t) = Some n"
    using d by (simp add: unhex_hex_digit)
  then have "unescape (''u00'' @ hex_digit (n div 16) # hex_digit (n mod 16) # t) = Some ([char_of n], 5)"
    using n by (simp add: unescape_u_def encode_rune_def dquote_def backslash_def)
  then show ?thesis by (simp add: dquote_def backslash_def)
qed

lemma pstr_escape_ascii:
  assumes "byte_val c < 128"
  shows "pstr (escape_ascii c @ t) = prepend [c] (pstr t)"
proof -
  have c: "char_of (byte_val c) = c" by (simp add: byte_val_def)
  consider "c = dquote \<or> c = backslash" | "byte_val c \<in> {8, 9, 10, 12, 13}"
    | "byte_val c \<notin> {8, 9, 10, 12, 13}" "byte_val c < 32 \<or> c \<in> {CHR ''<'', CHR ''>'', CHR ''&''}" "c \<noteq> dquote" "c \<noteq> backslash"
    | "32 \<le> byte_val c" "c \<notin> {CHR ''<'', CHR ''>'', CHR ''&''}" "c \<noteq> dquote" "c \<noteq> backslash"
    by force
  then show ?thesis
  proof cases
    case 1
    then show ?thesis by (auto simp: escape_ascii_def dquote_def backslash_def)
  next
    case 2
    then consider "c = char_of (8 :: nat)" | "c = char_of (9 :: nat)" | "c = char_of (10 :: nat)"
      | "c = char_of (12 :: nat)" | "c = char_of (13 :: nat)" using c by (metis empty_iff insert_iff)
    then show ?thesis by cases (simp_all add: escape_ascii_def dquote_def backslash_def byte_val_def)
  next
    case 3
    then have "escape_ascii c = backslash # ''u00'' @ [hex_digit (byte_val c div 16), hex_digit (byte_val c mod 16)]"
      by (auto simp: escape_ascii_def Let_def)
    with pstr_control [OF assms, of t] c show ?thesis by simp
  next
    case 4
    then have "escape_ascii c = [c]" by (auto simp: escape_ascii_def Let_def)
    with 4 assms show ?thesis by simp
  qed
qed

lemma pstr_rune:
  assumes "\<not> byte_val c < 128" and "rune_len (c # s) \<noteq> 0"
  shows "pstr (take (rune_len (c # s)) (c # s) @ t) = prepend (take (rune_len (c # s)) (c # s)) (pstr t)"
proof -
  let ?n = "rune_len (c # s)"
  obtain u where u: "take ?n (c # s) @ t = c # u"
    using assms(2) by (cases ?n) auto
  have len: "length (take ?n (c # s)) = ?n" using rune_len_le [of "c # s"] by simp
  have r: "rune_len (c # u) = ?n" using rune_len_take [OF assms(2), of t] u by simp
  have "c \<noteq> dquote" "c \<noteq> backslash" "\<not> byte_val c < 32"
    using assms(1) by (auto simp: dquote_def backslash_def byte_val_def)
  moreover have "take ?n (c # u) = take ?n (c # s)" "drop ?n (c # u) = t"
    using u len by (metis append_eq_conv_conj) (metis append_eq_conv_conj len u)
  ultimately have "pstr (c # u) = prepend (take ?n (c # s)) (pstr t)"
    using assms r by (simp add: Let_def del: rune_len.simps)
  then show ?thesis using u by simp
qed

lemma pstr_separators:
  "pstr (backslash # ''u2028'' @ t) = prepend line_sep (pstr t)"
  "pstr (backslash # ''u2029'' @ t) = prepend para_sep (pstr t)"
proof -
  have "hex4 (''2028'' @ t) = Some 0x2028" "hex4 (''2029'' @ t) = Some 0x2029"
    by (simp_all add: unhex_def byte_val_def)
  then have "unescape (''u2028'' @ t) = Some (line_sep, 5)" "unescape (''u2029'' @ t) = Some (para_sep, 5)"
    by (simp_all add: unescape_u_def encode_rune_def line_sep_def para_sep_def dquote_def backslash_def)
  then show "pstr (backslash # ''u2028'' @ t) = prepend line_sep (pstr t)"
    "pstr (backslash # ''u2029'' @ t) = prepend para_sep (pstr t)"
    by (simp_all add: dquote_def backslash_def)
qed

theorem pstr_escape: "utf8_ok s \<Longrightarrow> pstr (escape_body s @ dquote # r) = Some (s, r)"
proof (induction s rule: escape_body.induct)
  case 1
  then show ?case by simp
next
  case (2 c s)
  show ?case
  proof (cases "byte_val c < 128")
    case True
    with 2 show ?thesis by (simp add: pstr_escape_ascii del: pstr.simps rune_len.simps)
  next
    case False
    let ?n = "rune_len (c # s)"
    have n: "?n \<noteq> 0" and ok: "utf8_ok (drop ?n (c # s))"
      using "2.prems" by (subst (asm) utf8_ok.simps; auto simp del: rune_len.simps split: if_splits)+
    have IH: "pstr (escape_body (drop ?n (c # s)) @ dquote # r) = Some (drop ?n (c # s), r)"
      using "2.IH"(3) False n ok by blast
    have td: "take ?n (c # s) @ drop ?n (c # s) = c # s" by (rule append_take_drop_id)
    have eb: "escape_body (c # s) =
       (if take ?n (c # s) = line_sep then backslash # ''u2028''
        else if take ?n (c # s) = para_sep then backslash # ''u2029''
        else take ?n (c # s)) @ escape_body (drop ?n (c # s))"
      using False n by (simp add: Let_def del: rune_len.simps)
    consider "take ?n (c # s) = line_sep" | "take ?n (c # s) = para_sep" "para_sep \<noteq> line_sep"
      | "take ?n (c # s) \<noteq> line_sep" "take ?n (c # s) \<noteq> para_sep" by metis
    then show ?thesis
    proof cases
      case 1
      then have "escape_body (c # s) = backslash # ''u2028'' @ escape_body (drop ?n (c # s))"
        unfolding eb by simp
      with pstr_separators(1) IH td 1 show ?thesis by (simp del: pstr.simps escape_body.simps rune_len.simps)
    next
      case 2
      then have "escape_body (c # s) = backslash # ''u2029'' @ escape_body (drop ?n (c # s))"
        unfolding eb by simp
      with pstr_separators(2) IH td 2 show ?thesis by (simp del: pstr.simps escape_body.simps rune_len.simps)
    next
      case 3
      then have "escape_body (c # s) = take ?n (c # s) @ escape_body (drop ?n (c # s))"
        unfolding eb by simp
      with pstr_rune [OF False n] IH td show ?thesis by (simp del: pstr.simps escape_body.simps rune_len.simps take_Suc_Cons)
    qed
  qed
qed

end
