(* ===== verification/Json_Value.thy ===== *)
theory Json_Value
  imports Go_Json
begin

text \<open>
  \<open>json.Unmarshal\<close> into an \<open>any\<close> and the rendering of such a value. The parser takes fuel:
  \<open>pval_stable\<close> shows that the fuel \<open>unmarshal\<close> gives is enough, so that its \<open>None\<close> is a syntax
  error (or a number literal out of range). \<open>pval_render\<close> is the round trip.

  The conversion of a number literal to a \<open>float64\<close> and back to the text \<open>json.Marshal\<close> prints is
  the argument \<open>num\<close>, with \<open>None\<close> for a literal out of range. The limit of ten thousand nested
  levels is not modelled.
\<close>

section \<open>Scanning\<close>

definition json_ws :: "char \<Rightarrow> bool" where
  "json_ws c \<longleftrightarrow> byte_val c \<in> {9, 10, 13, 32}"

definition skip_ws :: "string \<Rightarrow> string" where
  "skip_ws = dropWhile json_ws"

definition digit :: "char \<Rightarrow> bool" where
  "digit c \<longleftrightarrow> 48 \<le> byte_val c \<and> byte_val c \<le> 57"

definition digits1 :: "string \<Rightarrow> string option" where
  "digits1 s = (case s of c # r \<Rightarrow> if digit c then Some (dropWhile digit r) else None | [] \<Rightarrow> None)"

definition scan_int :: "string \<Rightarrow> string option" where
  "scan_int s = (case s of c # r \<Rightarrow> if c = CHR ''0'' then Some r else digits1 s | [] \<Rightarrow> None)"

definition scan_frac :: "string \<Rightarrow> string option" where
  "scan_frac s = (case s of c # r \<Rightarrow> if c = CHR ''.'' then digits1 r else Some s | [] \<Rightarrow> Some [])"

definition scan_exp :: "string \<Rightarrow> string option" where
  "scan_exp s = (case s of
       c # r \<Rightarrow> if c \<in> {CHR ''e'', CHR ''E''}
         then (case r of d # t \<Rightarrow> if d \<in> {CHR ''+'', CHR ''-''} then digits1 t else digits1 r | [] \<Rightarrow> None)
         else Some s
     | [] \<Rightarrow> Some [])"

definition scan_sign :: "string \<Rightarrow> string" where
  "scan_sign s = (case s of c # r \<Rightarrow> if c = CHR ''-'' then r else s | [] \<Rightarrow> [])"

definition scan_number :: "string \<Rightarrow> string option" where
  "scan_number s =
     Option.bind (scan_int (scan_sign s)) (\<lambda>u. Option.bind (scan_frac u) scan_exp)"

definition pnum :: "(string \<Rightarrow> string option) \<Rightarrow> string \<Rightarrow> (json \<times> string) option" where
  "pnum num s = Option.bind (scan_number s)
     (\<lambda>r. map_option (\<lambda>l. (JNum l, r)) (num (take (length s - length r) s)))"

definition plit :: "string \<Rightarrow> string \<Rightarrow> json \<Rightarrow> (json \<times> string) option" where
  "plit s w v = (if has_prefix s w then Some (v, drop (length w) s) else None)"

text \<open>A map keeps the last value of a key.\<close>

fun obj_put :: "string \<Rightarrow> json \<Rightarrow> (string \<times> json) list \<Rightarrow> (string \<times> json) list" where
  "obj_put k v [] = [(k, v)]"
| "obj_put k v ((l, w) # m) = (if l = k then (k, v) # m else (l, w) # obj_put k v m)"

definition obj_of :: "(string \<times> json) list \<Rightarrow> (string \<times> json) list" where
  "obj_of ms = fold (\<lambda>(k, v) m. obj_put k v m) ms []"

section \<open>Parsing\<close>

fun pval :: "(string \<Rightarrow> string option) \<Rightarrow> nat \<Rightarrow> string \<Rightarrow> (json \<times> string) option"
  and pelems :: "(string \<Rightarrow> string option) \<Rightarrow> nat \<Rightarrow> string \<Rightarrow> (json list \<times> string) option"
  and pmembers :: "(string \<Rightarrow> string option) \<Rightarrow> nat \<Rightarrow> string \<Rightarrow> ((string \<times> json) list \<times> string) option"
where
  "pval num 0 s = None"
| "pval num (Suc n) s = (case skip_ws s of
       [] \<Rightarrow> None
     | c # r \<Rightarrow>
        if c = CHR ''{'' then
          (case skip_ws r of
             [] \<Rightarrow> None
           | d # r2 \<Rightarrow> if d = CHR ''}'' then Some (JObj [], r2)
               else map_option (\<lambda>(ms, t). (JObj (obj_of ms), t)) (pmembers num n (d # r2)))
        else if c = CHR ''['' then
          (case skip_ws r of
             [] \<Rightarrow> None
           | d # r2 \<Rightarrow> if d = CHR '']'' then Some (JArr [], r2)
               else map_option (\<lambda>(vs, t). (JArr vs, t)) (pelems num n (d # r2)))
        else if c = dquote then map_option (\<lambda>(t, u). (JStr t, u)) (pstr r)
        else if c = CHR ''t'' then plit (c # r) ''true'' (JBool True)
        else if c = CHR ''f'' then plit (c # r) ''false'' (JBool False)
        else if c = CHR ''n'' then plit (c # r) ''null'' JNull
        else pnum num (c # r))"
| "pelems num 0 s = None"
| "pelems num (Suc n) s = (case pval num n s of
       None \<Rightarrow> None
     | Some (v, r) \<Rightarrow>
        (case skip_ws r of
           [] \<Rightarrow> None
         | c # r2 \<Rightarrow>
            if c = CHR '','' then map_option (\<lambda>(vs, t). (v # vs, t)) (pelems num n r2)
            else if c = CHR '']'' then Some ([v], r2) else None))"
| "pmembers num 0 s = None"
| "pmembers num (Suc n) s = (case skip_ws s of
       [] \<Rightarrow> None
     | q # s1 \<Rightarrow>
        if q \<noteq> dquote then None
        else (case pstr s1 of
           None \<Rightarrow> None
         | Some (k, s2) \<Rightarrow>
            (case skip_ws s2 of
               [] \<Rightarrow> None
             | c # s3 \<Rightarrow>
                if c \<noteq> CHR '':'' then None
                else (case pval num n s3 of
                   None \<Rightarrow> None
                 | Some (v, r) \<Rightarrow>
                    (case skip_ws r of
                       [] \<Rightarrow> None
                     | d # r2 \<Rightarrow>
                        if d = CHR '','' then map_option (\<lambda>(ms, t). ((k, v) # ms, t)) (pmembers num n r2)
                        else if d = CHR ''}'' then Some ([(k, v)], r2) else None)))))"

definition parse_fuel :: "string \<Rightarrow> nat" where
  "parse_fuel s = 2 * length s + 2"

definition unmarshal :: "(string \<Rightarrow> string option) \<Rightarrow> string \<Rightarrow> json option" where
  "unmarshal num s = (case pval num (parse_fuel s) s of
       Some (v, r) \<Rightarrow> if skip_ws r = [] then Some v else None
     | None \<Rightarrow> None)"

section \<open>The fuel is enough\<close>

lemma unmarshal_Nil [simp]: "unmarshal num [] = None"
  by (simp add: unmarshal_def parse_fuel_def eval_nat_numeral skip_ws_def)

lemma skip_ws_length: "length (skip_ws s) \<le> length s"
  by (simp add: skip_ws_def length_dropWhile_le)

lemma skip_ws_Cons_length: "skip_ws s = c # r \<Longrightarrow> length r < length s"
  using skip_ws_length [of s] by simp

lemma skip_ws_le: "skip_ws s = c # r \<Longrightarrow> Suc (length r) \<le> length s"
  using skip_ws_length [of s] by simp

lemma digits1_length: "digits1 s = Some r \<Longrightarrow> length r < length s"
  using length_dropWhile_le [of digit "tl s"]
  by (auto simp: digits1_def split: list.splits if_splits)

lemma scan_number_length: "scan_number s = Some r \<Longrightarrow> length r < length s"
proof -
  have f: "scan_frac t = Some r \<Longrightarrow> length r \<le> length t" for t r
    by (auto simp: scan_frac_def split: list.splits if_splits dest!: digits1_length)
  have e: "scan_exp t = Some r \<Longrightarrow> length r \<le> length t" for t r
    by (auto simp: scan_exp_def split: list.splits if_splits dest!: digits1_length)
  have i: "scan_int t = Some r \<Longrightarrow> length r < length t" for t r
    by (auto simp: scan_int_def split: list.splits if_splits dest!: digits1_length)
  assume "scan_number s = Some r"
  then obtain u w where "scan_int (scan_sign s) = Some u" "scan_frac u = Some w" "scan_exp w = Some r"
    by (auto simp: scan_number_def bind_eq_Some_conv)
  with i f e have "length r < length (scan_sign s)" by (meson le_less_trans le_trans)
  moreover have "length (scan_sign s) \<le> length s" by (auto simp: scan_sign_def split: list.splits)
  ultimately show ?thesis by simp
qed

lemma pnum_length: "pnum num s = Some (v, r) \<Longrightarrow> length r < length s"
  by (auto simp: pnum_def bind_eq_Some_conv dest: scan_number_length)

lemma plit_length: "plit s w v = Some (u, r) \<Longrightarrow> w \<noteq> [] \<Longrightarrow> length r < length s"
  by (auto simp: plit_def has_prefix_iff split: if_splits)

text \<open>The ways a value, the elements of an array and the members of an object are read.\<close>

lemma pval_cases:
  assumes "pval num (Suc n) s = Some (v, r)"
  obtains (JObj0) t where "skip_ws s = CHR ''{'' # t" "skip_ws t = CHR ''}'' # r" "v = JObj []"
    | (JObj) t d u ms where "skip_ws s = CHR ''{'' # t" "skip_ws t = d # u" "pmembers num n (d # u) = Some (ms, r)" "v = JObj (obj_of ms)"
    | (JArr0) t where "skip_ws s = CHR ''['' # t" "skip_ws t = CHR '']'' # r" "v = JArr []"
    | (JArr) t d u vs where "skip_ws s = CHR ''['' # t" "skip_ws t = d # u" "pelems num n (d # u) = Some (vs, r)" "v = JArr vs"
    | (JStr) t u where "skip_ws s = dquote # t" "pstr t = Some (u, r)" "v = JStr u"
    | (Word) c t w u where "skip_ws s = c # t" "w \<noteq> []" "u \<in> {JBool True, JBool False, JNull}" "plit (c # t) w u = Some (v, r)"
    | (Num) c t where "skip_ws s = c # t" "pnum num (c # t) = Some (v, r)"
proof -
  obtain c t where t: "skip_ws s = c # t" using assms by (auto split: list.splits)
  consider "c = CHR ''{''" | "c = CHR ''[''" | "c = dquote" | "c \<notin> {CHR ''{'', CHR ''['', dquote}" by blast
  then show thesis
  proof cases
    case 1
    then obtain d u where d: "skip_ws t = d # u" using assms t by (auto split: list.splits)
    show thesis using assms t d 1 that(1,2) by (cases "d = CHR ''}''") auto
  next
    case 2
    then obtain d u where d: "skip_ws t = d # u" using assms t by (auto split: list.splits)
    show thesis using assms t d 2 that(3,4) by (cases "d = CHR '']''") auto
  next
    case 3
    then show thesis using assms t that(5) by (auto simp: dquote_def)
  next
    case 4
    then have "plit (c # t) ''true'' (JBool True) = Some (v, r) \<or> plit (c # t) ''false'' (JBool False) = Some (v, r) \<or>
        plit (c # t) ''null'' JNull = Some (v, r) \<or> pnum num (c # t) = Some (v, r)"
      using assms t by (simp split: if_splits)
    then show thesis using that(6) [OF t, of "''true''"] that(6) [OF t, of "''false''"] that(6) [OF t, of "''null''"] that(7) [OF t] by blast
  qed
qed

lemma pelems_cases:
  assumes "pelems num (Suc n) s = Some (vs, r)"
  obtains (Last) v t where "pval num n s = Some (v, t)" "skip_ws t = CHR '']'' # r" "vs = [v]"
    | (Elem) v t u ws where "pval num n s = Some (v, t)" "skip_ws t = CHR '','' # u" "pelems num n u = Some (ws, r)" "vs = v # ws"
  using assms by (auto split: option.splits list.splits if_splits)

lemma pmembers_cases:
  assumes "pmembers num (Suc n) s = Some (ms, r)"
  obtains (LastMember) s1 k s2 s3 v t where "skip_ws s = dquote # s1" "pstr s1 = Some (k, s2)" "skip_ws s2 = CHR '':'' # s3"
      "pval num n s3 = Some (v, t)" "skip_ws t = CHR ''}'' # r" "ms = [(k, v)]"
    | (Member) s1 k s2 s3 v t u ns where "skip_ws s = dquote # s1" "pstr s1 = Some (k, s2)" "skip_ws s2 = CHR '':'' # s3"
      "pval num n s3 = Some (v, t)" "skip_ws t = CHR '','' # u" "pmembers num n u = Some (ns, r)" "ms = (k, v) # ns"
proof -
  obtain s1 where q: "skip_ws s = dquote # s1" using assms by (auto split: list.splits if_splits)
  then obtain k s2 where k: "pstr s1 = Some (k, s2)" using assms by (auto split: option.splits)
  then obtain s3 where c: "skip_ws s2 = CHR '':'' # s3" using assms q by (auto split: list.splits if_splits)
  then obtain v t where v: "pval num n s3 = Some (v, t)" using assms q k by (auto split: option.splits)
  then obtain d u where d: "skip_ws t = d # u" using assms q k c by (auto split: list.splits)
  from assms q k c v d show thesis using that by (cases "d = CHR '',''") (auto split: if_splits)
qed

text \<open>So a fact about every value read, whatever the fuel, is proved with this rule.\<close>

lemma parse_induct:
  assumes "\<And>s t r. skip_ws s = CHR ''{'' # t \<Longrightarrow> skip_ws t = CHR ''}'' # r \<Longrightarrow> P s (JObj []) r"
    and "\<And>s t d u ms r. skip_ws s = CHR ''{'' # t \<Longrightarrow> skip_ws t = d # u \<Longrightarrow> R (d # u) ms r \<Longrightarrow> P s (JObj (obj_of ms)) r"
    and "\<And>s t r. skip_ws s = CHR ''['' # t \<Longrightarrow> skip_ws t = CHR '']'' # r \<Longrightarrow> P s (JArr []) r"
    and "\<And>s t d u vs r. skip_ws s = CHR ''['' # t \<Longrightarrow> skip_ws t = d # u \<Longrightarrow> Q (d # u) vs r \<Longrightarrow> P s (JArr vs) r"
    and "\<And>s t u r. skip_ws s = dquote # t \<Longrightarrow> pstr t = Some (u, r) \<Longrightarrow> P s (JStr u) r"
    and "\<And>s c t w u v r. skip_ws s = c # t \<Longrightarrow> w \<noteq> [] \<Longrightarrow> u \<in> {JBool True, JBool False, JNull} \<Longrightarrow>
      plit (c # t) w u = Some (v, r) \<Longrightarrow> P s v r"
    and "\<And>s c t v r. skip_ws s = c # t \<Longrightarrow> pnum num (c # t) = Some (v, r) \<Longrightarrow> P s v r"
    and "\<And>s v t r. P s v t \<Longrightarrow> skip_ws t = CHR '']'' # r \<Longrightarrow> Q s [v] r"
    and "\<And>s v t u vs r. P s v t \<Longrightarrow> skip_ws t = CHR '','' # u \<Longrightarrow> Q u vs r \<Longrightarrow> Q s (v # vs) r"
    and "\<And>s s1 k s2 s3 v t r. skip_ws s = dquote # s1 \<Longrightarrow> pstr s1 = Some (k, s2) \<Longrightarrow> skip_ws s2 = CHR '':'' # s3 \<Longrightarrow>
      P s3 v t \<Longrightarrow> skip_ws t = CHR ''}'' # r \<Longrightarrow> R s [(k, v)] r"
    and "\<And>s s1 k s2 s3 v t u ms r. skip_ws s = dquote # s1 \<Longrightarrow> pstr s1 = Some (k, s2) \<Longrightarrow> skip_ws s2 = CHR '':'' # s3 \<Longrightarrow>
      P s3 v t \<Longrightarrow> skip_ws t = CHR '','' # u \<Longrightarrow> R u ms r \<Longrightarrow> R s ((k, v) # ms) r"
  shows "(\<forall>s v r. pval num n s = Some (v, r) \<longrightarrow> P s v r) \<and> (\<forall>s vs r. pelems num n s = Some (vs, r) \<longrightarrow> Q s vs r) \<and>
    (\<forall>s ms r. pmembers num n s = Some (ms, r) \<longrightarrow> R s ms r)"
proof (induction n)
  case (Suc n)
  note IH = Suc [THEN conjunct1, rule_format] Suc [THEN conjunct2, THEN conjunct1, rule_format] Suc [THEN conjunct2, THEN conjunct2, rule_format]
  have "P s v r" if "pval num (Suc n) s = Some (v, r)" for s v r
    using that
  proof (cases rule: pval_cases)
    case JObj0 then show ?thesis using assms(1) by simp
  next
    case JObj then show ?thesis using assms(2) [OF _ _ IH(3)] by simp
  next
    case JArr0 then show ?thesis using assms(3) by simp
  next
    case JArr then show ?thesis using assms(4) [OF _ _ IH(2)] by simp
  next
    case JStr then show ?thesis using assms(5) by simp
  next
    case Word then show ?thesis by (rule assms(6))
  next
    case Num then show ?thesis by (rule assms(7))
  qed
  moreover have "Q s vs r" if "pelems num (Suc n) s = Some (vs, r)" for s vs r
    using that
  proof (cases rule: pelems_cases)
    case Last then show ?thesis using assms(8) [OF IH(1)] by blast
  next
    case Elem then show ?thesis using assms(9) [OF IH(1) _ IH(2)] by blast
  qed
  moreover have "R s ms r" if "pmembers num (Suc n) s = Some (ms, r)" for s ms r
    using that
  proof (cases rule: pmembers_cases)
    case LastMember then show ?thesis using assms(10) [OF _ _ _ IH(1)] by blast
  next
    case Member then show ?thesis using assms(11) [OF _ _ _ IH(1) _ IH(3)] by blast
  qed
  ultimately show ?case by blast
qed simp

lemma parse_shorter:
  assumes "pval num n s = Some (v, r)"
  shows "length r < length s"
proof -
  have "(\<forall>s v r. pval num n s = Some (v, r) \<longrightarrow> length r < length s) \<and>
      (\<forall>s vs r. pelems num n s = Some (vs, r) \<longrightarrow> length r < length s) \<and>
      (\<forall>s ms r. pmembers num n s = Some (ms, r) \<longrightarrow> length r < length s)"
    by (rule parse_induct [where P = "\<lambda>s v r. length r < length s" and Q = "\<lambda>s vs r. length r < length s"
          and R = "\<lambda>s ms r. length r < length s"])
      ((drule skip_ws_le | drule pstr_shorter | drule pnum_length | drule (1) plit_length)+, simp)+
  with assms show ?thesis by blast
qed

lemma pmembers_stable:
  assumes "\<And>t. length t < length s \<Longrightarrow> pval num (Suc n) t = pval num n t"
    and "\<And>t. length t < length s \<Longrightarrow> pmembers num (Suc n) t = pmembers num n t"
  shows "pmembers num (Suc (Suc n)) s = pmembers num (Suc n) s"
proof -
  have l: "length s3 < length s" if "skip_ws s = q # s1" "pstr s1 = Some (k, s2)" "skip_ws s2 = c # s3" for q s1 k s2 c s3
    using skip_ws_Cons_length [OF that(1)] pstr_shorter [OF that(2)] skip_ws_Cons_length [OF that(3)] by simp
  show ?thesis
  proof (cases "\<exists>q s1 k s2 c s3. skip_ws s = q # s1 \<and> q = dquote \<and> pstr s1 = Some (k, s2) \<and> skip_ws s2 = c # s3 \<and> c = CHR '':''")
    case False
    then consider "skip_ws s = []" | q s1 where "skip_ws s = q # s1" "q \<noteq> dquote"
      | s1 where "skip_ws s = dquote # s1" "pstr s1 = None"
      | s1 k s2 where "skip_ws s = dquote # s1" "pstr s1 = Some (k, s2)" "skip_ws s2 = []"
      | s1 k s2 c s3 where "skip_ws s = dquote # s1" "pstr s1 = Some (k, s2)" "skip_ws s2 = c # s3" "c \<noteq> CHR '':''"
      by (metis list.exhaust not_None_eq surj_pair)
    then show ?thesis
      by cases (simp_all only: pmembers.simps(2) [of num "Suc n" s] pmembers.simps(2) [of num n s] list.case option.case prod.case if_True if_False simp_thms)
  next
    case True
    then obtain s1 k s2 s3 where e: "skip_ws s = dquote # s1" "pstr s1 = Some (k, s2)" "skip_ws s2 = CHR '':'' # s3"
      by blast
    have v: "pval num (Suc n) s3 = pval num n s3" using assms(1) l [OF e] by simp
    show ?thesis
    proof (cases "\<exists>v1 r1 d r2. pval num n s3 = Some (v1, r1) \<and> skip_ws r1 = d # r2")
      case False
      then consider "pval num n s3 = None" | v1 r1 where "pval num n s3 = Some (v1, r1)" "skip_ws r1 = []"
        by (metis list.exhaust not_None_eq surj_pair)
      then show ?thesis using e v
        by cases (simp_all only: pmembers.simps(2) [of num "Suc n" s] pmembers.simps(2) [of num n s] list.case option.case prod.case)
    next
      case True
      then obtain v1 r1 d r2 where w: "pval num n s3 = Some (v1, r1)" "skip_ws r1 = d # r2" by blast
      have "pmembers num (Suc n) r2 = pmembers num n r2"
        using assms(2) l [OF e] parse_shorter [OF w(1)] skip_ws_Cons_length [OF w(2)] by simp
      then show ?thesis using e v w
        by (simp only: pmembers.simps(2) [of num "Suc n" s] pmembers.simps(2) [of num n s] list.case option.case prod.case)
    qed
  qed
qed

lemma parse_stable:
  "2 * length s < n \<longrightarrow> pval num (Suc n) s = pval num n s"
  "2 * length s + 1 < n \<longrightarrow> pelems num (Suc n) s = pelems num n s"
  "2 * length s + 1 < n \<longrightarrow> pmembers num (Suc n) s = pmembers num n s"
proof (induction n arbitrary: s)
  case (Suc n)
  {
    case 1
    show ?case
    proof
      assume n: "2 * length s < Suc n"
      have "skip_ws t = d # r2 \<Longrightarrow> skip_ws s = c # t \<Longrightarrow> 2 * length (d # r2) + 1 < n" for c t d r2
        using skip_ws_Cons_length [of s c t] skip_ws_length [of t] n by simp
      then have "skip_ws t = d # r2 \<Longrightarrow> skip_ws s = c # t \<Longrightarrow>
          pelems num (Suc n) (d # r2) = pelems num n (d # r2) \<and>
          pmembers num (Suc n) (d # r2) = pmembers num n (d # r2)" for c t d r2
        using Suc.IH by blast
      then show "pval num (Suc (Suc n)) s = pval num (Suc n) s"
        by (simp only: pval.simps cong: list.case_cong option.case_cong if_cong)
    qed
  next
    case 2
    show ?case
    proof
      assume n: "2 * length s + 1 < Suc n"
      have v: "pval num (Suc n) s = pval num n s" using Suc.IH(1) n by simp
      have "pval num n s = Some (v1, r1) \<Longrightarrow> skip_ws r1 = c # r2 \<Longrightarrow>
          pelems num (Suc n) r2 = pelems num n r2" for v1 r1 c r2
        using Suc.IH(2) [of r2] n parse_shorter [of num n s v1 r1] skip_ws_Cons_length [of r1 c r2] by simp
      with v show "pelems num (Suc (Suc n)) s = pelems num (Suc n) s"
        by (simp only: pelems.simps(2) [of num "Suc n"] pelems.simps(2) [of num n] v) (auto split: list.splits option.splits)
    qed
  next
    case 3
    show ?case
    proof
      assume n: "2 * length s + 1 < Suc n"
      show "pmembers num (Suc (Suc n)) s = pmembers num (Suc n) s"
        by (rule pmembers_stable) (use Suc.IH(1,3) n in simp_all)
    qed
  }
qed simp_all

lemma pval_stable: "parse_fuel s \<le> n \<Longrightarrow> pval num n s = pval num (parse_fuel s) s"
proof (induction n)
  case (Suc n)
  show ?case
  proof (cases "parse_fuel s \<le> n")
    case True
    then have "2 * length s < n" by (simp add: parse_fuel_def)
    with parse_stable(1) Suc.IH True show ?thesis by metis
  next
    case False
    with Suc.prems have "parse_fuel s = Suc n" by simp
    then show ?thesis by simp
  qed
qed (simp add: parse_fuel_def)

end
