(* ===== verification/Canonical_Json.thy ===== *)
theory Canonical_Json
  imports Json_Value
begin

text \<open>
  \<open>canonicalJSON\<close> and \<open>writeCanonical\<close> of \<open>src/idempotency/store.go\<close>: the rendering of a JSON
  document with sorted keys that request and approval digests cover. \<open>pval_write\<close> reads the
  rendering back, so that two bodies have the same canonical form only when they mean the same.
\<close>

section \<open>The writer\<close>

fun write_canonical :: "json \<Rightarrow> string"
  and canonical_items :: "json list \<Rightarrow> string list"
  and canonical_members :: "(string \<times> json) list \<Rightarrow> (string \<times> string) list"
where
  "write_canonical JNull = ''null''"
| "write_canonical (JBool b) = (if b then ''true'' else ''false'')"
| "write_canonical (JNum l) = l"
| "write_canonical (JStr s) = json_quote s"
| "write_canonical (JArr vs) = ''['' @ join_with '','' (canonical_items vs) @ '']''"
| "write_canonical (JObj ms) = ''{'' @ join_with '',''
     (map (\<lambda>(k, t). json_quote k @ '':'' @ t) (sort_key fst (canonical_members ms))) @ ''}''"
| "canonical_items [] = []"
| "canonical_items (v # vs) = write_canonical v # canonical_items vs"
| "canonical_members [] = []"
| "canonical_members ((k, v) # ms) = (k, write_canonical v) # canonical_members ms"

definition canonical_json :: "(string \<Rightarrow> string option) \<Rightarrow> string \<Rightarrow> string" where
  "canonical_json num body =
     (let trimmed = trim_space body
      in if trimmed = [] then []
         else case unmarshal num trimmed of None \<Rightarrow> trimmed | Some v \<Rightarrow> write_canonical v)"

text \<open>What a document means: the order of the members of an object does not matter.\<close>

fun norm :: "json \<Rightarrow> json"
  and norm_items :: "json list \<Rightarrow> json list"
  and norm_members :: "(string \<times> json) list \<Rightarrow> (string \<times> json) list"
where
  "norm (JArr vs) = JArr (norm_items vs)"
| "norm (JObj ms) = JObj (sort_key fst (norm_members ms))"
| "norm v = v"
| "norm_items [] = []"
| "norm_items (v # vs) = norm v # norm_items vs"
| "norm_members [] = []"
| "norm_members ((k, v) # ms) = (k, norm v) # norm_members ms"

text \<open>The values \<open>unmarshal\<close> returns: valid UTF-8, distinct keys, numbers as the encoder prints them.\<close>

fun good :: "(string \<Rightarrow> string option) \<Rightarrow> json \<Rightarrow> bool"
  and good_items :: "(string \<Rightarrow> string option) \<Rightarrow> json list \<Rightarrow> bool"
  and good_members :: "(string \<Rightarrow> string option) \<Rightarrow> (string \<times> json) list \<Rightarrow> bool"
where
  "good num (JNum l) = (scan_number l = Some [] \<and> num l = Some l)"
| "good num (JStr s) = utf8_ok s"
| "good num (JArr vs) = good_items num vs"
| "good num (JObj ms) = (distinct (map fst ms) \<and> good_members num ms)"
| "good num v = True"
| "good_items num [] = True"
| "good_items num (v # vs) = (good num v \<and> good_items num vs)"
| "good_members num [] = True"
| "good_members num ((k, v) # ms) = (utf8_ok k \<and> good num v \<and> good_members num ms)"

text \<open>What the library's number conversion promises: it prints a number literal that it reads back as
  the same text.\<close>

definition number_codec :: "(string \<Rightarrow> string option) \<Rightarrow> bool" where
  "number_codec num \<longleftrightarrow> (\<forall>l t. num l = Some t \<longrightarrow> scan_number t = Some [] \<and> num t = Some t)"

section \<open>The written form as lists\<close>

lemma canonical_items_map: "canonical_items vs = map write_canonical vs"
  by (induction vs) auto

lemma canonical_members_map: "canonical_members ms = map (\<lambda>(k, v). (k, write_canonical v)) ms"
  by (induction ms) auto

lemma norm_items_map: "norm_items vs = map norm vs"
  by (induction vs) auto

lemma norm_members_map: "norm_members ms = map (\<lambda>(k, v). (k, norm v)) ms"
  by (induction ms) auto

lemma good_items_list: "good_items num vs \<longleftrightarrow> (\<forall>v \<in> set vs. good num v)"
  by (induction vs) auto

lemma good_members_list: "good_members num ms \<longleftrightarrow> (\<forall>(k, v) \<in> set ms. utf8_ok k \<and> good num v)"
  by (induction ms) auto

lemma insort_map_snd:
  "insort_key fst (k, g v) (map (\<lambda>(k, v). (k, g v)) ms) = map (\<lambda>(k, v). (k, g v)) (insort_key fst (k, v) ms)"
  by (induction ms) auto

lemma sort_map_snd: "sort_key fst (map (\<lambda>(k, v). (k, g v)) ms) = map (\<lambda>(k, v). (k, g v)) (sort_key fst ms)"
  by (induction ms) (auto simp: insort_map_snd)

lemma fst_map_snd [simp]: "map fst (map (\<lambda>(k, v). (k, g v)) ms) = map fst ms"
  by (induction ms) auto

definition write_member :: "string \<times> json \<Rightarrow> string" where
  "write_member p = json_quote (fst p) @ '':'' @ write_canonical (snd p)"

lemma write_JObj: "write_canonical (JObj ms) =
    ''{'' @ join_with '','' (map write_member (sort_key fst ms)) @ ''}''"
proof -
  have "map (\<lambda>(k, t). json_quote k @ '':'' @ t) (map (\<lambda>(k, v). (k, write_canonical v)) ps) = map write_member ps" for ps
    by (auto simp: write_member_def)
  then show ?thesis by (simp only: write_canonical.simps canonical_members_map sort_map_snd)
qed

lemma write_JArr: "write_canonical (JArr vs) = ''['' @ join_with '','' (map write_canonical vs) @ '']''"
  by (simp add: canonical_items_map)

lemma norm_JObj: "norm (JObj ms) = JObj (map (\<lambda>(k, v). (k, norm v)) (sort_key fst ms))"
  by (simp add: norm_members_map sort_map_snd)

declare write_canonical.simps(5,6) [simp del] norm.simps(2) [simp del]

text \<open>The rendering depends only on the meaning.\<close>

lemma write_norm: "write_canonical (norm v) = write_canonical v"
  "canonical_items (norm_items vs) = canonical_items vs"
  "canonical_members (norm_members ms) = canonical_members ms"
proof (induction v and vs and ms rule: norm_norm_items_norm_members.induct)
  case (2 ms)
  have "sort_key fst (canonical_members (sort_key fst (norm_members ms))) = sort_key fst (canonical_members (norm_members ms))"
    by (simp add: canonical_members_map sort_map_snd sort_key_id_if_sorted)
  with 2 show ?case by (simp only: norm.simps(2) write_canonical.simps(6))
qed (simp_all add: write_canonical.simps(5))

section \<open>Reading the rendering back\<close>

definition delim :: "string \<Rightarrow> bool" where
  "delim t \<longleftrightarrow> (case t of [] \<Rightarrow> True | c # _ \<Rightarrow> c \<in> {CHR '','', CHR '']'', CHR ''}''})"

lemma delim_simps [simp]:
  "delim []" "delim (CHR '','' # t)" "delim (CHR '']'' # t)" "delim (CHR ''}'' # t)"
  by (simp_all add: delim_def)

lemma delim_cases:
  assumes "delim t"
  obtains "t = []" | r where "t = CHR '','' # r" | r where "t = CHR '']'' # r" | r where "t = CHR ''}'' # r"
  using assms by (cases t) (auto simp: delim_def)

lemma drop_digits_delim: "delim t \<Longrightarrow> dropWhile digit (s @ t) = dropWhile digit s @ t"
proof -
  assume "delim t"
  then have "dropWhile digit t = t" by (rule delim_cases) (simp_all add: digit_def byte_val_def)
  then show ?thesis by (induction s) auto
qed

lemma digits1_delim: "digits1 s = Some r \<Longrightarrow> delim t \<Longrightarrow> digits1 (s @ t) = Some (r @ t)"
  by (cases s) (auto simp: digits1_def drop_digits_delim split: if_splits)

lemma scan_number_delim:
  assumes "scan_number s = Some r" and "delim t"
  shows "scan_number (s @ t) = Some (r @ t)"
proof -
  from assms(1) obtain u w where i: "scan_int (scan_sign s) = Some u" and f: "scan_frac u = Some w"
    and e: "scan_exp w = Some r" by (auto simp: scan_number_def bind_eq_Some_conv)
  have "scan_sign (s @ t) = scan_sign s @ t" using i by (cases s) (auto simp: scan_sign_def scan_int_def)
  moreover have "scan_int (scan_sign s @ t) = Some (u @ t)"
    using i assms(2) by (cases "scan_sign s") (auto simp: scan_int_def digits1_delim split: if_splits dest: digits1_delim)
  moreover have "scan_frac (u @ t) = Some (w @ t)"
  proof (cases u)
    case Nil
    with f have "w = []" by (simp add: scan_frac_def)
    with Nil assms(2) show ?thesis by (auto simp: scan_frac_def elim: delim_cases)
  next
    case (Cons c u')
    with f assms(2) show ?thesis by (auto simp: scan_frac_def digits1_delim split: if_splits)
  qed
  moreover have "scan_exp (w @ t) = Some (r @ t)"
  proof (cases w)
    case Nil
    with e have "r = []" by (simp add: scan_exp_def)
    with Nil assms(2) show ?thesis by (auto simp: scan_exp_def elim: delim_cases)
  next
    case (Cons c w')
    with e assms(2) show ?thesis
      by (cases w') (auto simp: scan_exp_def digits1_delim split: if_splits dest: digits1_delim)
  qed
  ultimately show ?thesis by (simp add: scan_number_def)
qed

lemma scan_number_first:
  assumes "scan_number s = Some r"
  obtains c s' where "s = c # s'" "c = CHR ''-'' \<or> digit c"
proof -
  from assms obtain u where i: "scan_int (scan_sign s) = Some u" by (auto simp: scan_number_def bind_eq_Some_conv)
  then obtain c s' where s: "s = c # s'" by (cases s) (auto simp: scan_sign_def scan_int_def)
  have "c = CHR ''-'' \<or> digit c"
  proof (cases "c = CHR ''-''")
    case False
    with i s show ?thesis
      by (auto simp: scan_sign_def scan_int_def digits1_def digit_def byte_val_def split: if_splits)
  qed simp
  with s that show thesis by blast
qed


definition opens_value :: "char \<Rightarrow> bool" where
  "opens_value c \<longleftrightarrow> \<not> json_ws c \<and> c \<noteq> CHR '']'' \<and> c \<noteq> CHR ''}''"

lemma write_first:
  assumes "good num v"
  obtains c s where "write_canonical v = c # s" "opens_value c"
proof (cases v)
  case (JNum l)
  with assms have "scan_number l = Some []" by simp
  then obtain c s' where "l = c # s'" "c = CHR ''-'' \<or> digit c" by (rule scan_number_first)
  moreover from this(2) have "opens_value c"
    by (auto simp: opens_value_def json_ws_def digit_def byte_val_def)
  ultimately show ?thesis using JNum that by simp
next
  case (JBool b)
  with that [of "if b then CHR ''t'' else CHR ''f''" "if b then ''rue'' else ''alse''"] show ?thesis
    by (simp add: opens_value_def json_ws_def byte_val_def)
qed (use that in \<open>auto simp: opens_value_def json_ws_def byte_val_def json_quote_def dquote_def
    write_JArr write_JObj split: if_splits\<close>)

lemma skip_ws_id [simp]: "\<not> json_ws c \<Longrightarrow> skip_ws (c # s) = c # s"
  by (simp add: skip_ws_def)

lemma skip_ws_punct [simp]:
  "skip_ws (CHR '','' # s) = CHR '','' # s" "skip_ws (CHR '':'' # s) = CHR '':'' # s"
  "skip_ws (CHR '']'' # s) = CHR '']'' # s" "skip_ws (CHR ''}'' # s) = CHR ''}'' # s"
  "skip_ws (CHR ''['' # s) = CHR ''['' # s" "skip_ws (CHR ''{'' # s) = CHR ''{'' # s"
  "skip_ws (dquote # s) = dquote # s" "skip_ws [] = []"
  by (simp_all add: skip_ws_def json_ws_def byte_val_def dquote_def)

lemma skip_ws_write:
  "good num v \<Longrightarrow> skip_ws (write_canonical v @ t) = write_canonical v @ t"
  by (erule write_first) (simp add: opens_value_def)

definition reads_back :: "(string \<Rightarrow> string option) \<Rightarrow> json \<Rightarrow> bool" where
  "reads_back num v \<longleftrightarrow> (\<forall>n t. delim t \<longrightarrow> 2 * length (write_canonical v @ t) < n \<longrightarrow>
     pval num n (write_canonical v @ t) = Some (norm v, t))"

lemma reads_backD:
  "reads_back num v \<Longrightarrow> delim t \<Longrightarrow> 2 * length (write_canonical v @ t) < n \<Longrightarrow>
     pval num n (write_canonical v @ t) = Some (norm v, t)"
  by (simp add: reads_back_def)

lemma pelems_write:
  assumes "vs \<noteq> []" and "\<forall>v \<in> set vs. reads_back num v"
    and "2 * length (join_with '','' (map write_canonical vs) @ '']'' @ t) + 1 < n"
  shows "pelems num n (join_with '','' (map write_canonical vs) @ '']'' @ t) = Some (map norm vs, t)"
  using assms
proof (induction vs arbitrary: n)
  case Nil
  then show ?case by simp
next
  case (Cons v vs)
  obtain m where n: "n = Suc m" using Cons.prems(3) by (cases n) auto
  have v: "reads_back num v" using Cons.prems by simp
  show ?case
  proof (cases vs)
    case Nil
    have "pval num m (write_canonical v @ '']'' @ t) = Some (norm v, '']'' @ t)"
      using reads_backD [OF v, of "'']'' @ t" m] Cons.prems(3) Nil n by simp
    with Nil n show ?thesis by simp
  next
    case (Cons w ws)
    let ?r = "join_with '','' (map write_canonical vs) @ '']'' @ t"
    have j: "join_with '','' (map write_canonical (v # vs)) @ '']'' @ t = write_canonical v @ CHR '','' # ?r"
      using Cons by simp
    have l: "2 * length (write_canonical v @ CHR '','' # ?r) < m" "2 * length ?r + 1 < m"
      using Cons.prems(3) n unfolding j by simp_all
    have "pval num m (write_canonical v @ CHR '','' # ?r) = Some (norm v, CHR '','' # ?r)"
      using reads_backD [OF v _ l(1)] by simp
    moreover have "pelems num m ?r = Some (map norm vs, t)"
      using Cons.IH [of m] Cons.prems(2) l(2) Cons by simp
    ultimately show ?thesis unfolding j n by simp
  qed
qed

lemma pmembers_write:
  assumes "ps \<noteq> []" and "\<forall>(k, v) \<in> set ps. utf8_ok k \<and> good num v \<and> reads_back num v"
    and "2 * length (join_with '','' (map write_member ps) @ ''}'' @ t) + 1 < n"
  shows "pmembers num n (join_with '','' (map write_member ps) @ ''}'' @ t)
    = Some (map (\<lambda>(k, v). (k, norm v)) ps, t)"
  using assms
proof (induction ps arbitrary: n)
  case Nil
  then show ?case by simp
next
  case (Cons p ps)
  obtain k v where p: "p = (k, v)" by (cases p)
  obtain m where n: "n = Suc m" using Cons.prems(3) by (cases n) auto
  have k: "utf8_ok k" and v: "reads_back num v" using Cons.prems p by auto
  have wm: "write_member p @ u = dquote # escape_body k @ dquote # CHR '':'' # write_canonical v @ u" for u
    by (simp add: write_member_def p json_quote_def)
  show ?case
  proof (cases ps)
    case Nil
    have j: "join_with '','' (map write_member (p # ps)) @ ''}'' @ t = write_member p @ CHR ''}'' # t"
      using Nil by simp
    have "pval num m (write_canonical v @ CHR ''}'' # t) = Some (norm v, CHR ''}'' # t)"
      using reads_backD [OF v, of "CHR ''}'' # t" m] Cons.prems(3) Nil n
      unfolding j wm by simp
    with n Nil p pstr_escape [OF k] show ?thesis unfolding j wm
      by simp
  next
    case (Cons q qs)
    let ?r = "join_with '','' (map write_member ps) @ ''}'' @ t"
    have j: "join_with '','' (map write_member (p # ps)) @ ''}'' @ t = write_member p @ CHR '','' # ?r"
      using Cons by simp
    have l: "2 * length (write_canonical v @ CHR '','' # ?r) < m" "2 * length ?r + 1 < m"
      using Cons.prems(3) n unfolding j wm by simp_all
    have "pval num m (write_canonical v @ CHR '','' # ?r) = Some (norm v, CHR '','' # ?r)"
      using reads_backD [OF v _ l(1)] by simp
    moreover have "pmembers num m ?r = Some (map (\<lambda>(k, v). (k, norm v)) ps, t)"
      using Cons.IH [of m] Cons.prems(2) l(2) Cons by simp
    ultimately show ?thesis using p pstr_escape [OF k] unfolding j wm n
      by simp
  qed
qed

lemma obj_put_new: "k \<notin> set (map fst m) \<Longrightarrow> obj_put k v m = m @ [(k, v)]"
  by (induction m) auto

lemma obj_of_distinct: "distinct (map fst ms) \<Longrightarrow> obj_of ms = ms"
proof -
  have "distinct (map fst (acc @ ms)) \<Longrightarrow> fold (\<lambda>(k, v) m. obj_put k v m) ms acc = acc @ ms" for acc
    by (induction ms arbitrary: acc) (auto simp: obj_put_new)
  from this [of "[]"] show "distinct (map fst ms) \<Longrightarrow> obj_of ms = ms" by (simp add: obj_of_def)
qed

lemma join_with_first:
  "ws \<noteq> [] \<Longrightarrow> hd ws = c # s \<Longrightarrow> \<exists>r. join_with sep ws = c # r"
  by (cases ws rule: remdups_adj.cases) auto

lemma reads_back_scalar:
  assumes "good num v" and "\<forall>vs. v \<noteq> JArr vs" and "\<forall>ms. v \<noteq> JObj ms"
  shows "reads_back num v"
  unfolding reads_back_def
proof (intro allI impI)
  fix n t
  assume t: "delim t" and n: "2 * length (write_canonical v @ t) < n"
  then obtain m where m: "n = Suc m" by (cases n) auto
  show "pval num n (write_canonical v @ t) = Some (norm v, t)"
  proof (cases v)
    case (JNum l)
    with assms have l: "scan_number l = Some []" "num l = Some l" by simp_all
    from l(1) obtain c s' where c: "l = c # s'" "c = CHR ''-'' \<or> digit c" by (rule scan_number_first)
    have "scan_number (l @ t) = Some t" using scan_number_delim [OF l(1) t] by simp
    then have "pnum num (l @ t) = Some (JNum l, t)" using l(2) by (simp add: pnum_def)
    moreover have "\<not> json_ws c" "c \<notin> {CHR ''{'', CHR ''['', dquote, CHR ''t'', CHR ''f'', CHR ''n''}"
      using c(2) by (auto simp: json_ws_def digit_def byte_val_def dquote_def)
    ultimately show ?thesis using JNum c(1) m by (simp add: dquote_def)
  next
    case (JStr s)
    with assms pstr_escape [of s t] m show ?thesis
      by (simp add: json_quote_def) (simp add: dquote_def)
  qed (use assms m in \<open>auto simp: plit_def json_ws_def byte_val_def dquote_def\<close>)
qed

lemma reads_back_JArr:
  assumes g: "\<forall>v \<in> set vs. good num v" "\<forall>v \<in> set vs. reads_back num v"
  shows "reads_back num (JArr vs)"
proof -
  show ?thesis unfolding reads_back_def
  proof (intro allI impI)
    fix n t
    assume t: "delim t" and n: "2 * length (write_canonical (JArr vs) @ t) < n"
    then obtain m where m: "n = Suc m" by (cases n) auto
    show "pval num n (write_canonical (JArr vs) @ t) = Some (norm (JArr vs), t)"
    proof (cases vs)
      case Nil
      with m show ?thesis by (simp add: write_JArr)
    next
      case (Cons v ws)
      obtain c s where "write_canonical v = c # s" and c: "opens_value c"
        using write_first [of num v] g(1) Cons by auto
      then obtain r where r: "join_with '','' (map write_canonical vs) = c # r"
        using join_with_first [of "map write_canonical vs" c s] Cons by auto
      have "pelems num m (c # r @ '']'' @ t) = Some (map norm vs, t)"
        using pelems_write [OF _ g(2), of t m] Cons n m r by (simp add: write_JArr)
      with c m r show ?thesis by (simp add: write_JArr norm_items_map opens_value_def)
    qed
  qed
qed

lemma reads_back_JObj:
  assumes g: "\<forall>(k, v) \<in> set (sort_key fst ms). utf8_ok k \<and> good num v \<and> reads_back num v"
    and d: "distinct (map fst (sort_key fst ms))"
  shows "reads_back num (JObj ms)"
proof -
  let ?ps = "sort_key fst ms"
  show ?thesis unfolding reads_back_def
  proof (intro allI impI)
    fix n t
    assume t: "delim t" and n: "2 * length (write_canonical (JObj ms) @ t) < n"
    then obtain m where m: "n = Suc m" by (cases n) auto
    show "pval num n (write_canonical (JObj ms) @ t) = Some (norm (JObj ms), t)"
    proof (cases ?ps)
      case Nil
      with m show ?thesis by (simp add: write_JObj norm_JObj dquote_def)
    next
      case (Cons p ps)
      then have "hd (map write_member ?ps) = dquote # tl (write_member p)"
        by (simp add: write_member_def json_quote_def)
      then obtain r where r: "join_with '','' (map write_member ?ps) = dquote # r"
        using join_with_first [of "map write_member ?ps" dquote] Cons by (metis list.distinct(1) list.simps(9))
      have "pmembers num m (dquote # r @ ''}'' @ t) = Some (map (\<lambda>(k, v). (k, norm v)) ?ps, t)"
        using pmembers_write [OF _ g, of t m] Cons n m r by (simp add: write_JObj)
      moreover have "obj_of (map (\<lambda>(k, v). (k, norm v)) ?ps) = map (\<lambda>(k, v). (k, norm v)) ?ps"
        using d by (intro obj_of_distinct) (simp only: fst_map_snd)
      moreover have "dquote \<noteq> CHR ''}''" by (simp add: dquote_def)
      ultimately show ?thesis using m r by (simp add: write_JObj norm_JObj)
    qed
  qed
qed

lemma read_back_size:
  "good num v \<Longrightarrow> reads_back num v"
  "good_items num vs \<Longrightarrow> \<forall>v \<in> set vs. reads_back num v"
  "good_members num ms \<Longrightarrow> \<forall>(k, v) \<in> set ms. reads_back num v"
proof (induction v and vs and ms rule: norm_norm_items_norm_members.induct)
  case (1 vs)
  then show ?case by (intro reads_back_JArr) (simp_all add: good_items_list)
next
  case (2 ms)
  then show ?case by (intro reads_back_JObj) (auto simp: good_members_list distinct_map sort_key_stable)
qed (auto intro: reads_back_scalar)

theorem unmarshal_write: "good num v \<Longrightarrow> unmarshal num (write_canonical v) = Some (norm v)"
  using reads_backD [OF read_back_size(1), of num v "[]" "parse_fuel (write_canonical v)"]
  by (simp add: unmarshal_def parse_fuel_def)


section \<open>Parsed values are printable\<close>

lemma obj_put_keys: "set (map fst (obj_put k v m)) = insert k (set (map fst m))"
  by (induction k v m rule: obj_put.induct) auto

lemma obj_put_good:
  "distinct (map fst m) \<Longrightarrow> good_members num m \<Longrightarrow> utf8_ok k \<Longrightarrow> good num v \<Longrightarrow>
    distinct (map fst (obj_put k v m)) \<and> good_members num (obj_put k v m)"
proof (induction k v m rule: obj_put.induct)
  case (2 k v l w m)
  then show ?case using obj_put_keys [of k v m] by auto
qed simp

lemma obj_of_good:
  assumes "good_members num ms"
  shows "distinct (map fst (obj_of ms)) \<and> good_members num (obj_of ms)"
proof -
  have "distinct (map fst acc) \<Longrightarrow> good_members num acc \<Longrightarrow>
      distinct (map fst (fold (\<lambda>(k, v) m. obj_put k v m) ms acc)) \<and>
      good_members num (fold (\<lambda>(k, v) m. obj_put k v m) ms acc)" for acc
    using assms
  proof (induction ms arbitrary: acc)
    case (Cons p ms)
    obtain k v where p: "p = (k, v)" by (cases p)
    with Cons obj_put_good [of acc num k v] show ?case by simp
  qed simp
  then show ?thesis by (simp add: obj_of_def)
qed

lemma pnum_good: "number_codec num \<Longrightarrow> pnum num s = Some (v, r) \<Longrightarrow> good num v"
  by (auto simp: pnum_def bind_eq_Some_conv number_codec_def)

lemma plit_value: "plit s w u = Some (v, r) \<Longrightarrow> v = u"
  by (simp add: plit_def split: if_splits)

lemma parse_good:
  assumes "number_codec num" and "pval num n s = Some (v, r)"
  shows "good num v"
proof -
  have "(\<forall>s v r. pval num n s = Some (v, r) \<longrightarrow> good num v) \<and> (\<forall>s vs r. pelems num n s = Some (vs, r) \<longrightarrow> good_items num vs) \<and>
      (\<forall>s ms r. pmembers num n s = Some (ms, r) \<longrightarrow> good_members num ms)"
    by (rule parse_induct) (use assms(1) in \<open>auto simp: obj_of_good pstr_utf8 dest: plit_value pnum_good\<close>)
  with assms(2) show ?thesis by blast
qed

lemma unmarshal_good: "number_codec num \<Longrightarrow> unmarshal num s = Some v \<Longrightarrow> good num v"
  by (auto simp: unmarshal_def split: option.splits if_splits dest: parse_good)

section \<open>Bodies that mean the same\<close>

definition same_meaning :: "(string \<Rightarrow> string option) \<Rightarrow> string \<Rightarrow> string \<Rightarrow> bool" where
  "same_meaning num b c =
     (case (unmarshal num (trim_space b), unmarshal num (trim_space c)) of
        (Some v, Some w) \<Rightarrow> norm v = norm w
      | (None, None) \<Rightarrow> trim_space b = trim_space c
      | _ \<Rightarrow> False)"

lemma canonical_json_cases:
  "canonical_json num b = (case unmarshal num (trim_space b) of None \<Rightarrow> trim_space b | Some v \<Rightarrow> write_canonical v)"
  by (simp add: canonical_json_def Let_def)

lemma canonical_equal_iff:
  assumes "number_codec num"
  shows "canonical_json num b = canonical_json num c \<longleftrightarrow> same_meaning num b c"
proof -
  have inj: "write_canonical v = write_canonical w \<longleftrightarrow> norm v = norm w"
    if "unmarshal num s = Some v" "unmarshal num t = Some w" for s t v w
    using unmarshal_write [OF unmarshal_good [OF assms that(1)]]
      unmarshal_write [OF unmarshal_good [OF assms that(2)]] write_norm(1) [of v] write_norm(1) [of w]
    by (metis option.inject)
  have apart: "write_canonical v \<noteq> t" if "unmarshal num s = Some v" "unmarshal num t = None" for s t v
    using unmarshal_write [OF unmarshal_good [OF assms that(1)]] that(2) by auto
  show ?thesis
    using inj apart apart [symmetric] unfolding canonical_json_cases same_meaning_def
    by (cases "unmarshal num (trim_space b)"; cases "unmarshal num (trim_space c)") simp_all
qed

end
