(* ===== verification/Ids.thy ===== *)
theory Ids
  imports Canonical_Json
begin

text \<open>
  \<open>src/ids/ids.go\<close>: the identifier type and its three representations: the 26 character text of
  the transport boundary, the \<open>BINARY(16)\<close> column, and JSON. The ULID library (generation, and the
  text codec \<open>ulid.ParseStrict\<close> and \<open>String\<close>) is the argument \<open>uc\<close>; what it promises is
  \<open>ulid_laws\<close>. Generation is modelled by handing the operation the identifier it draws.

  The locale \<open>sql_column\<close> is the contract between a \<open>driver.Valuer\<close> and its \<open>sql.Scanner\<close>; it is
  interpreted on \<open>ID\<close> and on \<open>Opt\<close>, and the tables of the other packages use it.
\<close>

section \<open>The type\<close>

typedef ID = "{b :: string. length b = 16}" morphisms id_bytes Abs_ID
  by (rule exI [of _ "replicate 16 (CHR 0x00)"]) simp

setup_lifting type_definition_ID

text \<open>\<open>copy (id[:], b)\<close> into a fresh array.\<close>

lift_definition copy_id :: "string \<Rightarrow> ID" is
  "\<lambda>b. take 16 (b @ replicate 16 (CHR 0x00))" by simp

lift_definition nil_id :: ID is "replicate 16 (CHR 0x00)" by simp

lemma length_id_bytes [simp]: "length (id_bytes i) = 16"
  using id_bytes [of i] by simp

lemma id_bytes_copy [simp]: "id_bytes (copy_id b) = take 16 (b @ replicate 16 (CHR 0x00))"
  by (simp add: copy_id.rep_eq)

lemma id_bytes_nil [simp]: "id_bytes nil_id = replicate 16 (CHR 0x00)"
  by (simp add: nil_id.rep_eq)

lemma copy_id_bytes [simp]: "copy_id (id_bytes i) = i"
  by (simp add: id_bytes_inject [symmetric])

lemma id_eq_iff: "i = j \<longleftrightarrow> id_bytes i = id_bytes j"
  by (simp add: id_bytes_inject)

text \<open>Identifiers are compared bytewise; the library's orders and sets apply to them.\<close>

instantiation ID :: equal
begin
definition equal_ID :: "ID \<Rightarrow> ID \<Rightarrow> bool" where
  "equal_ID i j = (id_bytes i = id_bytes j)"
instance by standard (simp add: equal_ID_def id_bytes_inject)
end

instantiation ID :: linorder
begin
definition less_eq_ID :: "ID \<Rightarrow> ID \<Rightarrow> bool" where
  "less_eq_ID i j \<longleftrightarrow> id_bytes i \<le> id_bytes j"
definition less_ID :: "ID \<Rightarrow> ID \<Rightarrow> bool" where
  "less_ID i j \<longleftrightarrow> id_bytes i < id_bytes j"
instance by standard (auto simp: less_eq_ID_def less_ID_def id_bytes_inject less_le)
end

instantiation ID :: size
begin
definition size_ID :: "ID \<Rightarrow> nat" where "size_ID i = length (id_bytes i)"
instance ..
end

section \<open>Text and bytes\<close>

record ulid_codec =
  uc_parse :: "string \<Rightarrow> string option"
  uc_show :: "string \<Rightarrow> string"

definition plain_char :: "char \<Rightarrow> bool" where
  "plain_char c \<longleftrightarrow> (48 \<le> byte_val c \<and> byte_val c \<le> 57) \<or> (65 \<le> byte_val c \<and> byte_val c \<le> 90)"

definition ulid_laws :: "ulid_codec \<Rightarrow> bool" where
  "ulid_laws uc \<longleftrightarrow>
     (\<forall>b. length b = 16 \<longrightarrow> uc_parse uc (uc_show uc b) = Some b \<and> list_all plain_char (uc_show uc b) \<and> uc_show uc b \<noteq> []) \<and>
     (\<forall>s b. uc_parse uc s = Some b \<longrightarrow> length b = 16)"

definition err_invalid_id :: go_error where "err_invalid_id = Sentinel ''invalid id''"

definition id_string :: "ulid_codec \<Rightarrow> ID \<Rightarrow> string" where
  "id_string uc i = uc_show uc (id_bytes i)"

definition parse_id :: "ulid_codec \<Rightarrow> string \<Rightarrow> go_error + ID" where
  "parse_id uc s = (case uc_parse uc s of
       None \<Rightarrow> Inl (wrap_err s err_invalid_id)
     | Some b \<Rightarrow> Inr (copy_id b))"

definition from_bytes :: "string \<Rightarrow> go_error + ID" where
  "from_bytes b = (if length b \<noteq> 16
     then Inl (wrap_err (''expected 16 bytes, got '' @ show_nat (length b)) err_invalid_id)
     else Inr (copy_id b))"

definition bytes_of_id :: "ID \<Rightarrow> string" where
  "bytes_of_id i = id_bytes i"

definition is_zero_id :: "ID \<Rightarrow> bool" where
  "is_zero_id i \<longleftrightarrow> i = nil_id"

section \<open>Columns\<close>

text \<open>What a driver hands to \<open>Scan\<close>, and what \<open>Value\<close> hands to the driver. A \<open>BINARY(16)\<close> column gives
  back the bytes it was given.\<close>

datatype sql_value = SqlNull | SqlBytes string | SqlString string | SqlInt int

definition id_value :: "ID \<Rightarrow> sql_value" where
  "id_value i = (if is_zero_id i then SqlNull else SqlBytes (id_bytes i))"

definition id_scan :: "ulid_codec \<Rightarrow> sql_value \<Rightarrow> go_error + ID" where
  "id_scan uc v = (case v of
       SqlNull \<Rightarrow> Inr nil_id
     | SqlBytes b \<Rightarrow> from_bytes b
     | SqlString s \<Rightarrow> parse_id uc s
     | SqlInt n \<Rightarrow> Inl (wrap_err ''unsupported scan type'' err_invalid_id))"

record id_opt =
  opt_id :: ID
  opt_valid :: bool

definition some_id :: "ID \<Rightarrow> id_opt" where
  "some_id i = \<lparr>opt_id = i, opt_valid = (\<not> is_zero_id i)\<rparr>"

definition none_id :: id_opt where
  "none_id = \<lparr>opt_id = nil_id, opt_valid = False\<rparr>"

definition opt_value :: "id_opt \<Rightarrow> sql_value" where
  "opt_value x = (if \<not> opt_valid x \<or> is_zero_id (opt_id x) then SqlNull else SqlBytes (id_bytes (opt_id x)))"

definition opt_scan :: "ulid_codec \<Rightarrow> sql_value \<Rightarrow> go_error + id_opt" where
  "opt_scan uc v = (if v = SqlNull then Inr none_id
     else (case id_scan uc v of Inl e \<Rightarrow> Inl e | Inr i \<Rightarrow> Inr \<lparr>opt_id = i, opt_valid = True\<rparr>))"

text \<open>The optional identifiers the module itself builds: present exactly when they are not zero.\<close>

definition clean_opt :: "id_opt \<Rightarrow> bool" where
  "clean_opt x \<longleftrightarrow> (if opt_valid x then \<not> is_zero_id (opt_id x) else opt_id x = nil_id)"

locale sql_column =
  fixes to_sql :: "'a \<Rightarrow> sql_value"
    and of_sql :: "sql_value \<Rightarrow> go_error + 'a"
    and stored :: "'a \<Rightarrow> bool"
  assumes column_round_trip: "stored x \<Longrightarrow> of_sql (to_sql x) = Inr x"
begin

lemma column_inj: "stored x \<Longrightarrow> stored y \<Longrightarrow> to_sql x = to_sql y \<Longrightarrow> x = y"
  by (metis Inr_inject column_round_trip)

text \<open>A row of such columns is read back as it was written, in any order of columns.\<close>

fun scan_all :: "sql_value list \<Rightarrow> go_error + 'a list" where
  "scan_all [] = Inr []"
| "scan_all (v # vs) = (case of_sql v of Inl e \<Rightarrow> Inl e
     | Inr x \<Rightarrow> (case scan_all vs of Inl e \<Rightarrow> Inl e | Inr xs \<Rightarrow> Inr (x # xs)))"

lemma scan_all_round_trip: "list_all stored xs \<Longrightarrow> scan_all (map to_sql xs) = Inr xs"
  by (induction xs) (simp_all add: column_round_trip)

end

interpretation id_col: sql_column id_value "id_scan uc" "\<lambda>_. True" for uc
  by unfold_locales (simp add: id_value_def id_scan_def is_zero_id_def from_bytes_def)

interpretation opt_col: sql_column opt_value "opt_scan uc" clean_opt for uc
proof unfold_locales
  fix x :: id_opt
  assume "clean_opt x"
  then show "opt_scan uc (opt_value x) = Inr x"
    by (cases x) (auto simp: opt_value_def opt_scan_def id_scan_def clean_opt_def is_zero_id_def
        from_bytes_def none_id_def)
qed

lemma clean_some_none [simp]: "clean_opt none_id" "\<not> is_zero_id i \<Longrightarrow> clean_opt (some_id i)"
  by (simp_all add: clean_opt_def none_id_def some_id_def)

section \<open>JSON\<close>

text \<open>\<open>json.Unmarshal\<close> into a Go string: \<open>null\<close> leaves the empty string, any other type is an error.
  Number literals are only scanned.\<close>

definition unmarshal_string :: "string \<Rightarrow> go_error + string" where
  "unmarshal_string b = (case unmarshal Some b of
       Some (JStr s) \<Rightarrow> Inr s
     | Some JNull \<Rightarrow> Inr []
     | Some _ \<Rightarrow> Inl (new_err ''json: cannot unmarshal into Go value of type string'')
     | None \<Rightarrow> Inl (new_err ''json: syntax error''))"

definition id_marshal_json :: "ulid_codec \<Rightarrow> ID \<Rightarrow> string" where
  "id_marshal_json uc i = json_quote (id_string uc i)"

definition id_unmarshal_json :: "ulid_codec \<Rightarrow> string \<Rightarrow> go_error + ID" where
  "id_unmarshal_json uc b = (case unmarshal_string b of Inl e \<Rightarrow> Inl e | Inr s \<Rightarrow> parse_id uc s)"

definition opt_marshal_json :: "ulid_codec \<Rightarrow> id_opt \<Rightarrow> string" where
  "opt_marshal_json uc x = (if opt_valid x then id_marshal_json uc (opt_id x) else ''null'')"

definition opt_unmarshal_json :: "ulid_codec \<Rightarrow> string \<Rightarrow> go_error + id_opt" where
  "opt_unmarshal_json uc b = (if b = ''null'' then Inr none_id
     else (case id_unmarshal_json uc b of Inl e \<Rightarrow> Inl e | Inr i \<Rightarrow> Inr \<lparr>opt_id = i, opt_valid = True\<rparr>))"

definition opt_string_ptr :: "ulid_codec \<Rightarrow> id_opt \<Rightarrow> string option" where
  "opt_string_ptr uc x = (if opt_valid x then Some (id_string uc (opt_id x)) else None)"

lemma parse_id_string [simp]: "ulid_laws uc \<Longrightarrow> parse_id uc (id_string uc i) = Inr i"
  by (simp add: ulid_laws_def parse_id_def id_string_def)

lemma id_string_plain: "ulid_laws uc \<Longrightarrow> list_all plain_char (id_string uc i)"
  by (simp add: ulid_laws_def id_string_def)

lemma id_string_inj: "ulid_laws uc \<Longrightarrow> id_string uc i = id_string uc j \<Longrightarrow> i = j"
  by (metis Inr_inject parse_id_string)

lemma id_string_no_nul: "ulid_laws uc \<Longrightarrow> CHR 0x00 \<notin> set (id_string uc i)"
  using id_string_plain [of uc i] by (auto simp: list_all_iff plain_char_def byte_val_def)

lemma id_string_nonempty: "ulid_laws uc \<Longrightarrow> id_string uc i \<noteq> []"
  by (simp add: ulid_laws_def id_string_def)

lemma plain_utf8: "list_all plain_char s \<Longrightarrow> utf8_ok s"
  by (induction s) (auto simp: plain_char_def)

lemma unmarshal_json_quote: "utf8_ok s \<Longrightarrow> unmarshal num (json_quote s) = Some (JStr s)"
  using unmarshal_write [of num "JStr s"] by simp

lemma id_json_round_trip: "ulid_laws uc \<Longrightarrow> id_unmarshal_json uc (id_marshal_json uc i) = Inr i"
  by (simp add: id_unmarshal_json_def id_marshal_json_def unmarshal_string_def unmarshal_json_quote
      plain_utf8 id_string_plain)

lemma opt_json_round_trip:
  assumes "ulid_laws uc" and "opt_valid x \<or> opt_id x = nil_id"
  shows "opt_unmarshal_json uc (opt_marshal_json uc x) = Inr x"
proof (cases "opt_valid x")
  case True
  have "id_marshal_json uc (opt_id x) \<noteq> ''null''" by (simp add: id_marshal_json_def json_quote_def dquote_def)
  with True id_json_round_trip [OF assms(1)] show ?thesis
    by (simp add: opt_unmarshal_json_def opt_marshal_json_def)
next
  case False
  with assms(2) show ?thesis by (simp add: opt_unmarshal_json_def opt_marshal_json_def none_id_def)
qed

section \<open>Properties\<close>

text \<open>A concrete codec that satisfies the laws: two letters per byte.\<close>

definition half_letter :: "nat \<Rightarrow> char" where "half_letter d = char_of (65 + d)"

fun letters :: "string \<Rightarrow> string" where
  "letters [] = []"
| "letters (c # s) = half_letter (byte_val c div 16) # half_letter (byte_val c mod 16) # letters s"

fun unletters :: "string \<Rightarrow> string" where
  "unletters (a # b # s) = char_of ((byte_val a - 65) * 16 + (byte_val b - 65)) # unletters s"
| "unletters _ = []"

definition sample_codec :: ulid_codec where
  "sample_codec = \<lparr>uc_parse = (\<lambda>s. if length s = 32 then Some (unletters s) else None), uc_show = letters\<rparr>"

lemma unletters_letters: "unletters (letters s) = s"
proof (induction s)
  case (Cons c s)
  have "byte_val c div 16 < 16" using byte_val_less [of c] by linarith
  with Cons byte_val_split(2) [of c] show ?case by (simp add: half_letter_def mult.commute)
qed simp

lemma sample_codec_laws: "ulid_laws sample_codec"
proof -
  have l: "length (letters s) = 2 * length s" for s by (induction s) auto
  have u: "length s = 2 * n \<Longrightarrow> length (unletters s) = n" for s n
    proof (induction s arbitrary: n rule: unletters.induct)
    case (1 a b s)
    then show ?case by (cases n) auto
  qed auto
  have p: "list_all plain_char (letters s)" for s
  proof (induction s)
    case (Cons c s)
    have "byte_val c div 16 < 16" using byte_val_less [of c] by linarith
    with Cons show ?case by (simp add: plain_char_def half_letter_def)
  qed simp
  have "letters s \<noteq> []" if "length s = 16" for s using l [of s] that by (cases "letters s") auto
  with l u p show ?thesis
    by (auto simp: ulid_laws_def sample_codec_def unletters_letters)
qed

text \<open>C38. An identifier survives each of its representations: text, bytes, a JSON document and a database column. An
  optional identifier survives a column exactly if it is absent with the zero identifier or present with another one,
  which is how \<open>Some\<close> and \<open>None\<close> build it, and is read back as absent otherwise; and it survives JSON if it is
  present, and is read back as absent otherwise.\<close>

theorem id_round_trips:
  assumes "ulid_laws uc"
  shows "parse_id uc (id_string uc i) = Inr i \<and> from_bytes (bytes_of_id i) = Inr i \<and>
    id_unmarshal_json uc (id_marshal_json uc i) = Inr i \<and> id_scan uc (id_value i) = Inr i \<and>
    opt_scan uc (opt_value x) = Inr (if clean_opt x then x else none_id) \<and>
    opt_unmarshal_json uc (opt_marshal_json uc x) = Inr (if opt_valid x then x else none_id) \<and>
    clean_opt (some_id i) \<and> clean_opt none_id"
proof -
  have "opt_scan uc (opt_value x) = Inr none_id" if "\<not> clean_opt x"
    using that by (auto simp: opt_value_def opt_scan_def clean_opt_def split: if_splits)
  moreover have "opt_marshal_json uc x = opt_marshal_json uc none_id" if "\<not> opt_valid x"
    using that by (simp add: opt_marshal_json_def none_id_def)
  moreover have "opt_unmarshal_json uc (opt_marshal_json uc none_id) = Inr none_id"
    by (rule opt_json_round_trip [OF assms]) (simp add: none_id_def)
  moreover have "clean_opt (some_id i)" by (simp add: some_id_def clean_opt_def is_zero_id_def)
  ultimately show ?thesis
    using assms id_json_round_trip id_col.column_round_trip opt_col.column_round_trip opt_json_round_trip [OF assms, of x]
    by (simp add: from_bytes_def bytes_of_id_def)
qed

definition sample_id :: ID where "sample_id = copy_id ''0123456789abcdef''"

lemma sample_id_not_nil [simp]: "\<not> is_zero_id sample_id"
  by (simp add: is_zero_id_def sample_id_def id_eq_iff eval_nat_numeral)

theorem id_round_trips_witness:
  "id_unmarshal_json sample_codec (id_marshal_json sample_codec sample_id) = Inr sample_id"
  using id_round_trips [OF sample_codec_laws, of sample_id] by simp

text \<open>An optional identifier that is present but zero, which a handler can build as a struct literal or
  decode from JSON, does not survive a column: it is stored as \<open>NULL\<close> and read back as absent, and its
  JSON form changes from a string to \<open>null\<close>.\<close>

theorem zero_opt_lost:
  "opt_scan uc (opt_value \<lparr>opt_id = nil_id, opt_valid = True\<rparr>) = Inr none_id \<and>
   opt_marshal_json uc \<lparr>opt_id = nil_id, opt_valid = True\<rparr> \<noteq> opt_marshal_json uc none_id"
  by (simp add: opt_value_def opt_scan_def is_zero_id_def opt_marshal_json_def none_id_def
      id_marshal_json_def json_quote_def dquote_def)

end
