(* ===== verification/Database.thy ===== *)
theory Database
  imports Go_Prelude
begin

text \<open>
  \<open>src/database/database.go\<close>: the classification of MySQL errors, the transaction runner \<open>InTx\<close> and
  the projection helper \<open>PrefixColumns\<close>; and the guard of \<open>src/database/testschema.go\<close>.

  A transaction body works on the committed state \<open>'db\<close> it reads after \<open>BEGIN\<close> and on the variables
  of the enclosing Go function it captures, \<open>'l\<close>: a rollback restores the first and not the second.
  What the server and the clock do in each attempt is a \<open>tx_env\<close>: whether \<open>BeginTx\<close> fails, what other
  sessions committed before the attempt, whether \<open>COMMIT\<close> fails, and, when it fails, whether the
  server had applied it (the connection can be lost after the server committed).

  The locale \<open>tx_body\<close> is the contract between \<open>InTx\<close> and the packages that pass it a body; they
  interpret it on their own bodies.
\<close>

section \<open>Error classification\<close>

text \<open>The MySQL error numbers.\<close>

abbreviation err_duplicate_entry :: nat where "err_duplicate_entry \<equiv> 1062"
abbreviation err_deadlock :: nat where "err_deadlock \<equiv> 1213"
abbreviation err_lock_wait_timeout :: nat where "err_lock_wait_timeout \<equiv> 1205"
abbreviation err_check_constraint :: nat where "err_check_constraint \<equiv> 3819"
abbreviation err_row_is_referenced :: nat where "err_row_is_referenced \<equiv> 1451"
abbreviation err_no_referenced_row :: nat where "err_no_referenced_row \<equiv> 1452"
abbreviation err_query_interrupt :: nat where "err_query_interrupt \<equiv> 1317"

definition has_number :: "nat set \<Rightarrow> go_error \<Rightarrow> bool" where
  "has_number ns e = (case as_mysql e of Some (n, m) \<Rightarrow> n \<in> ns | None \<Rightarrow> False)"

definition is_duplicate :: "go_error \<Rightarrow> bool" where "is_duplicate = has_number {err_duplicate_entry}"
definition is_deadlock :: "go_error \<Rightarrow> bool" where "is_deadlock = has_number {err_deadlock, err_lock_wait_timeout}"
definition is_check_constraint :: "go_error \<Rightarrow> bool" where "is_check_constraint = has_number {err_check_constraint}"
definition is_foreign_key :: "go_error \<Rightarrow> bool" where "is_foreign_key = has_number {err_row_is_referenced, err_no_referenced_row}"

definition err_invalid_conn :: go_error where "err_invalid_conn = Sentinel ''invalid connection''"
definition err_conn_done :: go_error where
  "err_conn_done = Sentinel ''sql: connection is already closed''"
definition err_no_rows :: go_error where "err_no_rows = Sentinel ''sql: no rows in result set''"

definition is_retryable :: "go_error \<Rightarrow> bool" where
  "is_retryable e \<longleftrightarrow> is_deadlock e \<or> has_number {err_query_interrupt} e \<or>
     err_is e ''invalid connection'' \<or> err_is e ''sql: connection is already closed''"

definition is_no_rows :: "go_error \<Rightarrow> bool" where
  "is_no_rows e = err_is e ''sql: no rows in result set''"

lemmas number_defs = has_number_def is_duplicate_def is_deadlock_def is_check_constraint_def
  is_foreign_key_def

fun last_index :: "string \<Rightarrow> string \<Rightarrow> nat option" where
  "last_index [] sub = (if sub = [] then Some 0 else None)"
| "last_index (c # s) sub = (case last_index s sub of
       Some i \<Rightarrow> Some (Suc i)
     | None \<Rightarrow> if has_prefix (c # s) sub then Some 0 else None)"

definition quote_char :: char where "quote_char = CHR 0x27"

definition key_marker :: string where
  "key_marker = ''for key '' @ [quote_char]"

definition duplicate_index :: "go_error \<Rightarrow> string" where
  "duplicate_index e = (case as_mysql e of
       None \<Rightarrow> []
     | Some (n, msg) \<Rightarrow>
        if n \<noteq> err_duplicate_entry then []
        else case last_index msg key_marker of
          None \<Rightarrow> []
        | Some i \<Rightarrow>
           (let rest = trim_suffix (drop (i + length key_marker) msg) [quote_char]
            in case last_index rest ''.'' of Some d \<Rightarrow> drop (d + 1) rest | None \<Rightarrow> rest))"

lemma wrapping_keeps_class [err_simps]:
  "is_duplicate (wrap_err m e) = is_duplicate e"
  "is_deadlock (wrap_err m e) = is_deadlock e"
  "is_retryable (wrap_err m e) = is_retryable e"
  "is_no_rows (wrap_err m e) = is_no_rows e"
  "duplicate_index (wrap_err m e) = duplicate_index e"
  by (simp_all only: number_defs is_retryable_def is_no_rows_def duplicate_index_def as_mysql_wrap
      err_is_wrap)

lemma last_index_None: "last_index s sub = None \<Longrightarrow> \<not> contains_sub s sub"
  by (induction s) (auto split: option.splits if_splits)

lemma last_index_append: "last_index t sub = Some i \<Longrightarrow> last_index (s @ t) sub = Some (length s + i)"
  by (induction s) auto

lemma last_index_Some0: "last_index (tl s) sub = None \<Longrightarrow> has_prefix s sub \<Longrightarrow> s \<noteq> [] \<Longrightarrow> last_index s sub = Some 0"
  by (cases s) auto

lemma last_index_absent: "\<exists>c \<in> set sub. c \<notin> set s \<Longrightarrow> last_index s sub = None"
proof (induction s)
  case Nil
  then show ?case by auto
next
  case (Cons a s)
  then have "last_index s sub = None" by auto
  moreover have "\<not> has_prefix (a # s) sub"
  proof
    assume "has_prefix (a # s) sub"
    then obtain r where "a # s = sub @ r" by (auto simp: has_prefix_iff)
    then have "set sub \<subseteq> set (a # s)" by (metis Un_upper1 set_append)
    with Cons.prems show False by blast
  qed
  ultimately show ?case by simp
qed

lemma last_index_single: "c \<notin> set t \<Longrightarrow> last_index (s @ c # t) [c] = Some (length s)"
  by (induction s) (simp_all add: last_index_absent)

lemma last_index_key_marker:
  assumes "CHR '' '' \<notin> set r"
  shows "last_index (s @ key_marker @ r @ [quote_char]) key_marker = Some (length s)"
proof -
  have "CHR '' '' \<in> set key_marker" "CHR '' '' \<notin> set (r @ [quote_char])"
    using assms by (simp_all add: key_marker_def quote_char_def)
  then have "last_index (r @ [quote_char]) key_marker = None"
    by (intro last_index_absent) blast
  then have "last_index (key_marker @ r @ [quote_char]) key_marker = Some 0"
    by (simp add: key_marker_def quote_char_def)
  from last_index_append [OF this] show ?thesis by simp
qed

lemma duplicate_index_message:
  assumes "CHR '' '' \<notin> set tbl" and "CHR '' '' \<notin> set idx" and "CHR ''.'' \<notin> set idx"
  shows "duplicate_index (MySQLError 1062 (s @ key_marker @ (tbl @ ''.'' @ idx) @ [quote_char])) = idx"
proof -
  have "CHR '' '' \<notin> set (tbl @ ''.'' @ idx)" using assms by simp
  from last_index_key_marker [OF this, of s] last_index_single [OF assms(3), of tbl]
  have 1: "last_index (s @ key_marker @ (tbl @ ''.'' @ idx) @ [quote_char]) key_marker = Some (length s)"
    and 2: "last_index (tbl @ ''.'' @ idx) ''.'' = Some (length tbl)" by simp_all
  have 3: "trim_suffix (tbl @ CHR ''.'' # idx @ [quote_char]) [quote_char] = tbl @ ''.'' @ idx"
    using trim_suffix_append [of "tbl @ ''.'' @ idx" "[quote_char]"] by simp
  show ?thesis using 1 2 3 by (simp add: duplicate_index_def)
qed

section \<open>Transactions\<close>

datatype tx_result = TxOk | TxErr go_error | TxPanic string

datatype commit_outcome = CommitOk | CommitError go_error bool

record 'db tx_env =
  te_begin :: "go_error option"
  te_before :: "'db \<Rightarrow> 'db"
  te_commit :: commit_outcome
  te_ctx_err :: "go_error option"
  te_wait_err :: "go_error option"

type_synonym ('db, 'l) tx_fn = "nat \<Rightarrow> 'db \<times> 'l \<Rightarrow> tx_result \<times> 'db \<times> 'l"

text \<open>\<open>runTx\<close>: begin, run the body, commit; roll back on an error and on a panic. The body gets the number
  of the attempt, because the server's answers to its statements differ between attempts.\<close>

definition run_tx :: "string \<Rightarrow> 'db tx_env \<Rightarrow> (('db \<times> 'l) \<Rightarrow> tx_result \<times> 'db \<times> 'l)
    \<Rightarrow> 'db \<times> 'l \<Rightarrow> tx_result \<times> 'db \<times> 'l" where
  "run_tx operation env fn st =
     (let (db, l) = st; db0 = te_before env db in
      case te_begin env of
        Some e \<Rightarrow> (TxErr (wrap_err (''begin '' @ operation) e), db0, l)
      | None \<Rightarrow>
         (case fn (db0, l) of
            (TxPanic p, db', l') \<Rightarrow> (TxPanic p, db0, l')
          | (TxErr e, db', l') \<Rightarrow> (TxErr e, db0, l')
          | (TxOk, db', l') \<Rightarrow>
             (case te_commit env of
                CommitOk \<Rightarrow> (TxOk, db', l')
              | CommitError e applied \<Rightarrow>
                 (TxErr (wrap_err (''commit '' @ operation) e), if applied then db' else db0, l'))))"

definition max_tx_attempts :: nat where "max_tx_attempts = 4"

definition backoff :: "nat \<Rightarrow> duration" where
  "backoff attempt = int (attempt * attempt) * 15 * millisecond"

text \<open>The retry loop; \<open>n\<close> attempts are left. The last component lists the backoffs waited.\<close>

fun tx_loop :: "string \<Rightarrow> (nat \<Rightarrow> 'db tx_env) \<Rightarrow> ('db, 'l) tx_fn \<Rightarrow> nat \<Rightarrow> nat \<Rightarrow> go_error
    \<Rightarrow> 'db \<times> 'l \<Rightarrow> tx_result \<times> 'db \<times> 'l \<times> duration list" where
  "tx_loop operation envs fn 0 attempt last_err (db, l) =
     (TxErr (wrap_err (''transaction '' @ operation @ '' exhausted retries'') last_err), db, l, [])"
| "tx_loop operation envs fn (Suc n) attempt last_err st =
     (case run_tx operation (envs attempt) (fn attempt) st of
        (TxOk, db, l) \<Rightarrow> (TxOk, db, l, [])
      | (TxPanic p, db, l) \<Rightarrow> (TxPanic p, db, l, [])
      | (TxErr e, db, l) \<Rightarrow>
         (if \<not> is_retryable e \<or> te_ctx_err (envs attempt) \<noteq> None then (TxErr e, db, l, [])
          else case te_wait_err (envs attempt) of
            Some ce \<Rightarrow> (TxErr ce, db, l, [])
          | None \<Rightarrow>
             (let (r, db', l', waits) = tx_loop operation envs fn n (Suc attempt) e (db, l)
              in (r, db', l', backoff attempt # waits))))"

definition in_tx :: "string \<Rightarrow> (nat \<Rightarrow> 'db tx_env) \<Rightarrow> ('db, 'l) tx_fn \<Rightarrow> 'db \<times> 'l
    \<Rightarrow> tx_result \<times> 'db \<times> 'l \<times> duration list" where
  "in_tx operation envs fn st = tx_loop operation envs fn max_tx_attempts 1 (new_err []) st"

text \<open>A server that never reports a failed commit it has applied; what other sessions commit before attempts 1 to
  \<open>k\<close>; and no other session writing.\<close>

definition honest_commits :: "(nat \<Rightarrow> 'db tx_env) \<Rightarrow> bool" where
  "honest_commits envs \<longleftrightarrow> (\<forall>n e. te_commit (envs n) \<noteq> CommitError e True)"

definition others_until :: "(nat \<Rightarrow> 'db tx_env) \<Rightarrow> nat \<Rightarrow> 'db \<Rightarrow> 'db" where
  "others_until envs k db = fold (\<lambda>n. te_before (envs n)) [1..<Suc k] db"

definition alone :: "(nat \<Rightarrow> 'db tx_env) \<Rightarrow> bool" where
  "alone envs \<longleftrightarrow> (\<forall>n db. te_before (envs n) db = db)"

lemma run_tx_ok:
  "run_tx op env fn (db, l) = (TxOk, db', l') \<Longrightarrow> fn (te_before env db, l) = (TxOk, db', l')"
  by (auto simp: run_tx_def Let_def split: option.splits prod.splits tx_result.splits
      commit_outcome.splits)

lemma run_tx_rolled_back:
  assumes "run_tx op env fn (db, l) = (r, db', l')" and "r \<noteq> TxOk"
    and "\<And>e. te_commit env \<noteq> CommitError e True"
  shows "db' = te_before env db"
  using assms
  by (auto simp: run_tx_def Let_def split: option.splits prod.splits tx_result.splits
      commit_outcome.splits if_splits)

lemma tx_loop_atomic:
  assumes "honest_commits envs" and "1 \<le> a"
    and "tx_loop op envs fn n a le (db, l) = (r, db', l', ws)"
  shows "if r = TxOk
    then \<exists>k l0. a \<le> k \<and> k < a + n \<and> fn k (fold (\<lambda>n. te_before (envs n)) [a..<Suc k] db, l0) = (TxOk, db', l')
    else \<exists>k < a + n. db' = fold (\<lambda>n. te_before (envs n)) [a..<Suc k] db"
  using assms(2,3)
proof (induction n arbitrary: a le db l ws)
  case 0
  then show ?case by (auto intro!: exI [of _ "a - 1"])
next
  case (Suc n)
  obtain r1 db1 l1 where run: "run_tx op (envs a) (fn a) (db, l) = (r1, db1, l1)"
    by (cases "run_tx op (envs a) (fn a) (db, l)") auto
  have step: "fold (\<lambda>n. te_before (envs n)) [a..<Suc k] db = fold (\<lambda>n. te_before (envs n)) [Suc a..<Suc k] (te_before (envs a) db)"
    if "a \<le> k" for k using that by (simp add: upt_conv_Cons del: upt_Suc)
  have one: "fold (\<lambda>n. te_before (envs n)) [a..<Suc a] db = te_before (envs a) db" by simp
  show ?case
  proof (cases r1)
    case TxOk
    with run_tx_ok [of op "envs a" "fn a" db l db1 l1] run
    have "fn a (te_before (envs a) db, l) = (TxOk, db1, l1)" by simp
    with Suc.prems run TxOk one show ?thesis by (auto simp del: upt_Suc intro!: exI [of _ a])
  next
    case (TxPanic p)
    with run_tx_rolled_back [OF run] assms(1) have "db1 = te_before (envs a) db" by (simp add: honest_commits_def)
    with Suc.prems run TxPanic one show ?thesis by (auto simp del: upt_Suc intro!: exI [of _ a])
  next
    case (TxErr e)
    with run_tx_rolled_back [OF run] assms(1) have db1: "db1 = te_before (envs a) db" by (simp add: honest_commits_def)
    show ?thesis
    proof (cases "(\<not> is_retryable e \<or> te_ctx_err (envs a) \<noteq> None) \<or> te_wait_err (envs a) \<noteq> None")
      case True
      with Suc.prems run TxErr db1 one show ?thesis by (auto simp del: upt_Suc split: if_splits intro!: exI [of _ a])
    next
      case False
      then obtain ws' where "tx_loop op envs fn n (Suc a) e (te_before (envs a) db, l1) = (r, db', l', ws')"
        using Suc.prems run TxErr db1 by (auto split: prod.splits)
      note ih = Suc.IH [OF _ this]
      show ?thesis
      proof (cases "r = TxOk")
        case True
        with ih obtain k l0 where "Suc a \<le> k" "k < Suc a + n"
          "fn k (fold (\<lambda>n. te_before (envs n)) [Suc a..<Suc k] (te_before (envs a) db), l0) = (TxOk, db', l')" by auto
        with True step [of k] show ?thesis by (auto simp del: upt_Suc intro!: exI [of _ k])
      next
        case False
        with ih obtain k where k: "k < Suc a + n" "db' = fold (\<lambda>n. te_before (envs n)) [Suc a..<Suc k] (te_before (envs a) db)" by auto
        have "\<exists>j < a + Suc n. db' = fold (\<lambda>n. te_before (envs n)) [a..<Suc j] db"
          using k step [of k] one by (cases "a \<le> k") (auto simp del: upt_Suc intro: exI [of _ k] exI [of _ a])
        with False show ?thesis by simp
      qed
    qed
  qed
qed

lemma tx_loop_waits:
  "tx_loop op envs fn n a le st = (r, db', l', ws) \<Longrightarrow>
     length ws \<le> n \<and> ws = map backoff [a..<a + length ws]"
proof (induction n arbitrary: a le st ws)
  case 0
  then show ?case by (cases st) auto
next
  case (Suc n)
  obtain r1 db1 l1 where run: "run_tx op (envs a) (fn a) st = (r1, db1, l1)"
    by (cases "run_tx op (envs a) (fn a) st") auto
  show ?case
  proof (cases "\<exists>e. r1 = TxErr e \<and> is_retryable e \<and> te_ctx_err (envs a) = None \<and> te_wait_err (envs a) = None")
    case True
    then obtain e ws' where rest: "tx_loop op envs fn n (Suc a) e (db1, l1) = (r, db', l', ws')"
      and ws: "ws = backoff a # ws'"
      using Suc.prems run by (auto split: prod.splits)
    from Suc.IH [OF rest] have "length ws' \<le> n" "ws' = map backoff [Suc a..<Suc a + length ws']" by auto
    moreover have "[a..<a + Suc (length ws')] = a # [Suc a..<Suc a + length ws']"
      by (simp add: upt_conv_Cons del: upt_Suc)
    ultimately show ?thesis unfolding ws by (simp del: upt_Suc)
  next
    case False
    with Suc.prems run show ?thesis by (auto split: tx_result.splits if_splits option.splits)
  qed
qed

definition calm_env :: "'db tx_env" where
  "calm_env = \<lparr>te_begin = None, te_before = (\<lambda>d. d), te_commit = CommitOk, te_ctx_err = None,
     te_wait_err = None\<rparr>"

lemma in_tx_calm:
  "in_tx op (\<lambda>_. calm_env) fn (db, l) = (case fn 1 (db, l) of
     (TxOk, db', l') \<Rightarrow> (TxOk, db', l', [])
   | (TxPanic p, db', l') \<Rightarrow> (TxPanic p, db, l', [])
   | (TxErr e, db', l') \<Rightarrow> if is_retryable e then in_tx op (\<lambda>_. calm_env) fn (db, l) else (TxErr e, db, l', []))"
  by (auto simp: in_tx_def max_tx_attempts_def eval_nat_numeral run_tx_def calm_env_def
      split: prod.splits tx_result.splits)

text \<open>The contract of a transaction body: when it returns nil from a state that satisfies \<open>inv\<close>, with
  captured variables that satisfy \<open>pre\<close>, the state it leaves does too; \<open>pre\<close> holds after every attempt. \<open>InTx\<close> then keeps \<open>inv\<close> whatever the server answers, even when a commit is
  applied and reported as failed and the body runs again.\<close>

locale tx_body =
  fixes body :: "nat \<Rightarrow> 'db \<times> 'l \<Rightarrow> tx_result \<times> 'db \<times> 'l"
    and inv :: "'db \<Rightarrow> bool"
    and pre :: "'l \<Rightarrow> bool"
  assumes body_keeps: "inv db \<Longrightarrow> pre l \<Longrightarrow> body n (db, l) = (TxOk, db', l') \<Longrightarrow> inv db'"
    and body_pre: "pre l \<Longrightarrow> body n (db, l) = (r, db', l') \<Longrightarrow> pre l'"
begin

lemma run_tx_keeps:
  assumes "inv (te_before env db)" and "pre l" and "run_tx op env (body n) (db, l) = (r, db', l')"
  shows "inv db' \<and> pre l'"
  using assms body_keeps body_pre
  by (fastforce simp: run_tx_def Let_def split: option.splits prod.splits tx_result.splits
      commit_outcome.splits if_splits)

lemma tx_loop_keeps:
  assumes "\<And>k d. inv d \<Longrightarrow> inv (te_before (envs k) d)"
    and "inv db" and "pre l" and "tx_loop op envs body n a le (db, l) = (r, db', l', ws)"
  shows "inv db' \<and> pre l'"
  using assms(2-4)
proof (induction n arbitrary: a le db l ws)
  case 0
  then show ?case by auto
next
  case (Suc n)
  obtain r1 db1 l1 where run: "run_tx op (envs a) (body a) (db, l) = (r1, db1, l1)"
    by (cases "run_tx op (envs a) (body a) (db, l)") auto
  have i: "inv db1" "pre l1" using run_tx_keeps [OF _ Suc.prems(2) run] assms(1) Suc.prems(1) by blast+
  show ?case
  proof (cases "\<exists>e. r1 = TxErr e \<and> is_retryable e \<and> te_ctx_err (envs a) = None \<and> te_wait_err (envs a) = None")
    case True
    then obtain e ws' where "tx_loop op envs body n (Suc a) e (db1, l1) = (r, db', l', ws')"
      using Suc.prems run by (auto split: prod.splits)
    with Suc.IH i show ?thesis by blast
  next
    case False
    with Suc.prems run i show ?thesis
      by (auto split: tx_result.splits if_splits option.splits)
  qed
qed

lemma in_tx_keeps:
  assumes "\<And>k d. inv d \<Longrightarrow> inv (te_before (envs k) d)"
    and "inv db" and "pre l" and "in_tx op envs body (db, l) = (r, db', l', ws)"
  shows "inv db' \<and> pre l'"
  using tx_loop_keeps assms unfolding in_tx_def by blast

end

text \<open>A statement executed outside a transaction: it changes the table or fails; the server can also fail
  it without executing it, or execute it and lose the answer (\<open>True\<close>).\<close>

type_synonym stmt_fault = "(go_error \<times> bool) option"

definition exec_stmt :: "stmt_fault \<Rightarrow> ('db \<Rightarrow> go_error + 'db) \<Rightarrow> 'db \<Rightarrow> go_error option \<times> 'db" where
  "exec_stmt fault f db =
     (let done = (case f db of Inl e \<Rightarrow> db | Inr db' \<Rightarrow> db')
      in case fault of
           Some (e, applied) \<Rightarrow> (Some e, if applied then done else db)
         | None \<Rightarrow> (case f db of Inl e \<Rightarrow> Some e | Inr _ \<Rightarrow> None, done))"

lemma exec_stmt_keeps:
  "(\<And>d d'. f d = Inr d' \<Longrightarrow> P d \<Longrightarrow> P d') \<Longrightarrow> P db \<Longrightarrow> P (snd (exec_stmt fault f db))"
  by (auto simp: exec_stmt_def Let_def split: sum.splits option.splits)

lemma exec_stmt_calm [simp]:
  "exec_stmt None f db = (case f db of Inl e \<Rightarrow> (Some e, db) | Inr db' \<Rightarrow> (None, db'))"
  by (simp add: exec_stmt_def split: sum.split)

section \<open>Nullable parameters\<close>

definition null_time :: "go_time option \<Rightarrow> go_time option" where
  "null_time t = (case t of None \<Rightarrow> None | Some x \<Rightarrow> if x = 0 then None else Some x)"

definition time_ptr :: "go_time option \<Rightarrow> go_time option" where
  "time_ptr t = t"

definition null_string :: "string option \<Rightarrow> string option" where
  "null_string s = (case s of None \<Rightarrow> None | Some x \<Rightarrow> if x = [] then None else Some x)"

definition string_ptr :: "string option \<Rightarrow> string option" where
  "string_ptr s = s"

section \<open>Pools\<close>

text \<open>\<open>Open\<close> builds the writer pool and, when a reader DSN is configured, the reader pool; \<open>opn\<close> is
  \<open>openPool\<close> (the driver). The second component lists the pools closed again.\<close>

record 'p db_pools =
  db_writer :: 'p
  db_reader :: "'p option"

definition open_pools :: "(string \<Rightarrow> go_error + 'p) \<Rightarrow> string \<Rightarrow> string
    \<Rightarrow> (go_error + 'p db_pools) \<times> 'p list" where
  "open_pools opn dsn reader_dsn = (case opn dsn of
       Inl e \<Rightarrow> (Inl (wrap_err ''open writer pool'' e), [])
     | Inr w \<Rightarrow>
        if reader_dsn \<noteq> [] then
          (case opn reader_dsn of
             Inl e \<Rightarrow> (Inl (wrap_err ''open reader pool'' e), [w])
           | Inr r \<Rightarrow> (Inr \<lparr>db_writer = w, db_reader = Some r\<rparr>, []))
        else (Inr \<lparr>db_writer = w, db_reader = None\<rparr>, []))"

definition reader_pool :: "'p db_pools \<Rightarrow> 'p" where
  "reader_pool d = (case db_reader d of Some r \<Rightarrow> r | None \<Rightarrow> db_writer d)"

text \<open>\<open>Close\<close> closes the reader, if there is one, then the writer.\<close>

definition close_pools :: "'p db_pools \<Rightarrow> 'p list" where
  "close_pools d = (case db_reader d of Some r \<Rightarrow> [r] | None \<Rightarrow> []) @ [db_writer d]"

section \<open>Projections\<close>

text \<open>The loop of \<open>splitTopLevel\<close>. The state of the scanner: whether the previous byte is a backslash, the
  parenthesis depth, and whether the position is inside quotes.\<close>

type_synonym scan_state = "bool \<times> int \<times> bool"

definition scan_start :: scan_state where
  "scan_start = (False, 0, False)"

definition split_step :: "scan_state \<Rightarrow> char \<Rightarrow> scan_state" where
  "split_step st c = (case st of (esc, depth, quot) \<Rightarrow>
     let esc' = (c = CHR 0x5C) in
     if c = quote_char \<and> \<not> esc then (esc', depth, \<not> quot)
     else if c = CHR ''('' \<and> \<not> quot then (esc', depth + 1, quot)
     else if c = CHR '')'' \<and> \<not> quot then (esc', depth - 1, quot)
     else (esc', depth, quot))"

definition top_comma :: "scan_state \<Rightarrow> char \<Rightarrow> bool" where
  "top_comma st c = (case st of (esc, depth, quot) \<Rightarrow> c = CHR '','' \<and> depth = 0 \<and> \<not> quot)"

fun split_go :: "scan_state \<Rightarrow> string \<Rightarrow> string \<Rightarrow> string list" where
  "split_go st cur [] = (if cur = [] then [] else [cur])"
| "split_go st cur (c # s) =
     (if top_comma st c then cur # split_go (split_step st c) [] s
      else split_go (split_step st c) (cur @ [c]) s)"

definition split_top_level :: "string \<Rightarrow> string list" where
  "split_top_level s = split_go scan_start [] s"

fun index_byte :: "string \<Rightarrow> char \<Rightarrow> nat option" where
  "index_byte [] x = None"
| "index_byte (c # s) x = (if c = x then Some 0 else map_option Suc (index_byte s x))"

definition qualify :: "string \<Rightarrow> string \<Rightarrow> string" where
  "qualify expression alias = (case index_byte expression (CHR ''('') of
       None \<Rightarrow> alias @ ''.'' @ expression
     | Some i \<Rightarrow> take (i + 1) expression @ alias @ ''.'' @ drop (i + 1) expression)"

definition prefix_columns :: "string \<Rightarrow> string \<Rightarrow> string" where
  "prefix_columns columns alias = join_with '', ''
     (map (\<lambda>t. qualify t alias) (filter (\<lambda>t. t \<noteq> []) (map trim_space (split_top_level columns))))"

text \<open>A text with no comma the scanner would split on.\<close>

fun no_top_comma :: "scan_state \<Rightarrow> string \<Rightarrow> bool" where
  "no_top_comma st [] = True"
| "no_top_comma st (c # s) = (\<not> top_comma st c \<and> no_top_comma (split_step st c) s)"

lemma top_comma_step: "top_comma st c \<Longrightarrow> split_step st c = scan_start"
  by (cases st) (simp add: top_comma_def split_step_def scan_start_def quote_char_def Let_def)

lemma no_top_comma_snoc:
  "no_top_comma st (a @ [c]) \<longleftrightarrow> no_top_comma st a \<and> \<not> top_comma (foldl split_step st a) c"
  by (induction a arbitrary: st) auto

lemma split_go_pieces:
  "foldl split_step scan_start cur = st \<Longrightarrow> no_top_comma scan_start cur \<Longrightarrow>
     p \<in> set (split_go st cur s) \<Longrightarrow> no_top_comma scan_start p"
proof (induction st cur s rule: split_go.induct)
  case (1 st cur)
  then show ?case by (simp split: if_splits)
next
  case (2 st cur c s)
  show ?case
  proof (cases "top_comma st c")
    case True
    with "2.prems" "2.IH"(1) top_comma_step [OF True] show ?thesis by auto
  next
    case False
    with "2.prems" "2.IH"(2) show ?thesis by (simp add: no_top_comma_snoc)
  qed
qed

lemma split_go_no_top:
  "no_top_comma st s \<Longrightarrow> split_go st cur s = (if cur @ s = [] then [] else [cur @ s])"
  by (induction st cur s rule: split_go.induct) auto

lemma split_go_join:
  "if split_go st cur s = [] then cur @ s = []
   else cur @ s = join_with '','' (split_go st cur s) \<or>
        cur @ s = join_with '','' (split_go st cur s) @ '',''"
proof (induction st cur s rule: split_go.induct)
  case (1 st cur)
  then show ?case by simp
next
  case (2 st cur c s)
  show ?case
  proof (cases "top_comma st c")
    case True
    then have "c = CHR '',''" by (cases st) (simp add: top_comma_def)
    with "2.IH"(1) [OF True] True show ?thesis
      by (cases "split_go (split_step st c) [] s") auto
  next
    case False
    with "2.IH"(2) [OF False] show ?thesis by (simp split: if_splits)
  qed
qed

text \<open>A column name: visible bytes without quotes, parentheses and commas.\<close>

definition column_char :: "char \<Rightarrow> bool" where
  "column_char x \<longleftrightarrow> visible x \<and> x \<noteq> quote_char \<and> x \<noteq> CHR ''('' \<and> x \<noteq> CHR '')'' \<and> x \<noteq> CHR '',''"

definition plain_column :: "string \<Rightarrow> bool" where
  "plain_column c \<longleftrightarrow> c \<noteq> [] \<and> list_all column_char c"

lemma column_char_step:
  "column_char x \<or> x = CHR '' '' \<Longrightarrow>
     split_step (esc, 0, False) x = (x = CHR 0x5C, 0, False) \<and> \<not> top_comma (esc, 0, False) x"
  by (auto simp: column_char_def split_step_def top_comma_def quote_char_def Let_def)

lemma split_go_plain:
  "list_all column_char c \<Longrightarrow>
     \<exists>esc'. split_go (esc, 0, False) cur (c @ rest) = split_go (esc', 0, False) (cur @ c) rest"
proof (induction c arbitrary: esc cur)
  case Nil
  then show ?case by auto
next
  case (Cons x c)
  then obtain esc' where "split_go (x = CHR 0x5C, 0, False) (cur @ [x]) (c @ rest)
      = split_go (esc', 0, False) ((cur @ [x]) @ c) rest"
    by fastforce
  with Cons.prems column_char_step [of x esc] show ?case by auto
qed

lemma split_plain_columns:
  assumes "cols \<noteq> []" and "\<forall>c \<in> set cols. plain_column c"
  shows "split_go (esc, 0, False) cur (join_with '', '' cols) =
    (cur @ hd cols) # map (Cons (CHR '' '')) (tl cols)"
  using assms
proof (induction cols arbitrary: cur esc)
  case Nil
  then show ?case by simp
next
  case (Cons c cols)
  then have c: "list_all column_char c" "c \<noteq> []" by (auto simp: plain_column_def)
  show ?case
  proof (cases cols)
    case Nil
    obtain esc' where "split_go (esc, 0, False) cur (c @ []) = split_go (esc', 0, False) (cur @ c) []"
      using split_go_plain [OF c(1)] by blast
    with Nil c(2) show ?thesis by simp
  next
    case (Cons d ds)
    have IH: "split_go (False, 0, False) '' '' (join_with '', '' cols) = ('' '' @ d) # map (Cons (CHR '' '')) ds"
      using Cons.IH [of False "'' ''"] Cons.prems Cons by simp
    obtain esc' where "split_go (esc, 0, False) cur (c @ ('', '' @ join_with '', '' cols))
        = split_go (esc', 0, False) (cur @ c) ('', '' @ join_with '', '' cols)"
      using split_go_plain [OF c(1)] by blast
    also have "\<dots> = (cur @ c) # split_go (False, 0, False) '' '' (join_with '', '' cols)"
      using column_char_step [of "CHR '' ''" False] top_comma_step [of "(esc', 0, False)" "CHR '',''"]
      by (simp add: top_comma_def scan_start_def)
    finally show ?thesis using IH Cons by simp
  qed
qed

lemma index_byte_absent: "x \<notin> set s \<Longrightarrow> index_byte s x = None"
  by (induction s) auto

lemma qualify_plain: "plain_column c \<Longrightarrow> qualify c alias = alias @ ''.'' @ c"
proof -
  assume "plain_column c"
  then have "CHR ''('' \<notin> set c" by (auto simp: plain_column_def list_all_iff column_char_def)
  then show ?thesis by (simp add: qualify_def index_byte_absent)
qed

lemma trim_plain_column:
  "plain_column c \<Longrightarrow> trim_space c = c" "plain_column c \<Longrightarrow> trim_space (CHR '' '' # c) = c"
proof -
  have "c \<noteq> [] \<and> visible (hd c) \<and> visible (last c)" if "plain_column c"
    using that hd_in_set [of c] last_in_set [of c]
    by (simp add: plain_column_def list_all_iff column_char_def)
  then show "plain_column c \<Longrightarrow> trim_space c = c"
    "plain_column c \<Longrightarrow> trim_space (CHR '' '' # c) = c"
    using trim_space_visible by blast+
qed

section \<open>The test schema guard\<close>

text \<open>\<open>ResetTestSchema\<close>: the server's answers to its statements are the functions and options of
  \<open>schema_env\<close>; \<open>uni\<close> is the Unicode lower case table.\<close>

record schema_db =
  sc_name :: string
  sc_tables :: "string list"
  sc_fk_checks :: bool

record schema_env =
  se_name_err :: "go_error option"
  se_fk_off_err :: "go_error option"
  se_fk_on_err :: "go_error option"
  se_list_err :: "go_error option"
  se_drop_err :: "string \<Rightarrow> go_error option"

fun drop_tables :: "(string \<Rightarrow> go_error option) \<Rightarrow> string list \<Rightarrow> schema_db \<Rightarrow> go_error option \<times> schema_db" where
  "drop_tables err [] db = (None, db)"
| "drop_tables err (t # ts) db = (case err t of
       Some e \<Rightarrow> (Some (wrap_err (''drop '' @ t) e), db)
     | None \<Rightarrow> drop_tables err ts (db\<lparr>sc_tables := filter (\<lambda>u. u \<noteq> t) (sc_tables db)\<rparr>))"

definition is_test_schema :: "(string \<Rightarrow> string) \<Rightarrow> string \<Rightarrow> bool" where
  "is_test_schema uni name = contains_sub (to_lower uni name) ''test''"

definition reset_test_schema :: "(string \<Rightarrow> string) \<Rightarrow> schema_env \<Rightarrow> schema_db \<Rightarrow> go_error option \<times> schema_db" where
  "reset_test_schema uni env db = (case se_name_err env of
       Some e \<Rightarrow> (Some (wrap_err ''determine current schema'' e), db)
     | None \<Rightarrow>
        if \<not> is_test_schema uni (sc_name db) then (Some (new_err (''refusing to reset '' @ sc_name db)), db)
        else (case se_fk_off_err env of
          Some e \<Rightarrow> (Some e, db)
        | None \<Rightarrow>
           (let db1 = db\<lparr>sc_fk_checks := False\<rparr>;
                (r, db2) = (case se_list_err env of
                    Some e \<Rightarrow> (Some e, db1)
                  | None \<Rightarrow> drop_tables (se_drop_err env) (sc_tables db1) db1)
            in (r, if se_fk_on_err env = None then db2\<lparr>sc_fk_checks := True\<rparr> else db2))))"

lemma drop_tables_ok:
  "drop_tables err ts db = (None, db') \<Longrightarrow> sc_tables db' = filter (\<lambda>t. t \<notin> set ts) (sc_tables db)"
proof (induction err ts db arbitrary: db' rule: drop_tables.induct)
  case (2 err t ts db)
  then have "sc_tables db' = filter (\<lambda>u. u \<notin> set ts) (filter (\<lambda>u. u \<noteq> t) (sc_tables db))"
    by (auto split: option.splits)
  also have "\<dots> = filter (\<lambda>u. u \<notin> set (t # ts)) (sc_tables db)" by (simp add: conj_commute)
  finally show ?case .
qed (simp add: filter_id_conv)

section \<open>Properties\<close>

text \<open>C5. \<open>InTx\<close> is atomic when the server never reports as failed a commit it applied (\<open>in_tx_lost_ack_applies_twice\<close>
  is what happens when it does): the result is nil exactly with the state that one run of the body left, in one of at
  most four attempts, on top of what other sessions had committed before that attempt; with any other result (an
  error or a panic) the database holds what the other sessions committed, and nothing of the body. Variables the
  body captured are not restored.\<close>

theorem in_tx_atomic:
  assumes "honest_commits envs" and "in_tx op envs fn (db, l) = (r, db', l', ws)"
  shows "if r = TxOk then \<exists>k l0. 1 \<le> k \<and> k \<le> 4 \<and> fn k (others_until envs k db, l0) = (TxOk, db', l')
    else \<exists>k \<le> 4. db' = others_until envs k db"
proof -
  have "tx_loop op envs fn 4 1 (new_err []) (db, l) = (r, db', l', ws)" using assms(2) by (simp add: in_tx_def max_tx_attempts_def)
  note t = tx_loop_atomic [OF assms(1) order_refl this]
  have four: "k < 1 + 4 \<longleftrightarrow> k \<le> 4" for k :: nat by auto
  show ?thesis using t unfolding four others_until_def .
qed

theorem in_tx_atomic_witness:
  "fst (snd (in_tx ''credit'' (\<lambda>n. if n = 1 then calm_env\<lparr>te_commit := CommitError (MySQLError 1213 ''deadlock'') False\<rparr> else calm_env)
     (\<lambda>n (d, l). (TxOk, d + 1, l)) (41 :: int, ()))) = 42"
proof -
  define envs :: "nat \<Rightarrow> int tx_env" where
    "envs = (\<lambda>n. if n = 1 then calm_env\<lparr>te_commit := CommitError (MySQLError 1213 ''deadlock'') False\<rparr> else calm_env)"
  define fn :: "(int, unit) tx_fn" where "fn = (\<lambda>n (d, l). (TxOk, d + 1, l))"
  have h: "honest_commits envs" by (auto simp: honest_commits_def envs_def calm_env_def)
  obtain r db' l' ws where x: "in_tx ''credit'' envs fn (41, ()) = (r, db', l', ws)"
    by (cases "in_tx ''credit'' envs fn (41, ())") auto
  have "r = TxOk"
    using x by (simp add: in_tx_def max_tx_attempts_def eval_nat_numeral run_tx_def envs_def fn_def
        calm_env_def is_retryable_def number_defs err_simps split_beta)
  moreover have "others_until envs k d = d" for k d
    by (induction k) (simp_all add: others_until_def envs_def calm_env_def)
  ultimately have "db' = 42" using in_tx_atomic [OF h x] by (auto simp: fn_def)
  with x show ?thesis by (simp add: envs_def fn_def)
qed

text \<open>C19. An applied commit whose acknowledgement is lost runs the body twice: if the server commits the
  first attempt and the driver reports \<open>ErrInvalidConn\<close>, which \<open>IsRetryable\<close> takes to mean that the
  transaction was rolled back, \<open>InTx\<close> returns nil after the body has been applied two times.\<close>

theorem in_tx_lost_ack_applies_twice:
  assumes "te_commit (envs 1) = CommitError err_invalid_conn True" and "te_commit (envs 2) = CommitOk"
    and "\<forall>n. te_begin (envs n) = None \<and> te_ctx_err (envs n) = None \<and> te_wait_err (envs n) = None"
    and "alone envs" and "\<forall>n st. fst (fn n st) = TxOk"
  shows "in_tx op envs fn (db, l) = (case fn 1 (db, l) of
    (_, db1, l1) \<Rightarrow> (case fn 2 (db1, l1) of (_, db2, l2) \<Rightarrow> (TxOk, db2, l2, [backoff 1])))"
proof -
  obtain db1 l1 where 1: "fn 1 (db, l) = (TxOk, db1, l1)"
    using assms(5) by (metis prod.collapse)
  obtain db2 l2 where 2: "fn 2 (db1, l1) = (TxOk, db2, l2)"
    using assms(5) by (metis prod.collapse)
  have "is_retryable (wrap_err m err_invalid_conn)" for m
    by (simp only: err_simps) (simp add: is_retryable_def err_invalid_conn_def)
  then show ?thesis
    using assms 1 2
    by (simp add: in_tx_def max_tx_attempts_def eval_nat_numeral run_tx_def alone_def)
qed

theorem in_tx_lost_ack_applies_twice_witness:
  "fst (snd (in_tx ''credit''
     (\<lambda>n. if n = 1 then calm_env\<lparr>te_commit := CommitError err_invalid_conn True\<rparr> else calm_env)
     (\<lambda>n (d, l). (TxOk, d + 10, l)) (100 :: int, ()))) = 120"
proof -
  let ?envs = "\<lambda>n :: nat. if n = 1 then calm_env\<lparr>te_commit := CommitError err_invalid_conn True\<rparr>
    else calm_env :: int tx_env"
  let ?fn = "\<lambda>n :: nat. \<lambda>(d, l). (TxOk, d + 10, l)"
  have "in_tx ''credit'' ?envs ?fn (100, ()) = (case ?fn 1 (100, ()) of
      (_, db1, l1) \<Rightarrow> (case ?fn 2 (db1, l1) of (_, db2, l2) \<Rightarrow> (TxOk, db2, l2, [backoff 1])))"
    by (rule in_tx_lost_ack_applies_twice) (auto simp: calm_env_def alone_def)
  then show ?thesis by simp
qed

text \<open>A body that counts its runs in a captured variable.\<close>

definition counted :: "('db, 'l) tx_fn \<Rightarrow> ('db, 'l \<times> nat) tx_fn" where
  "counted fn n st = (case st of (db, l, runs) \<Rightarrow> (case fn n (db, l) of (r, db', l') \<Rightarrow> (r, db', l', Suc runs)))"

lemma run_tx_counted:
  "run_tx op env (counted fn n) (db, l, c) =
     (case run_tx op env (fn n) (db, l) of (r, db', l') \<Rightarrow> (r, db', l', if te_begin env = None then Suc c else c))"
  by (auto simp: run_tx_def counted_def Let_def split: option.splits prod.splits tx_result.splits commit_outcome.splits)

lemma tx_loop_counted:
  "tx_loop op envs (counted fn) n a le (db, l, c) = (r, db', (l', runs), ws) \<Longrightarrow>
     tx_loop op envs fn n a le (db, l) = (r, db', l', ws) \<and> runs \<le> c + n \<and> runs \<le> c + length ws + 1"
proof (induction n arbitrary: a le db l c ws)
  case (Suc n)
  obtain r1 db1 l1 where run: "run_tx op (envs a) (fn a) (db, l) = (r1, db1, l1)"
    by (cases "run_tx op (envs a) (fn a) (db, l)") auto
  define c1 where "c1 = (if te_begin (envs a) = None then Suc c else c)"
  have c1: "c1 \<le> Suc c" by (simp add: c1_def)
  have crun: "run_tx op (envs a) (counted fn a) (db, l, c) = (r1, db1, l1, c1)" by (simp add: run_tx_counted run c1_def)
  show ?case
  proof (cases "\<exists>e. r1 = TxErr e \<and> is_retryable e \<and> te_ctx_err (envs a) = None \<and> te_wait_err (envs a) = None")
    case True
    then obtain e ws' where e: "r1 = TxErr e" "is_retryable e" "te_ctx_err (envs a) = None" "te_wait_err (envs a) = None"
      and rest: "tx_loop op envs (counted fn) n (Suc a) e (db1, l1, c1) = (r, db', (l', runs), ws')" and ws: "ws = backoff a # ws'"
      using Suc.prems crun by (auto split: prod.splits)
    from Suc.IH [OF rest] c1 run e show ?thesis by (simp add: ws)
  next
    case False
    with Suc.prems crun run c1 show ?thesis by (auto split: tx_result.splits if_splits option.splits)
  qed
qed simp

lemma tx_loop_envs:
  "(\<And>k. a \<le> k \<Longrightarrow> k < a + n \<Longrightarrow> envs' k = envs k) \<Longrightarrow> tx_loop op envs' fn n a le st = tx_loop op envs fn n a le st"
proof (induction n arbitrary: a le st)
  case 0
  show ?case by (cases st) simp
next
  case (Suc n)
  have "envs' a = envs a" using Suc.prems [of a] by simp
  moreover have "tx_loop op envs' fn n (Suc a) e st' = tx_loop op envs fn n (Suc a) e st'" for e st'
    by (rule Suc.IH) (use Suc.prems in simp)
  ultimately show ?case by (cases "run_tx op (envs a) (fn a) st"; cases "fst (run_tx op (envs a) (fn a) st)")
      (simp_all split: option.split)
qed

text \<open>C40. \<open>InTx\<close> begins at most four transactions, whatever the server answers: no answer after the fourth attempt
  is ever asked for. It runs the body at most four times, once more than it waited at most, which is seen by a
  counter the body keeps and does not otherwise change the outcome; and it waits at most 450 milliseconds in all.\<close>

theorem in_tx_bounded:
  assumes "in_tx op envs (counted fn) (db, (l, 0)) = (r, db', (l', runs), ws)"
  shows "in_tx op envs fn (db, l) = (r, db', l', ws) \<and> runs \<le> 4 \<and> runs \<le> length ws + 1 \<and> sum_list ws \<le> 450 * millisecond \<and>
    (\<forall>envs'. (\<forall>k. 1 \<le> k \<and> k \<le> 4 \<longrightarrow> envs' k = envs k) \<longrightarrow> in_tx op envs' fn (db, l) = (r, db', l', ws))"
proof -
  have "tx_loop op envs (counted fn) 4 1 (new_err []) (db, l, 0) = (r, db', (l', runs), ws)"
    using assms by (simp add: in_tx_def max_tx_attempts_def)
  from tx_loop_counted [OF this] have loop: "tx_loop op envs fn 4 1 (new_err []) (db, l) = (r, db', l', ws)"
    and runs: "runs \<le> 4" "runs \<le> length ws + 1" by simp_all
  from tx_loop_waits [OF loop] have n: "length ws \<le> 4" and w: "ws = map backoff [1..<1 + length ws]" by auto
  from n consider "length ws = 0" | "length ws = 1" | "length ws = 2" | "length ws = 3" | "length ws = 4"
    by linarith
  then have "sum_list (map backoff [1..<1 + length ws]) \<le> 450 * millisecond"
    by cases (simp_all add: backoff_def millisecond_def upt_rec)
  then have "sum_list ws \<le> 450 * millisecond" using w by metis
  moreover have "in_tx op envs' fn (db, l) = (r, db', l', ws)" if "\<forall>k. 1 \<le> k \<and> k \<le> 4 \<longrightarrow> envs' k = envs k" for envs'
    using tx_loop_envs [of 1 4 envs' envs op fn "new_err []" "(db, l)"] that loop by (simp add: in_tx_def max_tx_attempts_def)
  ultimately show ?thesis using loop runs by (simp add: in_tx_def max_tx_attempts_def)
qed

text \<open>A body that always meets a lock wait runs four times.\<close>

theorem in_tx_bounded_witness:
  "\<exists>r ws. in_tx ''x'' (\<lambda>n. calm_env) (counted (\<lambda>n (d, l). (TxErr (MySQLError 1205 ''lock wait''), d, l))) (0 :: int, ((), 0)) =
     (r, 0, ((), 4), ws) \<and> sum_list ws \<le> 450 * millisecond"
proof -
  let ?fn = "\<lambda>n (d, l). (TxErr (MySQLError 1205 ''lock wait''), d, l)"
  obtain r ws where x: "in_tx ''x'' (\<lambda>n. calm_env) (counted ?fn) (0 :: int, ((), 0)) = (r, 0, ((), 4), ws)"
    by (simp add: in_tx_def max_tx_attempts_def eval_nat_numeral run_tx_def counted_def calm_env_def is_retryable_def number_defs)
  from in_tx_bounded [OF x] x show ?thesis by blast
qed

text \<open>\<open>DuplicateIndex\<close> recovers the index name from the server's message, whatever the duplicated value
  is, for a table and an index without blanks and an index without a dot; wrapping the error changes
  nothing.\<close>

theorem duplicate_index_exact:
  assumes "CHR '' '' \<notin> set tbl" and "CHR '' '' \<notin> set idx" and "CHR ''.'' \<notin> set idx"
  shows "duplicate_index (wrap_err ctx (MySQLError 1062
    (''Duplicate entry '' @ [quote_char] @ v @ [quote_char] @ '' '' @ key_marker @ tbl @ ''.'' @ idx @ [quote_char]))) = idx"
  using duplicate_index_message [OF assms, of "''Duplicate entry '' @ [quote_char] @ v @ [quote_char] @ '' ''"]
  by (simp add: err_simps)

theorem duplicate_index_exact_witness:
  "duplicate_index (wrap_err ''claim'' (MySQLError 1062
    (''Duplicate entry '' @ [quote_char] @ ''x'' @ [quote_char] @ '' '' @ key_marker @ ''users'' @ ''.'' @ ''uq_email'' @ [quote_char]))) = ''uq_email''"
  by (rule duplicate_index_exact) simp_all

text \<open>\<open>splitTopLevel\<close> loses nothing but one trailing comma and splits completely: joining the parts with
  commas gives the input back, or the input without its last comma, and no part can be split again.\<close>

theorem split_top_level_correct:
  "(if split_top_level s = [] then s = []
    else s = join_with '','' (split_top_level s) \<or> s = join_with '','' (split_top_level s) @ '','') \<and>
   (\<forall>p \<in> set (split_top_level s). split_top_level p = (if p = [] then [] else [p]))"
proof -
  have "split_top_level p = (if p = [] then [] else [p])" if "p \<in> set (split_top_level s)" for p
    using split_go_pieces [of "[]" scan_start p s] split_go_no_top [of scan_start p "[]"] that
    by (simp add: split_top_level_def)
  then show ?thesis
    using split_go_join [of scan_start "[]" s] by (simp add: split_top_level_def split: if_splits)
qed

theorem split_top_level_correct_witness:
  "split_top_level ''id, COALESCE(a, b), c'' = [''id'', '' COALESCE(a, b)'', '' c''] \<and>
   split_top_level '' COALESCE(a, b)'' = ['' COALESCE(a, b)'']"
proof -
  have "split_top_level ''id, COALESCE(a, b), c'' = [''id'', '' COALESCE(a, b)'', '' c'']"
    by (simp add: split_top_level_def scan_start_def split_step_def top_comma_def quote_char_def)
  then show ?thesis using split_top_level_correct [of "''id, COALESCE(a, b), c''"] by simp
qed

text \<open>\<open>PrefixColumns\<close> qualifies every column of a plain column list with the alias.\<close>

theorem prefix_columns_plain:
  assumes "\<forall>c \<in> set cols. plain_column c"
  shows "prefix_columns (join_with '', '' cols) alias =
    join_with '', '' (map (\<lambda>c. alias @ ''.'' @ c) cols)"
proof (cases cols)
  case Nil
  then show ?thesis by (simp add: prefix_columns_def split_top_level_def)
next
  case (Cons c cs)
  have ne: "\<forall>d \<in> set cols. d \<noteq> []" using assms by (simp add: plain_column_def)
  have "split_top_level (join_with '', '' cols) = c # map (Cons (CHR '' '')) cs"
    using split_plain_columns [of cols False "[]"] assms Cons by (simp add: split_top_level_def scan_start_def)
  then have "map trim_space (split_top_level (join_with '', '' cols)) = cols"
    using assms Cons by (simp add: trim_plain_column map_idI)
  then have "prefix_columns (join_with '', '' cols) alias
      = join_with '', '' (map (\<lambda>t. qualify t alias) cols)"
    using ne by (simp add: prefix_columns_def filter_id_conv)
  also have "map (\<lambda>t. qualify t alias) cols = map (\<lambda>c. alias @ ''.'' @ c) cols"
    using assms by (simp add: qualify_plain)
  finally show ?thesis .
qed

theorem prefix_columns_plain_witness:
  "prefix_columns ''id, title'' ''c'' = ''c.id, c.title''"
proof -
  have "\<forall>c \<in> set [''id'', ''title'']. plain_column c"
    by (simp add: plain_column_def column_char_def visible_def byte_val_def quote_char_def)
  from prefix_columns_plain [OF this, of "''c''"] show ?thesis by simp
qed

text \<open>\<open>ResetTestSchema\<close> touches nothing unless the schema's name contains the word test, and when it
  returns nil no table of the schema is left.\<close>

theorem reset_guard:
  "(\<not> is_test_schema uni (sc_name db) \<longrightarrow> (\<exists>e. reset_test_schema uni env db = (Some e, db))) \<and>
   (fst (reset_test_schema uni env db) = None \<longrightarrow> sc_tables (snd (reset_test_schema uni env db)) = [])"
proof (cases "is_test_schema uni (sc_name db)")
  case False
  then show ?thesis by (auto simp: reset_test_schema_def split: option.splits)
next
  case True
  have "sc_tables db' = []" if "drop_tables err (sc_tables db) (db\<lparr>sc_fk_checks := False\<rparr>) = (None, db')" for err db'
    using drop_tables_ok [OF that] by (simp add: filter_empty_conv)
  with True show ?thesis
    by (auto simp: reset_test_schema_def Let_def split_beta split: option.splits)
      (metis prod.collapse)+
qed

definition sample_schema_env :: schema_env where
  "sample_schema_env = \<lparr>se_name_err = None, se_fk_off_err = None, se_fk_on_err = None,
     se_list_err = None, se_drop_err = (\<lambda>_. None)\<rparr>"

theorem reset_guard_witness:
  "\<exists>e. reset_test_schema (\<lambda>s. s) sample_schema_env \<lparr>sc_name = ''moribox'', sc_tables = [''users''], sc_fk_checks = True\<rparr>
     = (Some e, \<lparr>sc_name = ''moribox'', sc_tables = [''users''], sc_fk_checks = True\<rparr>)"
proof -
  let ?db = "\<lparr>sc_name = ''moribox'', sc_tables = [''users''], sc_fk_checks = True\<rparr>"
  have "\<not> is_test_schema (\<lambda>s. s) (sc_name ?db)"
    by (simp add: is_test_schema_def to_lower_def is_ascii_def ascii_lower_def byte_val_def)
  with reset_guard [of "\<lambda>s. s" ?db sample_schema_env] show ?thesis by blast
qed

text \<open>The guard looks for the four letters anywhere in the name: a schema called \<open>latest\<close> is emptied.\<close>

lemma reset_accepts_latest:
  "reset_test_schema (\<lambda>s. s) sample_schema_env \<lparr>sc_name = ''latest'', sc_tables = [''users''], sc_fk_checks = True\<rparr>
     = (None, \<lparr>sc_name = ''latest'', sc_tables = [], sc_fk_checks = True\<rparr>)"
  by (simp add: reset_test_schema_def sample_schema_env_def is_test_schema_def to_lower_def
      is_ascii_def ascii_lower_def byte_val_def)

end
