(* ===== verification/Idempotency_Store.thy ===== *)
theory Idempotency_Store
  imports Ids Database
begin

text \<open>
  \<open>src/idempotency/store.go\<close>: the table of idempotency records and the operations of \<open>Store\<close>, and the
  request digests. A table is the list of its rows; its unique index is on the actor scope and the key.
  Each SQL statement of the source is one table operation (\<open>idem_insert\<close>, \<open>idem_find\<close>,
  \<open>idem_update\<close>); what the server does to it is an input (\<open>begin_env\<close>, \<open>stmt_fault\<close>). Times are
  stored as they are given; the precision of the columns is not modelled.

  \<open>begin_refines\<close> relates \<open>Begin\<close> to an abstract claim on one key. The transaction of \<open>Begin\<close>
  interprets the locale \<open>tx_body\<close>.
\<close>

section \<open>The table\<close>

definition state_in_progress :: string where "state_in_progress = ''IN_PROGRESS''"
definition state_completed :: string where "state_completed = ''COMPLETED''"
definition state_failed :: string where "state_failed = ''FAILED_RETRYABLE''"

lemmas idem_states = state_in_progress_def state_completed_def state_failed_def

record idem_row =
  ir_id :: sql_value
  ir_scope :: string
  ir_key :: string
  ir_route :: string
  ir_hash :: string
  ir_state :: string
  ir_status :: "int option"
  ir_body :: "string option"
  ir_resource :: sql_value
  ir_created :: go_time
  ir_updated :: go_time
  ir_expires :: go_time

record idem_record =
  rc_id :: ID
  rc_scope :: string
  rc_key :: string
  rc_route :: string
  rc_hash :: string
  rc_state :: string
  rc_status :: int
  rc_body :: string
  rc_resource :: id_opt
  rc_created :: go_time
  rc_expires :: go_time

type_synonym idem_db = "idem_row list"

definition idem_matches :: "string \<Rightarrow> string \<Rightarrow> idem_row \<Rightarrow> bool" where
  "idem_matches scope key r \<longleftrightarrow> ir_scope r = scope \<and> ir_key r = key"

definition idem_find :: "string \<Rightarrow> string \<Rightarrow> idem_db \<Rightarrow> idem_row option" where
  "idem_find scope key db = List.find (idem_matches scope key) db"

definition idem_insert :: "idem_row \<Rightarrow> idem_db \<Rightarrow> go_error + idem_db" where
  "idem_insert r db =
     (if list_ex (idem_matches (ir_scope r) (ir_key r)) db then Inl (MySQLError 1062 ''Duplicate entry'')
      else Inr (db @ [r]))"

definition idem_update :: "string \<Rightarrow> string \<Rightarrow> (idem_row \<Rightarrow> idem_row) \<Rightarrow> idem_db \<Rightarrow> idem_db" where
  "idem_update scope key f db = map (\<lambda>r. if idem_matches scope key r then f r else r) db"

text \<open>\<open>rows.Scan\<close> into a \<open>Record\<close>.\<close>

definition scan_record :: "ulid_codec \<Rightarrow> idem_row \<Rightarrow> go_error + idem_record" where
  "scan_record uc r = (case id_scan uc (ir_id r) of
       Inl e \<Rightarrow> Inl e
     | Inr i \<Rightarrow> (case opt_scan uc (ir_resource r) of
         Inl e \<Rightarrow> Inl e
       | Inr x \<Rightarrow> Inr \<lparr>rc_id = i, rc_scope = ir_scope r, rc_key = ir_key r, rc_route = ir_route r,
           rc_hash = ir_hash r, rc_state = ir_state r,
           rc_status = (case ir_status r of Some n \<Rightarrow> n | None \<Rightarrow> 0),
           rc_body = (case ir_body r of Some b \<Rightarrow> b | None \<Rightarrow> []),
           rc_resource = x, rc_created = ir_created r, rc_expires = ir_expires r\<rparr>))"

section \<open>Begin\<close>

definition err_conflict :: go_error where
  "err_conflict = Sentinel ''idempotency key reused with a different request''"
definition err_in_progress :: go_error where
  "err_in_progress = Sentinel ''an identical request is already in progress''"

definition store_ttl :: "duration \<Rightarrow> duration" where
  "store_ttl ttl = (if ttl \<le> 0 then 24 * hour else ttl)"

record begin_req =
  bq_now :: go_time
  bq_ttl :: duration
  bq_scope :: string
  bq_key :: string
  bq_route :: string
  bq_hash :: string

record begin_env =
  be_ids :: "nat \<Rightarrow> ID"
  be_insert :: stmt_fault
  be_select :: "nat \<Rightarrow> go_error option"
  be_reinsert :: "nat \<Rightarrow> go_error option"
  be_claim :: "nat \<Rightarrow> go_error option"
  be_envs :: "nat \<Rightarrow> idem_db tx_env"

definition fresh_row :: "begin_req \<Rightarrow> ID \<Rightarrow> idem_row" where
  "fresh_row q i = \<lparr>ir_id = id_value i, ir_scope = bq_scope q, ir_key = bq_key q, ir_route = bq_route q,
     ir_hash = bq_hash q, ir_state = state_in_progress, ir_status = None, ir_body = None,
     ir_resource = SqlNull, ir_created = bq_now q, ir_updated = bq_now q,
     ir_expires = bq_now q + bq_ttl q\<rparr>"

definition claim_row :: "begin_req \<Rightarrow> idem_row \<Rightarrow> idem_row" where
  "claim_row q r = r\<lparr>ir_route := bq_route q, ir_hash := bq_hash q, ir_state := state_in_progress,
     ir_status := None, ir_body := None, ir_resource := SqlNull, ir_created := bq_now q,
     ir_updated := bq_now q, ir_expires := bq_now q + bq_ttl q\<rparr>"

text \<open>The captured variables of \<open>Begin\<close>: \<open>record\<close> and \<open>owned\<close>.\<close>

type_synonym begin_vars = "idem_record option \<times> bool"

definition take_ownership :: "begin_req \<Rightarrow> go_error option \<Rightarrow> idem_db \<times> begin_vars \<Rightarrow> tx_result \<times> idem_db \<times> begin_vars" where
  "take_ownership q fault st =
     (let (db, found, owned) = st
      in case fault of
           Some e \<Rightarrow> (TxErr e, db, found, owned)
         | None \<Rightarrow> (TxOk, idem_update (bq_scope q) (bq_key q) (claim_row q) db, found, True))"

definition begin_decide :: "begin_req \<Rightarrow> go_error option \<Rightarrow> idem_record \<Rightarrow> idem_db \<times> begin_vars \<Rightarrow> tx_result \<times> idem_db \<times> begin_vars" where
  "begin_decide q fault r st =
     (let (db, found, owned) = st
      in if rc_expires r < bq_now q then take_ownership q fault st
         else if rc_hash r \<noteq> bq_hash q then (TxErr err_conflict, st)
         else if rc_state r = state_completed then (TxOk, db, Some r, owned)
         else if rc_state r = state_failed then take_ownership q fault st
         else (TxErr err_in_progress, st))"

definition select_record :: "ulid_codec \<Rightarrow> go_error option \<Rightarrow> string \<Rightarrow> string \<Rightarrow> idem_db \<Rightarrow> go_error + idem_record" where
  "select_record uc fault scope key db = (case fault of
       Some e \<Rightarrow> Inl e
     | None \<Rightarrow> (case idem_find scope key db of
         None \<Rightarrow> Inl err_no_rows
       | Some r \<Rightarrow> scan_record uc r))"

definition begin_body :: "ulid_codec \<Rightarrow> begin_req \<Rightarrow> begin_env \<Rightarrow> (idem_db, begin_vars) tx_fn" where
  "begin_body uc q env n st =
     (let (db, found, owned) = st
      in case select_record uc (be_select env n) (bq_scope q) (bq_key q) db of
           Inl e \<Rightarrow>
             if is_no_rows e then
               (case be_reinsert env n of
                  Some e2 \<Rightarrow> (TxErr e2, st)
                | None \<Rightarrow> (case idem_insert (fresh_row q (be_ids env n)) db of
                    Inl e2 \<Rightarrow> (TxErr e2, st)
                  | Inr db' \<Rightarrow> (TxOk, db', found, True)))
             else (TxErr (wrap_err ''load idempotency record'' e), st)
         | Inr r \<Rightarrow> begin_decide q (be_claim env n) r st)"

text \<open>\<open>Begin\<close>. \<open>TxOk\<close> with no record means that the caller owns the key.\<close>

definition begin_claim :: "ulid_codec \<Rightarrow> begin_req \<Rightarrow> begin_env \<Rightarrow> idem_db \<Rightarrow> tx_result \<times> idem_record option \<times> idem_db" where
  "begin_claim uc q env db =
     (case exec_stmt (be_insert env) (idem_insert (fresh_row q (be_ids env 0))) db of
        (None, db') \<Rightarrow> (TxOk, None, db')
      | (Some e, db') \<Rightarrow>
          if \<not> is_duplicate e then (TxErr (wrap_err ''claim idempotency key'' e), None, db')
          else (case in_tx ''idempotency_begin'' (be_envs env) (begin_body uc q env) (db', None, False) of
              (TxOk, db2, (found, owned), _) \<Rightarrow> (TxOk, if owned then None else found, db2)
            | (r, db2, _, _) \<Rightarrow> (r, None, db2)))"

section \<open>The other operations\<close>

definition load_record :: "ulid_codec \<Rightarrow> go_error option \<Rightarrow> string \<Rightarrow> string \<Rightarrow> idem_db \<Rightarrow> go_error + idem_record option" where
  "load_record uc fault scope key db = (case select_record uc fault scope key db of
       Inl e \<Rightarrow> if is_no_rows e then Inr None else Inl (wrap_err ''load idempotency record'' e)
     | Inr r \<Rightarrow> Inr (Some r))"

definition complete_row :: "go_time \<Rightarrow> int \<Rightarrow> string option \<Rightarrow> id_opt \<Rightarrow> idem_row \<Rightarrow> idem_row" where
  "complete_row now status body resource r = r\<lparr>ir_state := state_completed, ir_status := Some status,
     ir_body := body, ir_resource := opt_value resource, ir_updated := now\<rparr>"

definition complete_stmt :: "go_time \<Rightarrow> string \<Rightarrow> string \<Rightarrow> int \<Rightarrow> string option \<Rightarrow> id_opt \<Rightarrow> idem_db \<Rightarrow> idem_db" where
  "complete_stmt now scope key status body resource db =
     idem_update scope key (complete_row now status body resource) db"

definition complete_record :: "stmt_fault \<Rightarrow> go_time \<Rightarrow> string \<Rightarrow> string \<Rightarrow> int \<Rightarrow> string option \<Rightarrow> id_opt \<Rightarrow> idem_db
    \<Rightarrow> go_error option \<times> idem_db" where
  "complete_record fault now scope key status body resource db =
     (case exec_stmt fault (\<lambda>d. Inr (complete_stmt now scope key status body resource d)) db of
        (Some e, db') \<Rightarrow> (Some (wrap_err ''complete idempotency record'' e), db')
      | (None, db') \<Rightarrow> (None, db'))"

definition complete_tx :: "go_error option \<Rightarrow> go_time \<Rightarrow> string \<Rightarrow> string \<Rightarrow> int \<Rightarrow> string option \<Rightarrow> id_opt \<Rightarrow> idem_db
    \<Rightarrow> go_error option \<times> idem_db" where
  "complete_tx fault now scope key status body resource db = (case fault of
       Some e \<Rightarrow> (Some e, db)
     | None \<Rightarrow> (None, complete_stmt now scope key status body resource db))"

definition fail_row :: "go_time \<Rightarrow> idem_row \<Rightarrow> idem_row" where
  "fail_row now r = (if ir_state r = state_in_progress then r\<lparr>ir_state := state_failed, ir_updated := now\<rparr> else r)"

definition fail_record :: "stmt_fault \<Rightarrow> go_time \<Rightarrow> string \<Rightarrow> string \<Rightarrow> idem_db \<Rightarrow> go_error option \<times> idem_db" where
  "fail_record fault now scope key db = exec_stmt fault (\<lambda>d. Inr (idem_update scope key (fail_row now) d)) db"

text \<open>\<open>DELETE ... LIMIT\<close> without an order: the server chooses which expired rows go, in the order of
  \<open>pick\<close> (a permutation of the table).\<close>

definition purge_records :: "stmt_fault \<Rightarrow> (idem_db \<Rightarrow> idem_db) \<Rightarrow> go_time \<Rightarrow> nat \<Rightarrow> idem_db \<Rightarrow> (go_error + nat) \<times> idem_db" where
  "purge_records fault pick now limit db =
     (let gone = take limit (filter (\<lambda>r. ir_expires r < now) (pick db));
          (res, db') = exec_stmt fault (\<lambda>d. Inr (filter (\<lambda>r. r \<notin> set gone) d)) db
      in (case res of Some e \<Rightarrow> Inl e | None \<Rightarrow> Inr (length gone), db'))"

section \<open>Digests\<close>

definition request_preimage :: "(string \<Rightarrow> string option) \<Rightarrow> string \<Rightarrow> string \<Rightarrow> string \<Rightarrow> string" where
  "request_preimage num scope route body =
     scope @ [CHR 0x00] @ route @ [CHR 0x00] @ canonical_json num body"

definition request_hash :: "(string \<Rightarrow> string) \<Rightarrow> (string \<Rightarrow> string option) \<Rightarrow> string \<Rightarrow> string \<Rightarrow> string \<Rightarrow> string" where
  "request_hash sha num scope route body = hex_encode (sha (request_preimage num scope route body))"

definition canonical_hash :: "(string \<Rightarrow> string) \<Rightarrow> (string \<Rightarrow> string option) \<Rightarrow> string \<Rightarrow> string" where
  "canonical_hash sha num body = hex_encode (sha (canonical_json num body))"

section \<open>Table lemmas\<close>

definition unique_keys :: "idem_db \<Rightarrow> bool" where
  "unique_keys db \<longleftrightarrow> distinct (map (\<lambda>r. (ir_scope r, ir_key r)) db)"

definition idem_abs :: "idem_db \<Rightarrow> string \<times> string \<Rightarrow> idem_row option" where
  "idem_abs db = (\<lambda>(s, k). idem_find s k db)"

lemma idem_find_Nil [simp]: "idem_find s k [] = None"
  by (simp add: idem_find_def)

lemma idem_find_Cons: "idem_find s k (r # db) = (if idem_matches s k r then Some r else idem_find s k db)"
  by (simp add: idem_find_def)

lemma idem_find_append: "idem_find s k (xs @ ys) = (case idem_find s k xs of Some r \<Rightarrow> Some r | None \<Rightarrow> idem_find s k ys)"
  by (induction xs) (simp_all add: idem_find_Cons)

lemma idem_find_matches: "idem_find s k db = Some r \<Longrightarrow> r \<in> set db \<and> ir_scope r = s \<and> ir_key r = k"
  by (induction db) (auto simp: idem_find_Cons idem_matches_def split: if_splits)

lemma list_ex_matches: "list_ex (idem_matches s k) db \<longleftrightarrow> idem_find s k db \<noteq> None"
  by (induction db) (auto simp: idem_find_Cons)

lemma idem_insert_cases:
  "idem_insert r db = (case idem_find (ir_scope r) (ir_key r) db of
     Some _ \<Rightarrow> Inl (MySQLError 1062 ''Duplicate entry'') | None \<Rightarrow> Inr (db @ [r]))"
  by (auto simp: idem_insert_def list_ex_matches split: option.split)

definition keeps_key :: "(idem_row \<Rightarrow> idem_row) \<Rightarrow> bool" where
  "keeps_key f \<longleftrightarrow> (\<forall>r. ir_scope (f r) = ir_scope r \<and> ir_key (f r) = ir_key r)"

lemma keeps_key_steps [simp]:
  "keeps_key (claim_row q)" "keeps_key (complete_row now status body resource)" "keeps_key (fail_row now)"
  by (simp_all add: keeps_key_def claim_row_def complete_row_def fail_row_def)

lemma idem_find_update [table_simps]:
  "keeps_key f \<Longrightarrow> idem_find s k (idem_update s' k' f db) =
     (if s = s' \<and> k = k' then map_option f (idem_find s k db) else idem_find s k db)"
  by (induction db) (auto simp: idem_update_def idem_find_Cons idem_matches_def keeps_key_def)

lemma idem_abs_update [table_simps]:
  "keeps_key f \<Longrightarrow> idem_abs (idem_update s k f db) = (idem_abs db)((s, k) := map_option f (idem_abs db (s, k)))"
  by (auto simp: idem_abs_def idem_find_update)

lemma idem_abs_insert [table_simps]:
  "idem_find (ir_scope r) (ir_key r) db = None \<Longrightarrow>
     idem_abs (db @ [r]) = (idem_abs db)((ir_scope r, ir_key r) \<mapsto> r)"
proof (rule ext)
  fix p
  assume "idem_find (ir_scope r) (ir_key r) db = None"
  then show "idem_abs (db @ [r]) p = ((idem_abs db)((ir_scope r, ir_key r) \<mapsto> r)) p"
    by (cases p; cases "p = (ir_scope r, ir_key r)")
      (auto simp: idem_abs_def idem_find_append idem_find_Cons idem_matches_def split: option.split)
qed

lemma unique_keys_update: "keeps_key f \<Longrightarrow> unique_keys (idem_update s k f db) = unique_keys db"
proof -
  assume "keeps_key f"
  then have "map (\<lambda>r. (ir_scope r, ir_key r)) (idem_update s k f db) = map (\<lambda>r. (ir_scope r, ir_key r)) db"
    by (simp add: idem_update_def keeps_key_def)
  then show ?thesis by (simp add: unique_keys_def)
qed

lemma idem_find_absent: "idem_find s k db = None \<Longrightarrow> (s, k) \<notin> set (map (\<lambda>r. (ir_scope r, ir_key r)) db)"
  by (induction db) (auto simp: idem_find_Cons idem_matches_def split: if_splits)

lemma unique_keys_insert: "idem_insert r db = Inr db' \<Longrightarrow> unique_keys db \<Longrightarrow> unique_keys db'"
  using idem_find_absent [of "ir_scope r" "ir_key r" db]
  by (auto simp: idem_insert_cases unique_keys_def split: option.splits)

text \<open>The transaction body of \<open>Begin\<close> keeps the unique index, whatever the server does to it.\<close>

lemma begin_body_keeps:
  "unique_keys db \<Longrightarrow> begin_body uc q env n (db, l) = (TxOk, db', l') \<Longrightarrow> unique_keys db'"
  by (cases l)
    (auto simp: begin_body_def begin_decide_def take_ownership_def Let_def unique_keys_update
      split: sum.splits option.splits if_splits dest: unique_keys_insert)

interpretation idem_tx: tx_body "begin_body uc q env" unique_keys "\<lambda>_. True" for uc q env
  by unfold_locales (rule begin_body_keeps, simp_all)


section \<open>The abstract claim\<close>

text \<open>What \<open>Begin\<close> promises about one key, given the record stored under it.\<close>

datatype claim_outcome = Owner | Replay idem_record | Conflict | Busy

definition claim_spec :: "begin_req \<Rightarrow> idem_record option \<Rightarrow> claim_outcome" where
  "claim_spec q cur = (case cur of
       None \<Rightarrow> Owner
     | Some r \<Rightarrow>
         if rc_expires r < bq_now q then Owner
         else if rc_hash r \<noteq> bq_hash q then Conflict
         else if rc_state r = state_completed then Replay r
         else if rc_state r = state_failed then Owner else Busy)"

definition scannable :: "ulid_codec \<Rightarrow> idem_db \<Rightarrow> bool" where
  "scannable uc db \<longleftrightarrow> list_all (\<lambda>r. case scan_record uc r of Inl _ \<Rightarrow> False | Inr _ \<Rightarrow> True) db"

definition stored_record :: "ulid_codec \<Rightarrow> begin_req \<Rightarrow> idem_db \<Rightarrow> idem_record option" where
  "stored_record uc q db = (case idem_find (bq_scope q) (bq_key q) db of
       None \<Rightarrow> None
     | Some r \<Rightarrow> (case scan_record uc r of Inl _ \<Rightarrow> None | Inr x \<Rightarrow> Some x))"

definition owned_row :: "begin_req \<Rightarrow> ID \<Rightarrow> idem_db \<Rightarrow> idem_row" where
  "owned_row q i db = (case idem_find (bq_scope q) (bq_key q) db of
       None \<Rightarrow> fresh_row q i | Some r \<Rightarrow> claim_row q r)"

text \<open>A server that does what it is asked.\<close>

definition calm_begin :: "begin_env \<Rightarrow> bool" where
  "calm_begin env \<longleftrightarrow> be_insert env = None \<and> be_select env = (\<lambda>_. None) \<and> be_reinsert env = (\<lambda>_. None) \<and>
     be_claim env = (\<lambda>_. None) \<and> be_envs env = (\<lambda>_. calm_env)"

lemma dup_is_duplicate [simp]: "is_duplicate (MySQLError 1062 m)"
  by (simp add: number_defs)

lemma idem_errors_final [simp]:
  "\<not> is_retryable err_conflict" "\<not> is_retryable err_in_progress"
  by (simp_all add: is_retryable_def number_defs err_conflict_def err_in_progress_def)

lemma begin_claim_new:
  assumes "be_insert env = None" and "idem_find (bq_scope q) (bq_key q) db = None"
  shows "begin_claim uc q env db = (TxOk, None, db @ [fresh_row q (be_ids env 0)])"
  using assms by (simp add: begin_claim_def idem_insert_cases fresh_row_def)

lemma begin_claim_existing:
  assumes "calm_begin env" and r: "idem_find (bq_scope q) (bq_key q) db = Some r" and x: "scan_record uc r = Inr x"
  shows "begin_claim uc q env db = (case claim_spec q (Some x) of
      Owner \<Rightarrow> (TxOk, None, idem_update (bq_scope q) (bq_key q) (claim_row q) db)
    | Replay y \<Rightarrow> (TxOk, Some y, db)
    | Conflict \<Rightarrow> (TxErr err_conflict, None, db)
    | Busy \<Rightarrow> (TxErr err_in_progress, None, db))"
proof -
  have ins: "exec_stmt (be_insert env) (idem_insert (fresh_row q (be_ids env 0))) db
      = (Some (MySQLError 1062 ''Duplicate entry''), db)"
    using assms by (simp add: calm_begin_def idem_insert_cases fresh_row_def)
  have body: "begin_body uc q env 1 (db, None, False) = begin_decide q None x (db, None, False)"
    using assms by (simp add: begin_body_def select_record_def calm_begin_def)
  have envs: "be_envs env = (\<lambda>_. calm_env)" using assms(1) by (simp add: calm_begin_def)
  show ?thesis
    unfolding begin_claim_def ins envs prod.case option.case
    by (subst in_tx_calm, subst body)
      (auto simp: begin_decide_def claim_spec_def take_ownership_def Let_def)
qed

section \<open>Properties\<close>

text \<open>C1. \<open>Begin\<close> implements the abstract claim: on a server that does what it is asked, and for every
  state of the record stored under the key, it answers and changes the table as the claim says: the
  owner's row is fresh or reset, and in every other case nothing changes; no other key is touched.\<close>

theorem begin_refines:
  assumes "calm_begin env" and "scannable uc db"
    and "begin_claim uc q env db = (res, found, db')"
  shows "case claim_spec q (stored_record uc q db) of
      Owner \<Rightarrow> res = TxOk \<and> found = None \<and>
        idem_abs db' = (idem_abs db)((bq_scope q, bq_key q) \<mapsto> owned_row q (be_ids env 0) db)
    | Replay r \<Rightarrow> res = TxOk \<and> found = Some r \<and> db' = db
    | Conflict \<Rightarrow> res = TxErr err_conflict \<and> found = None \<and> db' = db
    | Busy \<Rightarrow> res = TxErr err_in_progress \<and> found = None \<and> db' = db"
proof (cases "idem_find (bq_scope q) (bq_key q) db")
  case None
  have "be_insert env = None" using assms(1) by (simp add: calm_begin_def)
  from begin_claim_new [OF this None] assms(3) None show ?thesis
    by (auto simp: claim_spec_def stored_record_def owned_row_def fresh_row_def idem_abs_insert)
next
  case (Some r)
  then have "r \<in> set db" using idem_find_matches by blast
  with assms(2) obtain x where x: "scan_record uc r = Inr x"
    by (cases "scan_record uc r") (auto simp: scannable_def list_all_iff split: sum.splits)
  have abs: "idem_abs db (bq_scope q, bq_key q) = Some r" using Some by (simp add: idem_abs_def)
  from begin_claim_existing [OF assms(1) Some x] assms(3) show ?thesis
    using x Some abs
    by (cases "claim_spec q (Some x)")
      (auto simp: stored_record_def owned_row_def idem_abs_update)
qed

definition sample_begin :: begin_req where
  "sample_begin = \<lparr>bq_now = 100, bq_ttl = 50, bq_scope = ''user:1'', bq_key = ''k1'', bq_route = ''POST /boxes'',
     bq_hash = ''h1''\<rparr>"

definition quiet_env :: begin_env where
  "quiet_env = \<lparr>be_ids = (\<lambda>_. sample_id), be_insert = None, be_select = (\<lambda>_. None), be_reinsert = (\<lambda>_. None),
     be_claim = (\<lambda>_. None), be_envs = (\<lambda>_. calm_env)\<rparr>"

definition sample_row :: idem_row where
  "sample_row = complete_row 110 201 (Some ''{}'') none_id (fresh_row sample_begin sample_id)"

lemmas begin_samples = sample_begin_def quiet_env_def sample_row_def

lemma quiet_env_calm [simp]: "calm_begin quiet_env"
  by (simp add: calm_begin_def quiet_env_def)

lemma scan_fresh_row:
  "scan_record uc (fresh_row q i) = Inr \<lparr>rc_id = i, rc_scope = bq_scope q, rc_key = bq_key q, rc_route = bq_route q,
     rc_hash = bq_hash q, rc_state = state_in_progress, rc_status = 0, rc_body = [], rc_resource = none_id,
     rc_created = bq_now q, rc_expires = bq_now q + bq_ttl q\<rparr>"
  using id_col.column_round_trip [where x = i and uc = uc]
  by (simp add: scan_record_def fresh_row_def opt_scan_def)

lemma scan_complete_row:
  assumes "scan_record uc r = Inr x" and "clean_opt resource"
  shows "scan_record uc (complete_row now status body resource r) =
     Inr (x\<lparr>rc_state := state_completed, rc_status := status,
       rc_body := (case body of Some b \<Rightarrow> b | None \<Rightarrow> []), rc_resource := resource\<rparr>)"
  using assms opt_col.column_round_trip [where x = resource and uc = uc]
  by (auto simp: scan_record_def complete_row_def split: sum.splits)

lemma scan_sample_row:
  "scan_record uc sample_row = Inr \<lparr>rc_id = sample_id, rc_scope = ''user:1'', rc_key = ''k1'', rc_route = ''POST /boxes'',
     rc_hash = ''h1'', rc_state = state_completed, rc_status = 201, rc_body = ''{}'', rc_resource = none_id,
     rc_created = 100, rc_expires = 150\<rparr>"
  unfolding sample_row_def
  by (subst scan_complete_row [OF scan_fresh_row]) (simp_all add: sample_begin_def)

theorem begin_refines_witness:
  "fst (begin_claim sample_codec sample_begin quiet_env [sample_row]) = TxOk \<and>
   fst (snd (begin_claim sample_codec sample_begin quiet_env [sample_row])) \<noteq> None"
proof -
  obtain res found db' where b: "begin_claim sample_codec sample_begin quiet_env [sample_row] = (res, found, db')"
    by (cases "begin_claim sample_codec sample_begin quiet_env [sample_row]") auto
  have s: "scannable sample_codec [sample_row]" by (simp add: scannable_def scan_sample_row)
  have "idem_find (bq_scope sample_begin) (bq_key sample_begin) [sample_row] = Some sample_row"
    by (simp add: idem_find_Cons idem_matches_def begin_samples complete_row_def fresh_row_def)
  then obtain r where "claim_spec sample_begin (stored_record sample_codec sample_begin [sample_row]) = Replay r"
    by (simp add: claim_spec_def stored_record_def scan_sample_row) (simp add: sample_begin_def)
  with begin_refines [OF quiet_env_calm s b] b show ?thesis by simp
qed


fun begin_all :: "ulid_codec \<Rightarrow> (begin_req \<times> begin_env) list \<Rightarrow> idem_db \<Rightarrow> (tx_result \<times> idem_record option) list \<times> idem_db" where
  "begin_all uc [] db = ([], db)"
| "begin_all uc ((q, env) # qs) db =
     (let (res, found, db1) = begin_claim uc q env db; (rest, db2) = begin_all uc qs db1
      in ((res, found) # rest, db2))"

lemma begin_all_busy:
  assumes "idem_find s k db = Some r" and "scan_record uc r = Inr x" and "rc_state x = state_in_progress"
    and "\<forall>(q, env) \<in> set qs. calm_begin env \<and> bq_scope q = s \<and> bq_key q = k \<and> bq_now q \<le> rc_expires x"
  shows "begin_all uc qs db =
    (map (\<lambda>(q, env). (TxErr (if bq_hash q = rc_hash x then err_in_progress else err_conflict), None)) qs, db)"
  using assms(4)
proof (induction qs)
  case (Cons p qs)
  obtain q env where p: "p = (q, env)" by (cases p)
  with Cons.prems have c: "calm_begin env" "bq_scope q = s" "bq_key q = k" "\<not> rc_expires x < bq_now q" by auto
  have "begin_claim uc q env db =
      (TxErr (if bq_hash q = rc_hash x then err_in_progress else err_conflict), None, db)"
    using begin_claim_existing [of env q db r uc x] assms(1-3) c
    by (simp add: claim_spec_def idem_states)
  with Cons p show ?case by simp
qed simp

text \<open>C16. One owner per key: on a server that does what it is asked, of any sequence of requests with one
  key, on a key that is not stored, the first gets it, and until it expires every other one is refused,
  as in progress when it carries the same digest and as a conflict when it does not; one row is stored.\<close>

theorem begin_single_owner:
  assumes "idem_find s k db = None"
    and "\<forall>(q', env') \<in> set ((q, env) # qs). calm_begin env' \<and> bq_scope q' = s \<and> bq_key q' = k \<and>
      bq_now q' \<le> bq_now q + bq_ttl q"
  shows "begin_all uc ((q, env) # qs) db =
    ((TxOk, None) # map (\<lambda>(q', env'). (TxErr (if bq_hash q' = bq_hash q then err_in_progress else err_conflict), None)) qs,
     db @ [fresh_row q (be_ids env 0)])"
proof -
  let ?row = "fresh_row q (be_ids env 0)"
  have k: "bq_scope q = s" "bq_key q = k" "be_insert env = None" using assms(2) by (auto simp: calm_begin_def)
  have first: "begin_claim uc q env db = (TxOk, None, db @ [?row])"
    using begin_claim_new k assms(1) by simp
  have "idem_find s k (db @ [?row]) = Some ?row"
    using assms(1) k by (simp add: idem_find_append idem_find_Cons idem_matches_def fresh_row_def)
  from begin_all_busy [OF this scan_fresh_row, of qs] assms(2) first show ?thesis by simp
qed

theorem begin_single_owner_witness:
  "map fst (fst (begin_all sample_codec [(sample_begin, quiet_env), (sample_begin\<lparr>bq_now := 120\<rparr>, quiet_env),
      (sample_begin\<lparr>bq_now := 130, bq_hash := ''h2''\<rparr>, quiet_env)] []))
   = [TxOk, TxErr err_in_progress, TxErr err_conflict]"
  by (subst begin_single_owner [of "''user:1''" "''k1''"]) (simp_all add: sample_begin_def)

text \<open>The unique index survives everything \<open>Begin\<close> does: whatever the server fails, rolls back,
  applies without an acknowledgement or lets other sessions do between the attempts, at most one row is
  stored for a scope and a key.\<close>

lemma begin_keeps_index:
  assumes "\<forall>n d. unique_keys d \<longrightarrow> unique_keys (te_before (be_envs env n) d)" and "unique_keys db"
  shows "unique_keys (snd (snd (begin_claim uc q env db)))"
proof -
  let ?ins = "exec_stmt (be_insert env) (idem_insert (fresh_row q (be_ids env 0))) db"
  obtain r0 db0 where ins: "?ins = (r0, db0)" by (cases ?ins)
  have u: "unique_keys db0"
    using exec_stmt_keeps [of "idem_insert (fresh_row q (be_ids env 0))" unique_keys db "be_insert env"]
      unique_keys_insert assms(2) ins by auto
  obtain r db' found owned ws where t: "in_tx ''idempotency_begin'' (be_envs env) (begin_body uc q env) (db0, None, False)
      = (r, db', (found, owned), ws)"
    by (metis surj_pair)
  have "unique_keys db'" using idem_tx.in_tx_keeps [OF _ u _ t] assms(1) by blast
  then show ?thesis using u by (simp add: begin_claim_def ins t split: option.split tx_result.split)
qed

text \<open>C36. Ownership outlives the attempt that gained it: when the first attempt of the transaction takes over a
  retryable record and is rolled back, and another session completes the same request before the second
  attempt, that attempt finds the completed record, but the captured flag \<open>owned\<close> is still set and
  \<open>Begin\<close> tells its caller to execute the request again instead of replaying the response; a fresh
  \<open>Begin\<close> on the same table replays it.\<close>

theorem stale_ownership:
  assumes "be_insert env = None" and "\<forall>n. be_select env n = None \<and> be_claim env n = None"
    and r1: "idem_find (bq_scope q) (bq_key q) db = Some r1" "scan_record uc r1 = Inr x1"
    and "claim_spec q (Some x1) = Owner"
    and "be_envs env 1 = calm_env\<lparr>te_commit := CommitError e False\<rparr>" and "is_retryable e"
    and "be_envs env 2 = calm_env\<lparr>te_before := (\<lambda>_. db2)\<rparr>"
    and r2: "idem_find (bq_scope q) (bq_key q) db2 = Some r2" "scan_record uc r2 = Inr x2"
    and "claim_spec q (Some x2) = Replay x2"
  shows "begin_claim uc q env db = (TxOk, None, db2) \<and>
    (\<exists>env'. begin_claim uc q env' db2 = (TxOk, Some x2, db2))"
proof -
  have ins: "exec_stmt (be_insert env) (idem_insert (fresh_row q (be_ids env 0))) db
      = (Some (MySQLError 1062 ''Duplicate entry''), db)"
    using assms(1) r1 by (simp add: idem_insert_cases fresh_row_def)
  have b1: "begin_body uc q env 1 (db, None, False)
      = (TxOk, idem_update (bq_scope q) (bq_key q) (claim_row q) db, None, True)"
    using assms(2,5) r1
    by (auto simp: begin_body_def select_record_def begin_decide_def claim_spec_def take_ownership_def split: if_splits)
  have b2: "begin_body uc q env 2 (db2, None, True) = (TxOk, db2, Some x2, True)"
    using assms(2,11) r2
    by (auto simp: begin_body_def select_record_def begin_decide_def claim_spec_def split: if_splits)
  have "is_retryable (wrap_err m e)" for m using assms(7) by (simp only: err_simps)
  then have "in_tx ''idempotency_begin'' (be_envs env) (begin_body uc q env) (db, None, False)
      = (TxOk, db2, (Some x2, True), [backoff 1])"
    using assms(6,8) b1 b2
    by (simp add: in_tx_def max_tx_attempts_def eval_nat_numeral run_tx_def calm_env_def)
  then have "begin_claim uc q env db = (TxOk, None, db2)"
    by (simp add: begin_claim_def ins)
  moreover have "begin_claim uc q (quiet_env) db2 = (TxOk, Some x2, db2)"
    using begin_claim_existing [OF quiet_env_calm r2] assms(11) by simp
  ultimately show ?thesis by blast
qed


lemma scan_fail_row:
  "scan_record uc r = Inr x \<Longrightarrow> ir_state r = state_in_progress \<Longrightarrow>
     scan_record uc (fail_row now r) = Inr (x\<lparr>rc_state := state_failed\<rparr>)"
  by (auto simp: scan_record_def fail_row_def split: sum.splits)

definition lost_commit_env :: begin_env where
  "lost_commit_env = quiet_env\<lparr>be_envs := (\<lambda>n. if n = 1 then calm_env\<lparr>te_commit := CommitError err_invalid_conn False\<rparr>
     else calm_env\<lparr>te_before := (\<lambda>_. [sample_row])\<rparr>)\<rparr>"

theorem stale_ownership_witness:
  "begin_claim sample_codec (sample_begin\<lparr>bq_now := 120\<rparr>) lost_commit_env
     [fail_row 105 (fresh_row sample_begin sample_id)] = (TxOk, None, [sample_row])"
proof -
  let ?q = "sample_begin\<lparr>bq_now := 120\<rparr>"
  let ?r = "fail_row 105 (fresh_row sample_begin sample_id)"
  have st: "ir_state (fresh_row sample_begin sample_id) = state_in_progress" by (simp add: fresh_row_def)
  have f1: "idem_find (bq_scope ?q) (bq_key ?q) [?r] = Some ?r"
    by (simp add: idem_find_Cons idem_matches_def fail_row_def fresh_row_def)
  have f2: "idem_find (bq_scope ?q) (bq_key ?q) [sample_row] = Some sample_row"
    by (simp add: idem_find_Cons idem_matches_def sample_row_def complete_row_def fresh_row_def)
  show ?thesis
    by (rule stale_ownership [OF _ _ f1 scan_fail_row [OF scan_fresh_row st] _ _ _ _ f2 scan_sample_row,
          where e = err_invalid_conn, THEN conjunct1])
      (simp_all add: lost_commit_env_def quiet_env_def claim_spec_def sample_begin_def idem_states
        is_retryable_def err_invalid_conn_def)
qed

text \<open>Completing a record is not tied to owning it: when the first owner is still running as its claim
  expires, and the key is taken over and completed by a second request, possibly with another body, the
  first owner's \<open>Complete\<close> overwrites the stored response, and from then on the second request's retry
  is answered with the first one's.\<close>

theorem complete_overwrites_new_owner:
  assumes "idem_find s k db = Some r" and "scan_record uc r = Inr x" and "calm_begin env" and "calm_begin env'"
    and "bq_scope q = s" and "bq_key q = k" and "rc_expires x < bq_now q" and "clean_opt res1" and "clean_opt res2"
    and "bq_scope q' = s" and "bq_key q' = k" and "bq_hash q' = bq_hash q" and "bq_now q' \<le> bq_now q + bq_ttl q"
  shows "\<exists>db1 db3 y. begin_claim uc q env db = (TxOk, None, db1) \<and>
    complete_record None t1 s k st1 b1 res1 (snd (complete_record None t2 s k st2 b2 res2 db1)) = (None, db3) \<and>
    begin_claim uc q' env' db3 = (TxOk, Some y, db3) \<and> rc_status y = st1 \<and>
    rc_body y = (case b1 of Some b \<Rightarrow> b | None \<Rightarrow> []) \<and> rc_hash y = bq_hash q"
proof -
  let ?db1 = "idem_update s k (claim_row q) db"
  let ?db2 = "complete_stmt t2 s k st2 b2 res2 ?db1"
  let ?db3 = "complete_stmt t1 s k st1 b1 res1 ?db2"
  let ?r3 = "complete_row t1 st1 b1 res1 (complete_row t2 st2 b2 res2 (claim_row q r))"
  have "claim_spec q (Some x) = Owner" using assms(7) by (simp add: claim_spec_def)
  then have 1: "begin_claim uc q env db = (TxOk, None, ?db1)"
    using begin_claim_existing [of env q db r uc x] assms by simp
  have 2: "complete_record None t1 s k st1 b1 res1 (snd (complete_record None t2 s k st2 b2 res2 ?db1)) = (None, ?db3)"
    by (simp add: complete_record_def)
  have f: "idem_find s k ?db3 = Some ?r3"
    using assms(1) by (simp add: complete_stmt_def idem_find_update)
  obtain x1 where x1: "scan_record uc (claim_row q r) = Inr x1" "rc_hash x1 = bq_hash q" "rc_expires x1 = bq_now q + bq_ttl q"
    using assms(2) by (auto simp: scan_record_def claim_row_def opt_scan_def split: sum.splits)
  note sc = scan_complete_row [OF scan_complete_row [OF x1(1) assms(9)] assms(8), of t1 st1 b1 t2 st2 b2]
  have "begin_claim uc q' env' ?db3 = (TxOk, Some (x1\<lparr>rc_state := state_completed, rc_status := st1,
      rc_body := (case b1 of Some b \<Rightarrow> b | None \<Rightarrow> []), rc_resource := res1\<rparr>), ?db3)"
    using begin_claim_existing [of env' q' ?db3 ?r3 uc] f sc assms(4,10-13) x1 by (simp add: claim_spec_def)
  with 1 2 x1 show ?thesis by fastforce
qed

theorem complete_overwrites_new_owner_witness:
  "\<exists>db1 db3 y. begin_claim sample_codec (sample_begin\<lparr>bq_now := 200, bq_hash := ''h2''\<rparr>) quiet_env [fresh_row sample_begin sample_id] = (TxOk, None, db1) \<and>
    complete_record None 220 ''user:1'' ''k1'' 200 (Some ''old'') none_id
      (snd (complete_record None 210 ''user:1'' ''k1'' 201 (Some ''new'') none_id db1)) = (None, db3) \<and>
    begin_claim sample_codec (sample_begin\<lparr>bq_now := 230, bq_hash := ''h2''\<rparr>) quiet_env db3 = (TxOk, Some y, db3) \<and>
    rc_status y = 200 \<and> rc_body y = ''old''"
proof -
  let ?r = "fresh_row sample_begin sample_id"
  have f: "idem_find ''user:1'' ''k1'' [?r] = Some ?r"
    by (simp add: idem_find_Cons idem_matches_def fresh_row_def sample_begin_def)
  show ?thesis
    using complete_overwrites_new_owner [OF f scan_fresh_row quiet_env_calm quiet_env_calm,
        of "sample_begin\<lparr>bq_now := 200, bq_hash := ''h2''\<rparr>" none_id none_id
          "sample_begin\<lparr>bq_now := 230, bq_hash := ''h2''\<rparr>" sample_codec 220 200 "Some ''old''" 210 201 "Some ''new''"]
    by (fastforce simp: sample_begin_def)
qed

lemma cut_nul: "c \<notin> set a \<Longrightarrow> c \<notin> set b \<Longrightarrow> a @ c # x = b @ c # y \<longleftrightarrow> a = b \<and> x = y"
proof (induction a arbitrary: b)
  case Nil
  then show ?case by (cases b) auto
next
  case (Cons d a)
  then show ?case by (cases b) auto
qed

text \<open>C8. The request digest binds actor, route and meaning: for scopes and routes without a zero byte, two
  requests have the same digest exactly when they agree in all three (bodies that differ only in key
  order or insignificant blanks are the same, a body that is not JSON is compared byte for byte), or
  the two preimages are a collision of SHA-256.\<close>

theorem request_hash_binds:
  assumes "number_codec num" and "CHR 0x00 \<notin> set s \<union> set r" and "CHR 0x00 \<notin> set s' \<union> set r'"
  shows "request_hash sha num s r b = request_hash sha num s' r' b' \<longleftrightarrow>
    (s = s' \<and> r = r' \<and> same_meaning num b b') \<or>
    (request_preimage num s r b \<noteq> request_preimage num s' r' b' \<and>
     sha (request_preimage num s r b) = sha (request_preimage num s' r' b'))"
proof -
  have "request_preimage num s r b = request_preimage num s' r' b' \<longleftrightarrow> s = s' \<and> r = r' \<and> same_meaning num b b'"
    using assms by (simp add: request_preimage_def cut_nul canonical_equal_iff)
  then show ?thesis unfolding request_hash_def by (metis hex_encode_inj)
qed

text \<open>A number conversion that keeps every literal.\<close>

definition exact_num :: "string \<Rightarrow> string option" where
  "exact_num l = (if scan_number l = Some [] then Some l else None)"

lemma exact_num_codec: "number_codec exact_num"
  by (simp add: number_codec_def exact_num_def)

theorem request_hash_binds_witness:
  "request_hash (\<lambda>m. m) exact_num ''user:1'' ''POST /a'' ''7'' \<noteq> request_hash (\<lambda>m. m) exact_num ''user:2'' ''POST /a'' ''7''"
  using request_hash_binds [OF exact_num_codec, of "''user:1''" "''POST /a''" "''user:2''" "''POST /a''" "\<lambda>m. m" "''7''" "''7''"]
  by simp

end
