(* ===== verification/Httpx_Problem.thy ===== *)
theory Httpx_Problem
  imports Canonical_Json
begin

text \<open>
  \<open>src/httpx/problem.go\<close>, and what \<open>net/http\<close> does with a response.

  A handler is modelled by what it returns with and by the calls it makes on its \<open>ResponseWriter\<close>, in
  order (a list of \<open>wop\<close>); \<open>http_run\<close> is the server's side of them. A \<open>WriteHeader\<close> after the first
  final one is ignored, an informational one (1xx) is sent at once and does not count, and headers set
  after the status line went out are not sent. Status codes outside 100 to 999, on which the server
  panics, and failing writes are not modelled.

  Values of type \<open>any\<close> that are not JSON-like (structs, channels) are encoded by the argument \<open>enc\<close>.
\<close>

section \<open>Responses\<close>

datatype wop = SetHeader string string | AddHeader string string | WriteHeader int | WriteBody string

type_synonym header = "(string \<times> string list) list"

text \<open>\<open>textproto.CanonicalMIMEHeaderKey\<close>.\<close>

definition token_char :: "char \<Rightarrow> bool" where
  "token_char c \<longleftrightarrow> (let n = byte_val c in (48 \<le> n \<and> n \<le> 57) \<or> (65 \<le> n \<and> n \<le> 90) \<or> (97 \<le> n \<and> n \<le> 122)) \<or>
     c \<in> set ''!#$%&*+-.^_|~'' \<or> byte_val c \<in> {0x27, 0x60}"

fun canonical_go :: "bool \<Rightarrow> string \<Rightarrow> string" where
  "canonical_go up [] = []"
| "canonical_go up (c # s) = (if up then ascii_upper c else ascii_lower c) # canonical_go (c = CHR ''-'') s"

definition canonical_key :: "string \<Rightarrow> string" where
  "canonical_key k = (if list_all token_char k then canonical_go True k else k)"

fun header_put :: "string \<Rightarrow> string list \<Rightarrow> header \<Rightarrow> header" where
  "header_put k vs [] = [(k, vs)]"
| "header_put k vs ((l, ws) # h) = (if l = k then (k, vs) # h else (l, ws) # header_put k vs h)"

definition header_values :: "string \<Rightarrow> header \<Rightarrow> string list" where
  "header_values k h = (case map_of h (canonical_key k) of Some vs \<Rightarrow> vs | None \<Rightarrow> [])"

definition header_get :: "string \<Rightarrow> header \<Rightarrow> string" where
  "header_get k h = (case header_values k h of v # _ \<Rightarrow> v | [] \<Rightarrow> [])"

record http_resp =
  hr_header :: header
  hr_status :: "int option"
  hr_sent :: header
  hr_info :: "int list"
  hr_body :: string

definition empty_resp :: http_resp where
  "empty_resp = \<lparr>hr_header = [], hr_status = None, hr_sent = [], hr_info = [], hr_body = []\<rparr>"

definition commit_header :: "int \<Rightarrow> http_resp \<Rightarrow> http_resp" where
  "commit_header n r =
     (if hr_status r \<noteq> None then r
      else if 100 \<le> n \<and> n \<le> 199 \<and> n \<noteq> 101 then r\<lparr>hr_info := hr_info r @ [n]\<rparr>
      else r\<lparr>hr_status := Some n, hr_sent := hr_header r\<rparr>)"

fun http_op :: "wop \<Rightarrow> http_resp \<Rightarrow> http_resp" where
  "http_op (SetHeader k v) r = r\<lparr>hr_header := header_put (canonical_key k) [v] (hr_header r)\<rparr>"
| "http_op (AddHeader k v) r =
     r\<lparr>hr_header := header_put (canonical_key k) (header_values k (hr_header r) @ [v]) (hr_header r)\<rparr>"
| "http_op (WriteHeader n) r = commit_header n r"
| "http_op (WriteBody b) r = (let r = (if hr_status r = None then commit_header 200 r else r)
     in r\<lparr>hr_body := hr_body r @ b\<rparr>)"

definition http_run :: "wop list \<Rightarrow> http_resp" where
  "http_run ops = fold http_op ops empty_resp"

text \<open>What the client gets once the handler has returned.\<close>

definition final_resp :: "http_resp \<Rightarrow> http_resp" where
  "final_resp r = commit_header 200 r"

lemma map_of_header_put: "map_of (header_put k vs h) l = (if l = k then Some vs else map_of h l)"
  by (induction k vs h rule: header_put.induct) auto

lemma header_values_put [simp]:
  "header_values k (header_put (canonical_key l) vs h) = (if canonical_key k = canonical_key l then vs else header_values k h)"
  by (simp add: header_values_def map_of_header_put)

lemma commit_header_simps [simp]:
  "hr_header (commit_header n r) = hr_header r" "hr_body (commit_header n r) = hr_body r"
  "hr_status r \<noteq> None \<Longrightarrow> commit_header n r = r"
  "200 \<le> n \<Longrightarrow> hr_status r = None \<Longrightarrow> commit_header n r = r\<lparr>hr_status := Some n, hr_sent := hr_header r\<rparr>"
  by (simp_all add: commit_header_def)

section \<open>Errors\<close>

text \<open>The stable error codes and the media type of a problem document.\<close>

abbreviation code_validation_failed :: string where "code_validation_failed \<equiv> ''VALIDATION_FAILED''"
abbreviation code_unauthenticated :: string where "code_unauthenticated \<equiv> ''UNAUTHENTICATED''"
abbreviation code_forbidden :: string where "code_forbidden \<equiv> ''FORBIDDEN''"
abbreviation code_not_found :: string where "code_not_found \<equiv> ''NOT_FOUND''"
abbreviation code_conflict :: string where "code_conflict \<equiv> ''CONFLICT''"
abbreviation code_idempotency_conflict :: string where "code_idempotency_conflict \<equiv> ''IDEMPOTENCY_CONFLICT''"
abbreviation code_request_in_progress :: string where "code_request_in_progress \<equiv> ''REQUEST_IN_PROGRESS''"
abbreviation code_idempotency_key_required :: string where "code_idempotency_key_required \<equiv> ''IDEMPOTENCY_KEY_REQUIRED''"
abbreviation code_rate_limited :: string where "code_rate_limited \<equiv> ''RATE_LIMITED''"
abbreviation code_provider_unavailable :: string where "code_provider_unavailable \<equiv> ''PROVIDER_UNAVAILABLE''"
abbreviation code_internal :: string where "code_internal \<equiv> ''INTERNAL_ERROR''"
abbreviation code_payload_too_large :: string where "code_payload_too_large \<equiv> ''PAYLOAD_TOO_LARGE''"
abbreviation code_unsupported_media :: string where "code_unsupported_media \<equiv> ''UNSUPPORTED_MEDIA_TYPE''"
abbreviation code_step_up_required :: string where "code_step_up_required \<equiv> ''STEP_UP_REQUIRED''"
abbreviation code_signature_invalid :: string where "code_signature_invalid \<equiv> ''SIGNATURE_INVALID''"
abbreviation code_state_conflict :: string where "code_state_conflict \<equiv> ''STATE_CONFLICT''"
abbreviation code_service_unavailable :: string where "code_service_unavailable \<equiv> ''SERVICE_UNAVAILABLE''"
abbreviation code_timeout :: string where "code_timeout \<equiv> ''REQUEST_TIMEOUT''"
abbreviation problem_content_type :: string where "problem_content_type \<equiv> ''application/problem+json''"

record field_error =
  fe_field :: string
  fe_message :: string

type_synonym any_map = "(string \<times> any_val) list"

datatype api_error = APIError (ae_status: int) (ae_code: string) (ae_title: string) (ae_detail: string)
    (ae_fields: "field_error list") (ae_extra: any_map) (ae_headers: "(string \<times> string) list")
    (ae_cause: "http_error option")
  and http_error = PlainError go_error | ApiErr api_error | WrapErr string "http_error list"

text \<open>\<open>m[k] = v\<close> on a copied map.\<close>

fun map_put :: "string \<Rightarrow> 'a \<Rightarrow> (string \<times> 'a) list \<Rightarrow> (string \<times> 'a) list" where
  "map_put k v [] = [(k, v)]"
| "map_put k v ((l, w) # m) = (if l = k then (k, v) # m else (l, w) # map_put k v m)"

lemma map_of_map_put: "map_of (map_put k v m) l = (if l = k then Some v else map_of m l)"
  by (induction k v m rule: map_put.induct) auto

fun with_cause :: "http_error option \<Rightarrow> api_error \<Rightarrow> api_error" where
  "with_cause c (APIError s cd t d f x h _) = APIError s cd t d f x h c"

fun with_extra :: "string \<Rightarrow> any_val \<Rightarrow> api_error \<Rightarrow> api_error" where
  "with_extra k v (APIError s cd t d f x h c) = APIError s cd t d f (map_put k v x) h c"

fun with_fields :: "field_error list \<Rightarrow> api_error \<Rightarrow> api_error" where
  "with_fields fs (APIError s cd t d f x h c) = APIError s cd t d (f @ fs) x h c"

fun with_header :: "string \<Rightarrow> string \<Rightarrow> api_error \<Rightarrow> api_error" where
  "with_header k v (APIError s cd t d f x h c) = APIError s cd t d f x (map_put k v h) c"

fun with_detail :: "string \<Rightarrow> api_error \<Rightarrow> api_error" where
  "with_detail d (APIError s cd t _ f x h c) = APIError s cd t d f x h c"

definition new_api_error :: "int \<Rightarrow> string \<Rightarrow> string \<Rightarrow> string \<Rightarrow> api_error" where
  "new_api_error status code title detail = APIError status code title detail [] [] [] None"

definition err_validation :: "string \<Rightarrow> field_error list \<Rightarrow> api_error" where
  "err_validation detail fs = APIError 400 code_validation_failed ''Validation failed'' detail fs [] [] None"

definition err_unauthenticated :: "string \<Rightarrow> api_error" where
  "err_unauthenticated d = new_api_error 401 code_unauthenticated ''Authentication required'' d"
definition err_forbidden :: "string \<Rightarrow> api_error" where
  "err_forbidden d = new_api_error 403 code_forbidden ''Forbidden'' d"
definition err_not_found :: "string \<Rightarrow> api_error" where
  "err_not_found d = new_api_error 404 code_not_found ''Not found'' d"
definition api_err_conflict :: "string \<Rightarrow> string \<Rightarrow> api_error" where
  "api_err_conflict code d = new_api_error 409 code ''Conflict'' d"
definition err_unprocessable :: "string \<Rightarrow> string \<Rightarrow> api_error" where
  "err_unprocessable code d = new_api_error 422 code ''Unprocessable request'' d"
definition err_rate_limited :: "int \<Rightarrow> api_error" where
  "err_rate_limited n = with_header ''Retry-After'' (show_int n)
     (new_api_error 429 code_rate_limited ''Rate limited'' ''too many requests'')"
definition err_provider_unavailable :: "string \<Rightarrow> api_error" where
  "err_provider_unavailable d = new_api_error 503 code_provider_unavailable ''Provider unavailable'' d"
definition err_internal :: "http_error option \<Rightarrow> api_error" where
  "err_internal c = with_cause c (APIError 500 code_internal ''Internal server error''
     ''the request could not be completed'' [] [] [] None)"

text \<open>\<open>errors.As\<close> with an \<open>*APIError\<close> target: the first one of the tree; an API error is found before its
  cause is looked at.\<close>

fun as_api :: "http_error \<Rightarrow> api_error option" where
  "as_api (PlainError e) = None"
| "as_api (ApiErr a) = Some a"
| "as_api (WrapErr m es) = first_some (map as_api es)"

definition as_api_error :: "http_error \<Rightarrow> api_error" where
  "as_api_error e = (case as_api e of Some a \<Rightarrow> a | None \<Rightarrow> err_internal (Some e))"

text \<open>\<open>Error\<close> and \<open>Unwrap\<close> of an \<open>*APIError\<close>; the text of a cause is \<open>show\<close>.\<close>

definition api_error_text :: "(http_error \<Rightarrow> string) \<Rightarrow> api_error \<Rightarrow> string" where
  "api_error_text show a = (case ae_cause a of
       Some c \<Rightarrow> ae_code a @ '': '' @ ae_detail a @ '': '' @ show c
     | None \<Rightarrow> ae_code a @ '': '' @ ae_detail a)"

definition api_error_unwrap :: "api_error \<Rightarrow> http_error option" where
  "api_error_unwrap a = ae_cause a"

section \<open>Encoding\<close>

fun all_some :: "'a option list \<Rightarrow> 'a list option" where
  "all_some [] = Some []"
| "all_some (None # xs) = None"
| "all_some (Some x # xs) = map_option (Cons x) (all_some xs)"

fun encode_any :: "(nat \<Rightarrow> string option) \<Rightarrow> any_val \<Rightarrow> string option"
  and encode_items :: "(nat \<Rightarrow> string option) \<Rightarrow> any_val list \<Rightarrow> string list option"
  and encode_members :: "(nat \<Rightarrow> string option) \<Rightarrow> (string \<times> any_val) list \<Rightarrow> (string \<times> string) list option"
where
  "encode_any enc VNil = Some ''null''"
| "encode_any enc (VBool b) = Some (if b then ''true'' else ''false'')"
| "encode_any enc (VNum l) = Some l"
| "encode_any enc (VStr s) = Some (json_quote s)"
| "encode_any enc (VSlice None) = Some ''null''"
| "encode_any enc (VSlice (Some vs)) =
     map_option (\<lambda>ts. ''['' @ join_with '','' ts @ '']'') (encode_items enc vs)"
| "encode_any enc (VMap None) = Some ''null''"
| "encode_any enc (VMap (Some ms)) = map_option
     (\<lambda>ps. ''{'' @ join_with '','' (map (\<lambda>(k, t). json_quote k @ '':'' @ t) (sort_key fst ps)) @ ''}'')
     (encode_members enc ms)"
| "encode_any enc (VOther n) = enc n"
| "encode_items enc [] = Some []"
| "encode_items enc (v # vs) = (case encode_any enc v of None \<Rightarrow> None
     | Some t \<Rightarrow> map_option (Cons t) (encode_items enc vs))"
| "encode_members enc [] = Some []"
| "encode_members enc ((k, v) # ms) = (case encode_any enc v of None \<Rightarrow> None
     | Some t \<Rightarrow> map_option (Cons (k, t)) (encode_members enc ms))"

definition str_member :: "string \<Rightarrow> string \<Rightarrow> string" where
  "str_member k v = json_quote k @ '':'' @ json_quote v"

definition opt_member :: "string \<Rightarrow> string \<Rightarrow> string list" where
  "opt_member k v = (if v = [] then [] else [str_member k v])"

definition field_json :: "field_error \<Rightarrow> string" where
  "field_json f = ''{'' @ str_member ''field'' (fe_field f) @ '','' @ str_member ''message'' (fe_message f) @ ''}''"

record problem_ctx =
  pc_base_url :: string
  pc_path :: string
  pc_request_id :: string
  pc_trace_id :: string

definition problem_members :: "(nat \<Rightarrow> string option) \<Rightarrow> problem_ctx \<Rightarrow> api_error \<Rightarrow> string list option" where
  "problem_members enc pc a = map_option
     (\<lambda>extra.
        [str_member ''type'' (pc_base_url pc @ ae_code a), str_member ''title'' (ae_title a),
         json_quote ''status'' @ '':'' @ show_int (ae_status a)] @
        opt_member ''detail'' (ae_detail a) @ opt_member ''instance'' (pc_path pc) @
        [str_member ''code'' (ae_code a)] @
        opt_member ''request_id'' (pc_request_id pc) @ opt_member ''trace_id'' (pc_trace_id pc) @
        (if ae_fields a = [] then []
         else [json_quote ''errors'' @ '':'' @ ''['' @ join_with '','' (map field_json (ae_fields a)) @ '']'']) @
        extra)
     (if ae_extra a = [] then Some []
      else map_option (\<lambda>t. [json_quote ''extra'' @ '':'' @ t]) (encode_any enc (VMap (Some (ae_extra a)))))"

text \<open>\<open>json.Encoder\<close> writes nothing when a value cannot be encoded, and ends the document with a newline.\<close>

definition problem_body :: "(nat \<Rightarrow> string option) \<Rightarrow> problem_ctx \<Rightarrow> api_error \<Rightarrow> wop list" where
  "problem_body enc pc a = (case problem_members enc pc a of
       None \<Rightarrow> []
     | Some ms \<Rightarrow> [WriteBody (''{'' @ join_with '','' ms @ ''}'' @ [CHR 0x0A])])"

definition write_problem :: "(nat \<Rightarrow> string option) \<Rightarrow> problem_ctx \<Rightarrow> http_error \<Rightarrow> wop list" where
  "write_problem enc pc e =
     (let a = as_api_error e
      in map (\<lambda>(k, v). SetHeader k v) (ae_headers a) @
         [SetHeader ''Content-Type'' problem_content_type, SetHeader ''Cache-Control'' ''no-store'',
          WriteHeader (ae_status a)] @ problem_body enc pc a)"

section \<open>Properties\<close>

lemma with_cause_selectors [simp]:
  "ae_status (with_cause c a) = ae_status a" "ae_code (with_cause c a) = ae_code a"
  "ae_title (with_cause c a) = ae_title a" "ae_detail (with_cause c a) = ae_detail a"
  "ae_fields (with_cause c a) = ae_fields a" "ae_extra (with_cause c a) = ae_extra a"
  "ae_headers (with_cause c a) = ae_headers a" "ae_cause (with_cause c a) = c"
  by (cases a; simp)+

lemma problem_body_cause: "problem_body enc pc (with_cause c a) = problem_body enc pc a"
  by (simp only: problem_body_def problem_members_def with_cause_selectors)

lemma write_problem_cause:
  "as_api_error e = with_cause c a \<Longrightarrow> as_api_error e' = with_cause c' a \<Longrightarrow>
     write_problem enc pc e = write_problem enc pc e'"
  by (simp add: write_problem_def problem_body_cause)

lemma with_cause_self: "with_cause (ae_cause a) a = a"
  by (cases a) simp

lemma as_api_wrap: "as_api e = Some a \<Longrightarrow> as_api (WrapErr m [e]) = Some a"
  by simp

text \<open>C39. What is attached as a cause never reaches the client: the response to an API error is the same
  whatever its cause is, however deep the error is wrapped, and the response to an error that is no API
  error at all does not depend on it.\<close>

theorem cause_never_serialised:
  "write_problem enc pc (WrapErr m [ApiErr (with_cause c a)]) = write_problem enc pc (ApiErr a) \<and>
   write_problem enc pc (PlainError e) = write_problem enc pc (PlainError e') \<and>
   write_problem enc pc (WrapErr m [PlainError e]) = write_problem enc pc (ApiErr (err_internal None))"
proof (intro conjI)
  show "write_problem enc pc (WrapErr m [ApiErr (with_cause c a)]) = write_problem enc pc (ApiErr a)"
    by (rule write_problem_cause [of _ c a _ "ae_cause a"]) (simp_all add: as_api_error_def with_cause_self)
  show "write_problem enc pc (PlainError e) = write_problem enc pc (PlainError e')"
    by (rule write_problem_cause) (simp_all add: as_api_error_def err_internal_def del: with_cause.simps)
  show "write_problem enc pc (WrapErr m [PlainError e]) = write_problem enc pc (ApiErr (err_internal None))"
    by (rule write_problem_cause) (simp_all add: as_api_error_def err_internal_def del: with_cause.simps)
qed

lemma run_set_headers:
  "hr_status r = None \<Longrightarrow> hr_status (fold http_op (map (\<lambda>(k, v). SetHeader k v) hs) r) = None \<and>
     hr_body (fold http_op (map (\<lambda>(k, v). SetHeader k v) hs) r) = hr_body r"
  by (induction hs arbitrary: r) auto

text \<open>Every problem response carries the error's status and its two fixed headers: whatever headers the
  error brings, the client sees the problem media type and \<open>no-store\<close>, and the body is one document or,
  when an extra value cannot be encoded, empty.\<close>

theorem write_problem_response:
  assumes "200 \<le> ae_status (as_api_error e)"
  shows "hr_status (http_run (write_problem enc pc e)) = Some (ae_status (as_api_error e)) \<and>
    header_get ''Content-Type'' (hr_sent (http_run (write_problem enc pc e))) = ''application/problem+json'' \<and>
    header_get ''Cache-Control'' (hr_sent (http_run (write_problem enc pc e))) = ''no-store'' \<and>
    (hr_body (http_run (write_problem enc pc e)) = [] \<longleftrightarrow> problem_members enc pc (as_api_error e) = None)"
proof -
  let ?a = "as_api_error e"
  let ?r = "fold http_op (map (\<lambda>(k, v). SetHeader k v) (ae_headers ?a)) empty_resp"
  have r: "hr_status ?r = None" "hr_body ?r = []"
    using run_set_headers [of empty_resp "ae_headers ?a"] by (simp_all add: empty_resp_def)
  have ne: "canonical_key ''Content-Type'' \<noteq> canonical_key ''Cache-Control''"
    by (simp add: canonical_key_def token_char_def byte_val_def ascii_upper_def ascii_lower_def)
  have "http_run (write_problem enc pc e) = fold http_op (problem_body enc pc ?a)
      (http_op (WriteHeader (ae_status ?a)) (http_op (SetHeader ''Cache-Control'' ''no-store'')
        (http_op (SetHeader ''Content-Type'' problem_content_type) ?r)))"
    by (simp add: http_run_def write_problem_def Let_def)
  then show ?thesis
    using assms r ne by (cases "problem_members enc pc ?a")
      (auto simp: problem_body_def header_get_def)
qed

theorem write_problem_response_witness:
  "hr_status (http_run (write_problem (\<lambda>_. None) \<lparr>pc_base_url = [], pc_path = ''/boxes'', pc_request_id = [], pc_trace_id = []\<rparr>
     (WrapErr ''open box'' [ApiErr (err_rate_limited 7)]))) = Some 429"
  using write_problem_response [of "WrapErr ''open box'' [ApiErr (err_rate_limited 7)]" "\<lambda>_. None"
      "\<lparr>pc_base_url = [], pc_path = ''/boxes'', pc_request_id = [], pc_trace_id = []\<rparr>"]
  by (simp add: as_api_error_def err_rate_limited_def new_api_error_def)

end
