(* ===== verification/Response_Writer.thy ===== *)
theory Response_Writer
  imports Httpx_Problem
begin

text \<open>
  The two \<open>ResponseWriter\<close> wrappers of the module: \<open>responseWriter\<close> of \<open>src/httpx/middleware.go\<close>, which
  counts for the access log, and \<open>bufferingWriter\<close> of \<open>src/idempotency/middleware.go\<close>, which keeps the
  body for the replay. The locale \<open>status_wrapper\<close> is what both promise: the first status wins and
  everything else is passed on; its lemmas say what the client behind the wrapper sees. The inner
  writer is the list of calls made on it.
\<close>

section \<open>The contract\<close>

fun is_header_op :: "wop \<Rightarrow> bool" where
  "is_header_op (SetHeader k v) = True"
| "is_header_op (AddHeader k v) = True"
| "is_header_op x = False"

fun final_status :: "wop \<Rightarrow> bool" where
  "final_status (WriteHeader n) = (200 \<le> n)"
| "final_status x = True"

fun op_body :: "wop \<Rightarrow> string" where
  "op_body (WriteBody b) = b"
| "op_body x = []"

fun not_status :: "wop \<Rightarrow> bool" where
  "not_status (WriteHeader n) = False"
| "not_status x = True"

fun first_status :: "wop list \<Rightarrow> int option" where
  "first_status [] = None"
| "first_status (WriteHeader n # ops) = Some n"
| "first_status (WriteBody b # ops) = Some 200"
| "first_status (x # ops) = first_status ops"

locale status_wrapper =
  fixes step :: "wop \<Rightarrow> 'w \<Rightarrow> 'w"
    and log :: "'w \<Rightarrow> wop list"
    and status :: "'w \<Rightarrow> int"
    and wrote :: "'w \<Rightarrow> bool"
    and content :: "'w \<Rightarrow> nat"
  assumes header_passes: "is_header_op x \<Longrightarrow> log (step x w) = log w @ [x] \<and> status (step x w) = status w \<and>
      wrote (step x w) = wrote w \<and> content (step x w) = content w"
    and first_header: "\<not> wrote w \<Longrightarrow> log (step (WriteHeader n) w) = log w @ [WriteHeader n] \<and>
      status (step (WriteHeader n) w) = n \<and> wrote (step (WriteHeader n) w) \<and> content (step (WriteHeader n) w) = content w"
    and later_header: "wrote w \<Longrightarrow> step (WriteHeader n) w = w"
    and first_write: "\<not> wrote w \<Longrightarrow> log (step (WriteBody b) w) = log w @ [WriteHeader 200, WriteBody b] \<and>
      status (step (WriteBody b) w) = 200 \<and> wrote (step (WriteBody b) w) \<and> content (step (WriteBody b) w) = content w + length b"
    and later_write: "wrote w \<Longrightarrow> log (step (WriteBody b) w) = log w @ [WriteBody b] \<and>
      status (step (WriteBody b) w) = status w \<and> wrote (step (WriteBody b) w) \<and> content (step (WriteBody b) w) = content w + length b"
begin

lemma wrapper_after:
  "wrote w \<Longrightarrow> wrote (fold step ops w) \<and> status (fold step ops w) = status w \<and>
     content (fold step ops w) = content w + length (concat (map op_body ops)) \<and>
     log (fold step ops w) = log w @ filter not_status ops"
proof (induction ops arbitrary: w)
  case (Cons x ops)
  show ?case
  proof (cases x)
    case (WriteHeader n)
    with Cons later_header show ?thesis by simp
  next
    case (WriteBody b)
    with Cons.IH [of "step x w"] later_write [OF Cons.prems, of b] show ?thesis by simp
  next
    case (SetHeader k v)
    with Cons.IH [of "step x w"] header_passes [of x w] Cons.prems show ?thesis
      by simp
  next
    case (AddHeader k v)
    with Cons.IH [of "step x w"] header_passes [of x w] Cons.prems show ?thesis
      by simp
  qed
qed simp

lemma wrapper_status:
  "\<not> wrote w \<Longrightarrow>
     (case first_status ops of
        Some n \<Rightarrow> wrote (fold step ops w) \<and> status (fold step ops w) = n
      | None \<Rightarrow> \<not> wrote (fold step ops w) \<and> status (fold step ops w) = status w) \<and>
     content (fold step ops w) = content w + length (concat (map op_body ops))"
proof (induction ops arbitrary: w)
  case (Cons x ops)
  show ?case
  proof (cases x)
    case (WriteHeader n)
    with Cons.prems first_header [of w n] wrapper_after [of "step x w" ops] show ?thesis by (simp split: option.splits)
  next
    case (WriteBody b)
    with Cons.prems first_write [of w b] wrapper_after [of "step x w" ops] show ?thesis by (simp split: option.splits)
  next
    case (SetHeader k v)
    with Cons.IH [of "step x w"] Cons.prems header_passes [of x w] show ?thesis by (simp split: option.splits)
  next
    case (AddHeader k v)
    with Cons.IH [of "step x w"] Cons.prems header_passes [of x w] show ?thesis by (simp split: option.splits)
  qed
qed simp

text \<open>A client cannot tell the wrapper from the bare writer, when all statuses are final ones: dropping the
  later statuses changes nothing.\<close>

lemma fold_drop_status:
  "hr_status r \<noteq> None \<Longrightarrow>
     fold http_op (filter not_status ops) r = fold http_op ops r"
proof (induction ops arbitrary: r)
  case (Cons x ops)
  have "hr_status (http_op x r) \<noteq> None" using Cons.prems by (cases x) auto
  with Cons show ?case by (cases x) auto
qed simp

lemma wrapper_transparent:
  assumes "list_all final_status ops" and "\<not> wrote w" and "fold http_op (log w) r0 = r" and "hr_status r = None"
  shows "fold http_op (log (fold step ops w)) r0 = fold http_op ops r"
  using assms
proof (induction ops arbitrary: w r)
  case (Cons x ops)
  show ?case
  proof (cases x)
    case (WriteHeader n)
    have l: "log (fold step ops (step x w)) = log w @ [x] @ filter not_status ops"
      using first_header [OF Cons.prems(2), of n] wrapper_after [of "step x w" ops] WriteHeader by simp
    have "hr_status (http_op x r) \<noteq> None" using Cons.prems WriteHeader by simp
    from fold_drop_status [OF this] show ?thesis using l Cons.prems(3) by simp
  next
    case (WriteBody b)
    have l: "log (fold step ops (step x w)) = log w @ [WriteHeader 200, x] @ filter not_status ops"
      using first_write [OF Cons.prems(2), of b] wrapper_after [of "step x w" ops] WriteBody by simp
    have "http_op x (http_op (WriteHeader 200) r) = http_op x r" using Cons.prems(4) WriteBody by simp
    moreover have "hr_status (http_op x r) \<noteq> None" using Cons.prems WriteBody by simp
    ultimately show ?thesis using l Cons.prems(3) fold_drop_status [of "http_op x r" ops]
      by (simp del: http_op.simps(3,4))
  next
    case (SetHeader k v)
    with Cons.IH [of "step x w" "http_op x r"] Cons.prems header_passes [of x w] show ?thesis
      by simp
  next
    case (AddHeader k v)
    with Cons.IH [of "step x w" "http_op x r"] Cons.prems header_passes [of x w] show ?thesis
      by simp
  qed
qed simp

end

section \<open>The access log wrapper\<close>

record response_writer =
  rw_log :: "wop list"
  rw_status :: int
  rw_bytes :: nat
  rw_wrote :: bool

definition new_response_writer :: response_writer where
  "new_response_writer = \<lparr>rw_log = [], rw_status = 0, rw_bytes = 0, rw_wrote = False\<rparr>"

definition rw_write_header :: "int \<Rightarrow> response_writer \<Rightarrow> response_writer" where
  "rw_write_header n w = (if rw_wrote w then w
     else w\<lparr>rw_status := n, rw_wrote := True, rw_log := rw_log w @ [WriteHeader n]\<rparr>)"

definition rw_write :: "string \<Rightarrow> response_writer \<Rightarrow> response_writer" where
  "rw_write b w =
     (let w = (if rw_wrote w then w else rw_write_header 200 w)
      in w\<lparr>rw_log := rw_log w @ [WriteBody b], rw_bytes := rw_bytes w + length b\<rparr>)"

fun rw_step :: "wop \<Rightarrow> response_writer \<Rightarrow> response_writer" where
  "rw_step (WriteHeader n) w = rw_write_header n w"
| "rw_step (WriteBody b) w = rw_write b w"
| "rw_step x w = w\<lparr>rw_log := rw_log w @ [x]\<rparr>"

definition rw_final_status :: "response_writer \<Rightarrow> int" where
  "rw_final_status w = (if rw_status w = 0 then 200 else rw_status w)"

interpretation rw: status_wrapper rw_step rw_log rw_status rw_wrote rw_bytes
proof unfold_locales
  show "is_header_op x \<Longrightarrow> rw_log (rw_step x w) = rw_log w @ [x] \<and> rw_status (rw_step x w) = rw_status w \<and>
      rw_wrote (rw_step x w) = rw_wrote w \<and> rw_bytes (rw_step x w) = rw_bytes w" for x w
    by (cases x) simp_all
qed (simp_all add: rw_write_header_def rw_write_def)

section \<open>The buffering wrapper\<close>

record buffering_writer =
  bw_log :: "wop list"
  bw_status :: int
  bw_buf :: string
  bw_wrote :: bool

definition new_buffering_writer :: buffering_writer where
  "new_buffering_writer = \<lparr>bw_log = [], bw_status = 0, bw_buf = [], bw_wrote = False\<rparr>"

definition bw_write_header :: "int \<Rightarrow> buffering_writer \<Rightarrow> buffering_writer" where
  "bw_write_header n w = (if bw_wrote w then w
     else w\<lparr>bw_status := n, bw_wrote := True, bw_log := bw_log w @ [WriteHeader n]\<rparr>)"

definition bw_write :: "string \<Rightarrow> buffering_writer \<Rightarrow> buffering_writer" where
  "bw_write b w =
     (let w = (if bw_wrote w then w else bw_write_header 200 w)
      in w\<lparr>bw_buf := bw_buf w @ b, bw_log := bw_log w @ [WriteBody b]\<rparr>)"

fun bw_step :: "wop \<Rightarrow> buffering_writer \<Rightarrow> buffering_writer" where
  "bw_step (WriteHeader n) w = bw_write_header n w"
| "bw_step (WriteBody b) w = bw_write b w"
| "bw_step x w = w\<lparr>bw_log := bw_log w @ [x]\<rparr>"

interpretation bw: status_wrapper bw_step bw_log bw_status bw_wrote "\<lambda>w. length (bw_buf w)"
proof unfold_locales
  show "is_header_op x \<Longrightarrow> bw_log (bw_step x w) = bw_log w @ [x] \<and> bw_status (bw_step x w) = bw_status w \<and>
      bw_wrote (bw_step x w) = bw_wrote w \<and> length (bw_buf (bw_step x w)) = length (bw_buf w)" for x w
    by (cases x) simp_all
qed (simp_all add: bw_write_header_def bw_write_def)

lemma bw_buffer: "bw_buf (fold bw_step ops w) = bw_buf w @ concat (map op_body ops)"
proof (induction ops arbitrary: w)
  case (Cons x ops)
  then show ?case by (cases x) (simp_all add: bw_write_header_def bw_write_def)
qed simp

lemma http_body: "hr_body (fold http_op ops r) = hr_body r @ concat (map op_body ops)"
proof (induction ops arbitrary: r)
  case (Cons x ops)
  then show ?case by (cases x) simp_all
qed simp

lemma http_first_status:
  "list_all final_status ops \<Longrightarrow> hr_status r = None \<Longrightarrow> hr_status (fold http_op ops r) = first_status ops"
proof (induction ops arbitrary: r)
  case (Cons x ops)
  have keep: "hr_status r \<noteq> None \<Longrightarrow> hr_status (fold http_op ops r) = hr_status r" for r
  proof (induction ops arbitrary: r)
    case (Cons y ops)
    then show ?case by (cases y) auto
  qed simp
  show ?case
  proof (cases x)
    case (WriteHeader n)
    with Cons.prems keep show ?thesis by simp
  next
    case (WriteBody b)
    with Cons.prems keep show ?thesis by simp
  qed (use Cons in auto)
qed simp

lemma first_status_final: "list_all final_status ops \<Longrightarrow> first_status ops = Some n \<Longrightarrow> 200 \<le> n"
  by (induction ops rule: first_status.induct) auto

lemma rw_transparent:
  assumes "list_all final_status ops"
  shows "http_run (rw_log (fold rw_step ops new_response_writer)) = http_run ops"
  using rw.wrapper_transparent [OF assms, of new_response_writer empty_resp empty_resp]
  by (simp add: http_run_def new_response_writer_def empty_resp_def)

lemma bw_transparent:
  assumes "list_all final_status ops"
  shows "http_run (bw_log (fold bw_step ops new_buffering_writer)) = http_run ops"
  using bw.wrapper_transparent [OF assms, of new_buffering_writer empty_resp empty_resp]
  by (simp add: http_run_def new_buffering_writer_def empty_resp_def)

lemma bw_buffer_run: "bw_buf (fold bw_step ops new_buffering_writer) = hr_body (http_run ops)"
  using http_body [of ops empty_resp] bw_buffer [of ops new_buffering_writer]
  by (simp add: http_run_def new_buffering_writer_def empty_resp_def)

lemma http_run_status: "list_all final_status ops \<Longrightarrow> hr_status (http_run ops) = first_status ops"
  using http_first_status [of ops empty_resp] by (simp add: http_run_def empty_resp_def)

lemma bw_status_run: "bw_status (fold bw_step ops new_buffering_writer) = (case first_status ops of Some n \<Rightarrow> n | None \<Rightarrow> 0)"
  using bw.wrapper_status [of new_buffering_writer ops]
  by (auto simp: new_buffering_writer_def split: option.splits)

lemma rw_recorded:
  assumes "list_all final_status ops"
  shows "hr_status (final_resp (http_run ops)) = Some (rw_final_status (fold rw_step ops new_response_writer))"
    and "rw_bytes (fold rw_step ops new_response_writer) = length (hr_body (http_run ops))"
  using rw.wrapper_status [of new_response_writer ops] http_run_status [OF assms] first_status_final [OF assms] http_body [of ops empty_resp]
  by (auto simp: final_resp_def rw_final_status_def new_response_writer_def http_run_def commit_header_def empty_resp_def
      split: option.splits)

section \<open>Property\<close>

text \<open>Both wrappers are invisible and remember what went out: for every handler that only sends final
  statuses, the client gets exactly the response of the bare handler, the recorded status is the one
  the client sees (200 when none was written), the byte count is the length of the body the client
  gets, and the buffer is that body.\<close>

theorem wrappers_transparent:
  assumes "list_all final_status ops"
  shows "http_run (rw_log (fold rw_step ops new_response_writer)) = http_run ops \<and>
    http_run (bw_log (fold bw_step ops new_buffering_writer)) = http_run ops \<and>
    hr_status (final_resp (http_run ops)) = Some (rw_final_status (fold rw_step ops new_response_writer)) \<and>
    rw_bytes (fold rw_step ops new_response_writer) = length (hr_body (http_run ops)) \<and>
    bw_buf (fold bw_step ops new_buffering_writer) = hr_body (http_run ops)"
  using rw_transparent [OF assms] bw_transparent [OF assms] rw_recorded [OF assms] bw_buffer_run [of ops] by simp

theorem wrappers_transparent_witness:
  "http_run (bw_log (fold bw_step [SetHeader ''Location'' ''/b/1'', WriteHeader 201, WriteBody ''ok'', WriteHeader 500] new_buffering_writer))
   = http_run [SetHeader ''Location'' ''/b/1'', WriteHeader 201, WriteBody ''ok'', WriteHeader 500]"
  using wrappers_transparent [of "[SetHeader ''Location'' ''/b/1'', WriteHeader 201, WriteBody ''ok'', WriteHeader 500]"]
  by simp

end
