(* ===== verification/Httpx_Middleware.thy ===== *)
theory Httpx_Middleware
  imports Response_Writer Ids
begin

text \<open>
  \<open>src/httpx/middleware.go\<close>: the request side of the HTTP surface. A handler takes a request and the
  state \<open>'w\<close> of everything it can change, and returns how it ended, the calls it made on its
  \<open>ResponseWriter\<close>, and the new state; a middleware is a function on handlers. What the router, the
  tracer and the clock put into a request is part of \<open>http_request\<close>; log lines and metrics are not
  modelled except for the record of the access log. The deadline of a request's context is a field of the
  request; what a call that honours it returns after it is a failure of that call.
\<close>

section \<open>Handlers\<close>

text \<open>The header names of every API.\<close>

abbreviation header_request_id :: string where "header_request_id \<equiv> ''X-Request-Id''"
abbreviation header_trace_id :: string where "header_trace_id \<equiv> ''X-Trace-Id''"
abbreviation header_idempotency :: string where "header_idempotency \<equiv> ''Idempotency-Key''"
abbreviation header_reason :: string where "header_reason \<equiv> ''X-Reason''"
abbreviation header_step_up :: string where "header_step_up \<equiv> ''X-Step-Up-Token''"
abbreviation header_device_id :: string where "header_device_id \<equiv> ''X-Device-Id''"
abbreviation header_retry_after_ms :: string where "header_retry_after_ms \<equiv> ''X-Retry-After-Ms''"
abbreviation header_csrf_token :: string where "header_csrf_token \<equiv> ''X-CSRF-Token''"
abbreviation header_provider_sig :: string where "header_provider_sig \<equiv> ''X-JWS-Signature''"
abbreviation header_provider_time :: string where "header_provider_time \<equiv> ''X-Timestamp''"

datatype read_error = MaxBytesError | ReadError string

text \<open>A body is the bytes that can be read, and the error that ends it, if it is not the end of the file.\<close>

record http_request =
  rq_method :: string
  rq_path :: string
  rq_route :: string
  rq_header :: header
  rq_content_length :: int
  rq_body :: "string \<times> read_error option"
  rq_query :: url_values
  rq_request_id :: string
  rq_trace_id :: string
  rq_deadline :: "go_time option"

datatype panic_value = AbortHandler | PanicWith string

datatype handler_result = HReturn | HPanic panic_value

type_synonym 'w http_handler = "http_request \<Rightarrow> 'w \<Rightarrow> handler_result \<times> wop list \<times> 'w"

definition before :: "wop list \<Rightarrow> handler_result \<times> wop list \<times> 'w \<Rightarrow> handler_result \<times> wop list \<times> 'w" where
  "before ops out = (case out of (r, ops', w) \<Rightarrow> (r, ops @ ops', w))"

definition request_header :: "http_request \<Rightarrow> string \<Rightarrow> string" where
  "request_header q k = header_get k (rq_header q)"

definition problem_ctx_of :: "string \<Rightarrow> http_request \<Rightarrow> problem_ctx" where
  "problem_ctx_of base q = \<lparr>pc_base_url = base, pc_path = rq_path q, pc_request_id = rq_request_id q, pc_trace_id = rq_trace_id q\<rparr>"

text \<open>What the package needs from outside: \<open>ProblemTypeBaseURL\<close>, the encoder of opaque values, the Unicode
  case tables.\<close>

record http_conf =
  hc_base_url :: string
  hc_enc :: "nat \<Rightarrow> string option"
  hc_uni :: "string \<Rightarrow> string"
  hc_fold :: "string \<Rightarrow> string \<Rightarrow> bool"

text \<open>\<open>strings.EqualFold\<close>.\<close>

definition equal_fold :: "http_conf \<Rightarrow> string \<Rightarrow> string \<Rightarrow> bool" where
  "equal_fold conf s t = (if list_all is_ascii s \<and> list_all is_ascii t
     then map ascii_lower s = map ascii_lower t else hc_fold conf s t)"

definition problem :: "http_conf \<Rightarrow> http_request \<Rightarrow> http_error \<Rightarrow> wop list" where
  "problem conf q e = write_problem (hc_enc conf) (problem_ctx_of (hc_base_url conf) q) e"

section \<open>Correlation\<close>

definition printable :: "char \<Rightarrow> bool" where
  "printable c \<longleftrightarrow> 0x20 \<le> byte_val c \<and> byte_val c \<le> 0x7e"

text \<open>A rune outside U+0020 to U+007E is a control character or starts with a byte above 0x7F, so the loop
  over runes is a test of bytes.\<close>

definition sanitise_correlation_id :: "string \<Rightarrow> string" where
  "sanitise_correlation_id v0 =
     (let v = trim_space v0
      in if length v = 0 \<or> 128 < length v then [] else if list_all printable v then v else [])"

definition request_context :: "string \<Rightarrow> string option \<Rightarrow> 'w http_handler \<Rightarrow> 'w http_handler" where
  "request_context fresh span next q w =
     (let given = sanitise_correlation_id (request_header q header_request_id);
          request_id = (if given = [] then fresh else given);
          span_id = (case span of Some t \<Rightarrow> t | None \<Rightarrow> []);
          trace_id = (if span_id = [] then sanitise_correlation_id (request_header q header_trace_id) else span_id);
          q' = q\<lparr>rq_request_id := request_id, rq_trace_id := (if trace_id = [] then rq_trace_id q else trace_id)\<rparr>
      in before ([SetHeader header_request_id request_id] @
           (if trace_id = [] then [] else [SetHeader header_trace_id trace_id])) (next q' w))"

section \<open>Access log and recovery\<close>

definition status_class :: "int \<Rightarrow> string" where
  "status_class n = (if n < 200 then ''1xx'' else if n < 300 then ''2xx'' else if n < 400 then ''3xx''
     else if n < 500 then ''4xx'' else ''5xx'')"

definition route_pattern :: "http_request \<Rightarrow> string" where
  "route_pattern q = (if rq_route q = [] then ''unmatched'' else rq_route q)"

record access_record =
  ac_method :: string
  ac_route :: string
  ac_status :: int
  ac_class :: string
  ac_bytes :: nat

definition access_log :: "'w http_handler \<Rightarrow> http_request \<Rightarrow> 'w \<Rightarrow> (handler_result \<times> wop list \<times> 'w) \<times> access_record option" where
  "access_log next q w = (case next q w of (r, ops, w') \<Rightarrow>
     (let rw = fold rw_step ops new_response_writer
      in ((r, rw_log rw, w'),
          if r = HReturn
          then Some \<lparr>ac_method = rq_method q, ac_route = route_pattern q, ac_status = rw_final_status rw,
                 ac_class = status_class (rw_final_status rw), ac_bytes = rw_bytes rw\<rparr>
          else None)))"

text \<open>\<open>fmt.Errorf("%v", rec)\<close> makes a new error that wraps nothing.\<close>

definition panic_text :: "panic_value \<Rightarrow> string" where
  "panic_text p = (case p of AbortHandler \<Rightarrow> ''net/http: abort Handler'' | PanicWith s \<Rightarrow> s)"

definition is_abort :: "panic_value \<Rightarrow> bool" where
  "is_abort p = err_is (new_err (panic_text p)) ''net/http: abort Handler''"

definition recoverer :: "http_conf \<Rightarrow> 'w http_handler \<Rightarrow> 'w http_handler" where
  "recoverer conf next q w = (case next q w of
       (HReturn, ops, w') \<Rightarrow> (HReturn, ops, w')
     | (HPanic p, ops, w') \<Rightarrow>
         if is_abort p then (HPanic p, ops, w')
         else (HReturn, ops @ problem conf q (ApiErr (err_internal (Some (PlainError (new_err (''panic: '' @ panic_text p)))))), w'))"

section \<open>Limits\<close>

text \<open>\<open>context.WithTimeout\<close> keeps the earlier of the two deadlines.\<close>

definition with_timeout :: "go_time \<Rightarrow> duration \<Rightarrow> go_time option \<Rightarrow> go_time option" where
  "with_timeout now d parent = (case parent of
       None \<Rightarrow> Some (now + d)
     | Some t \<Rightarrow> Some (min t (now + d)))"

definition timeout :: "go_time \<Rightarrow> duration \<Rightarrow> 'w http_handler \<Rightarrow> 'w http_handler" where
  "timeout now d next q w = next (q\<lparr>rq_deadline := with_timeout now d (rq_deadline q)\<rparr>) w"

definition max_body :: "http_conf \<Rightarrow> int \<Rightarrow> 'w http_handler \<Rightarrow> 'w http_handler" where
  "max_body conf limit next q w =
     (if limit < rq_content_length q
      then (HReturn, problem conf q (ApiErr (new_api_error 413 code_payload_too_large ''Payload too large''
               ''request body exceeds the configured limit'')), w)
      else next (q\<lparr>rq_body := (let (b, e) = rq_body q
             in if max 0 limit < int (length b) then (take (nat limit) b, Some MaxBytesError) else (b, e))\<rparr>) w)"

definition busy_problem :: api_error where
  "busy_problem = with_header ''Retry-After'' ''1'' (new_api_error 503 code_service_unavailable ''Service busy''
     ''the service is shedding load; retry shortly'')"

text \<open>\<open>Concurrency\<close>: the buffered channel is the number of its elements. A request enters, is served, and
  leaves, whether its handler returns or panics; a request that finds the channel full is shed.\<close>

record semaphore =
  sem_limit :: nat
  sem_used :: nat
  sem_serving :: "nat set"
  sem_shed :: "nat set"

inductive sem_step :: "semaphore \<Rightarrow> semaphore \<Rightarrow> bool" where
  sem_enter: "r \<notin> sem_serving s \<Longrightarrow> sem_used s < sem_limit s \<Longrightarrow>
    sem_step s (s\<lparr>sem_used := sem_used s + 1, sem_serving := insert r (sem_serving s)\<rparr>)"
| sem_refuse: "r \<notin> sem_serving s \<Longrightarrow> \<not> sem_used s < sem_limit s \<Longrightarrow>
    sem_step s (s\<lparr>sem_shed := insert r (sem_shed s)\<rparr>)"
| sem_leave: "r \<in> sem_serving s \<Longrightarrow>
    sem_step s (s\<lparr>sem_used := sem_used s - 1, sem_serving := sem_serving s - {r}\<rparr>)"

inductive sem_reach :: "nat \<Rightarrow> semaphore \<Rightarrow> bool" where
  sem_start: "sem_reach n \<lparr>sem_limit = n, sem_used = 0, sem_serving = {}, sem_shed = {}\<rparr>"
| sem_next: "sem_reach n s \<Longrightarrow> sem_step s t \<Longrightarrow> sem_reach n t"

inductive_cases sem_stepE: "sem_step s t"

definition sem_ok :: "nat \<Rightarrow> semaphore \<Rightarrow> bool" where
  "sem_ok n s \<longleftrightarrow> sem_limit s = n \<and> finite (sem_serving s) \<and> card (sem_serving s) = sem_used s \<and> sem_used s \<le> n"

lemma sem_step_ok: "sem_step s t \<Longrightarrow> sem_ok n s \<Longrightarrow> sem_ok n t"
  by (erule sem_stepE) (auto simp: sem_ok_def)

lemma sem_reach_ok: "sem_reach n s \<Longrightarrow> sem_ok n s"
  by (induction rule: sem_reach.induct) (auto simp: sem_ok_def [of _ "\<lparr>sem_limit = _, sem_used = _, sem_serving = _, sem_shed = _\<rparr>"]
      intro: sem_step_ok)

section \<open>Headers and CORS\<close>

definition security_headers :: "'w http_handler \<Rightarrow> 'w http_handler" where
  "security_headers next q w = before
     [SetHeader ''X-Content-Type-Options'' ''nosniff'', SetHeader ''X-Frame-Options'' ''DENY'',
      SetHeader ''Referrer-Policy'' ''no-referrer'', SetHeader ''Cross-Origin-Opener-Policy'' ''same-origin'',
      SetHeader ''Cross-Origin-Resource-Policy'' ''same-origin'',
      SetHeader ''Permissions-Policy'' ''geolocation=(), microphone=(), camera=()'',
      SetHeader ''Strict-Transport-Security'' ''max-age=31536000; includeSubDomains''] (next q w)"

definition private_cache :: "'w http_handler \<Rightarrow> 'w http_handler" where
  "private_cache next q w = before
     [SetHeader ''Cache-Control'' ''private, no-store'', SetHeader ''Vary'' ''Authorization''] (next q w)"

definition allowed_headers :: "string list \<Rightarrow> string list" where
  "allowed_headers extra = [''Authorization'', ''Content-Type'', header_idempotency, header_request_id,
     header_reason, header_csrf_token, header_device_id, header_step_up] @ extra"

definition origin_allowed :: "(string \<Rightarrow> string) \<Rightarrow> string list \<Rightarrow> string \<Rightarrow> bool" where
  "origin_allowed uni allowed origin \<longleftrightarrow>
     to_lower uni origin \<in> set (map (\<lambda>a. to_lower uni (trim_space a)) allowed)"

definition cors_headers :: "bool \<Rightarrow> string list \<Rightarrow> string \<Rightarrow> wop list" where
  "cors_headers credentials extra origin =
     [SetHeader ''Access-Control-Allow-Origin'' origin, AddHeader ''Vary'' ''Origin'',
      SetHeader ''Access-Control-Allow-Methods'' ''GET, POST, PATCH, DELETE, OPTIONS'',
      SetHeader ''Access-Control-Allow-Headers'' (join_with '', '' (allowed_headers extra)),
      SetHeader ''Access-Control-Max-Age'' ''600''] @
     (if credentials then [SetHeader ''Access-Control-Allow-Credentials'' ''true''] else [])"

definition cors :: "(string \<Rightarrow> string) \<Rightarrow> string list \<Rightarrow> bool \<Rightarrow> string list \<Rightarrow> 'w http_handler \<Rightarrow> 'w http_handler" where
  "cors uni allowed credentials extra next q w =
     (let origin = request_header q ''Origin'';
          ok = origin \<noteq> [] \<and> origin_allowed uni allowed origin;
          ops = (if ok then cors_headers credentials extra origin else [])
      in if origin \<noteq> [] \<and> \<not> ok \<and> rq_method q = ''OPTIONS'' then (HReturn, [WriteHeader 403], w)
         else if rq_method q = ''OPTIONS'' then (HReturn, ops @ [WriteHeader 204], w)
         else before ops (next q w))"


section \<open>Request bodies\<close>

text \<open>The errors of \<open>Decoder.Decode\<close>. Storing the parsed document into the destination is the argument
  \<open>into\<close> (reflection on a Go struct), and the error of a document that cannot be parsed is the argument
  \<open>bad\<close>, which gets the bytes and the read error.\<close>

datatype decode_error = DecMaxBytes | DecSyntax int | DecType string string | DecEOF | DecOther string

definition is_scalar :: "json \<Rightarrow> bool" where
  "is_scalar v = (case v of JArr _ \<Rightarrow> False | JObj _ \<Rightarrow> False | _ \<Rightarrow> True)"

definition read_decode_error :: "read_error \<Rightarrow> decode_error" where
  "read_decode_error e = (case e of MaxBytesError \<Rightarrow> DecMaxBytes | ReadError t \<Rightarrow> DecOther t)"

text \<open>One document from the stream; a scalar is complete only when another byte or the end follows it.\<close>

definition decode_value :: "(string \<Rightarrow> read_error option \<Rightarrow> decode_error) \<Rightarrow> string \<times> read_error option
    \<Rightarrow> decode_error + json \<times> string" where
  "decode_value bad body =
     (let (b, e) = body
      in case pval Some (parse_fuel b) b of
           None \<Rightarrow> Inl (bad b e)
         | Some (v, rest) \<Rightarrow>
             (case e of
                Some re \<Rightarrow> if is_scalar v \<and> rest = [] then Inl (read_decode_error re) else Inr (v, rest)
              | None \<Rightarrow> Inr (v, rest)))"

definition decoder_more :: "string \<Rightarrow> bool" where
  "decoder_more rest = (case skip_ws rest of [] \<Rightarrow> False | c # _ \<Rightarrow> c \<noteq> CHR '']'' \<and> c \<noteq> CHR ''}'')"

definition trim_quotes :: "string \<Rightarrow> string" where
  "trim_quotes s = rev (dropWhile (\<lambda>c. c = dquote) (rev (dropWhile (\<lambda>c. c = dquote) s)))"

definition payload_too_large :: api_error where
  "payload_too_large = new_api_error 413 code_payload_too_large ''Payload too large''
     ''request body exceeds the configured limit''"

definition decode_problem :: "decode_error \<Rightarrow> api_error" where
  "decode_problem e = (case e of
       DecMaxBytes \<Rightarrow> payload_too_large
     | DecSyntax n \<Rightarrow> err_validation (''malformed JSON at byte '' @ show_int n) []
     | DecType f t \<Rightarrow> err_validation ''invalid field type'' [\<lparr>fe_field = f, fe_message = ''expected '' @ t\<rparr>]
     | DecEOF \<Rightarrow> err_validation ''request body must not be empty'' []
     | DecOther t \<Rightarrow>
         if contains_sub t ''unknown field''
         then err_validation ''unknown field in request body''
           [\<lparr>fe_field = trim_quotes (trim_prefix t ''json: unknown field ''),
              fe_message = ''this field is server owned and must not be supplied''\<rparr>]
         else err_validation ''request body could not be parsed'' [])"

definition media_ok :: "http_conf \<Rightarrow> http_request \<Rightarrow> bool" where
  "media_ok conf q = (let ct = request_header q ''Content-Type''
     in ct = [] \<or> equal_fold conf (trim_space (hd (split_on (CHR '';'') ct))) ''application/json'')"

definition decode_json :: "http_conf \<Rightarrow> (string \<Rightarrow> read_error option \<Rightarrow> decode_error) \<Rightarrow> (json \<Rightarrow> decode_error + 'd)
    \<Rightarrow> http_request \<Rightarrow> api_error + 'd" where
  "decode_json conf bad into q =
     (if \<not> media_ok conf q
      then Inl (new_api_error 415 code_unsupported_media ''Unsupported media type'' ''Content-Type must be application/json'')
      else (case decode_value bad (rq_body q) of
          Inl e \<Rightarrow> Inl (decode_problem e)
        | Inr (v, rest) \<Rightarrow>
            (case into v of
               Inl e \<Rightarrow> Inl (decode_problem e)
             | Inr d \<Rightarrow>
                 if decoder_more rest then Inl (err_validation ''request body must contain exactly one JSON document'' [])
                 else Inr d)))"

section \<open>Responses\<close>

definition empty_collection :: "any_val \<Rightarrow> any_val" where
  "empty_collection v = (case v of
       VSlice None \<Rightarrow> VSlice (Some []) | VMap None \<Rightarrow> VMap (Some []) | _ \<Rightarrow> v)"

definition empty_collections :: "any_val \<Rightarrow> any_val" where
  "empty_collections body = (case body of
       VMap (Some env) \<Rightarrow> VMap (Some (map (\<lambda>(k, v). (k, empty_collection v)) env))
     | _ \<Rightarrow> body)"

definition write_json :: "http_conf \<Rightarrow> int \<Rightarrow> any_val \<Rightarrow> wop list" where
  "write_json conf status body =
     [SetHeader ''Content-Type'' ''application/json; charset=utf-8'', WriteHeader status] @
     (if body = VNil then []
      else (case encode_any (hc_enc conf) (empty_collections body) of
          None \<Rightarrow> [] | Some t \<Rightarrow> [WriteBody (t @ [CHR 0x0A])]))"

text \<open>Integer division of Go truncates towards zero. The seconds go through a \<open>float64\<close> in the code; the
  model divides exactly.\<close>

definition go_div :: "int \<Rightarrow> int \<Rightarrow> int" where
  "go_div a b = sgn a * (\<bar>a\<bar> div b)"

definition write_accepted :: "http_conf \<Rightarrow> string \<Rightarrow> duration \<Rightarrow> any_val \<Rightarrow> wop list" where
  "write_accepted conf url retry_after body =
     [SetHeader ''Location'' url,
      SetHeader header_retry_after_ms (show_int (go_div retry_after millisecond)),
      SetHeader ''Retry-After'' (show_int (go_div retry_after second + 1))] @ write_json conf 202 body"

definition path_id :: "ulid_codec \<Rightarrow> string \<Rightarrow> string \<Rightarrow> api_error + ID" where
  "path_id uc name raw = (case parse_id uc raw of
       Inl e \<Rightarrow> Inl (err_validation ''invalid identifier'' [\<lparr>fe_field = name, fe_message = ''must be a ULID''\<rparr>])
     | Inr i \<Rightarrow> Inr i)"

definition query_int :: "http_request \<Rightarrow> string \<Rightarrow> int \<Rightarrow> int \<Rightarrow> int \<Rightarrow> api_error + int" where
  "query_int q name def lo hi =
     (let raw = trim_space (values_get (rq_query q) name)
      in if raw = [] then Inr def
         else (case parse_int raw of
             None \<Rightarrow> Inl (err_validation ''invalid query parameter'' [\<lparr>fe_field = name, fe_message = ''must be an integer''\<rparr>])
           | Some v \<Rightarrow>
               if v < lo \<or> hi < v
               then Inl (err_validation ''query parameter out of range''
                 [\<lparr>fe_field = name, fe_message = ''must be within ['' @ show_int lo @ '', '' @ show_int hi @ '']''\<rparr>])
               else Inr v))"

section \<open>Properties\<close>

lemma problem_final:
  assumes "200 \<le> ae_status (as_api_error e)"
  shows "list_all final_status (problem conf q e)" "first_status (problem conf q e) = Some (ae_status (as_api_error e))"
proof -
  have h: "list_all final_status (map (\<lambda>(k, v). SetHeader k v) hs)" for hs
    by (induction hs) auto
  have f: "first_status (map (\<lambda>(k, v). SetHeader k v) hs @ ops) = first_status ops" for hs ops
    by (induction hs) auto
  show "list_all final_status (problem conf q e)"
    using assms h by (auto simp: problem_def write_problem_def Let_def problem_body_def split: option.split)
  show "first_status (problem conf q e) = Some (ae_status (as_api_error e))"
    by (simp add: problem_def write_problem_def Let_def f)
qed

lemma internal_problem:
  "list_all final_status (problem conf q (ApiErr (err_internal c)))" "first_status (problem conf q (ApiErr (err_internal c))) = Some 500"
  using problem_final [of "ApiErr (err_internal c)" conf q] by (simp_all add: as_api_error_def err_internal_def)

lemma is_abort_never [simp]: "\<not> is_abort p"
  by (simp add: is_abort_def)

lemma recoverer_returns:
  "recoverer conf next q w = (case next q w of
     (HReturn, ops, w') \<Rightarrow> (HReturn, ops, w')
   | (HPanic p, ops, w') \<Rightarrow>
       (HReturn, ops @ problem conf q (ApiErr (err_internal (Some (PlainError (new_err (''panic: '' @ panic_text p)))))), w'))"
  by (auto simp: recoverer_def split: handler_result.split prod.split)

lemma first_status_append: "first_status (xs @ ys) = (case first_status xs of Some n \<Rightarrow> Some n | None \<Rightarrow> first_status ys)"
  by (induction xs rule: first_status.induct) auto

text \<open>C15. Every request is answered and logged once: behind \<open>AccessLog\<close> and \<open>Recoverer\<close> every handler, also one that
  panics, returns and leaves one access record, with the first status it sent, or if it sent none 200 when it
  returned and 500 when it panicked (with \<open>http.ErrAbortHandler\<close> too: \<open>Recoverer\<close> means to raise it again and does
  not, see \<open>recoverer_swallows_abort\<close>). If the handler sends final statuses only, no informational (1xx) one, the
  record is truthful: its status and byte count are those of the response the client gets, and what a handler that
  returns sends is not changed.\<close>

theorem every_request_answered:
  assumes "next q w = (result, ops0, w')"
  shows "\<exists>ops a. access_log (recoverer conf next) q w = ((HReturn, ops, w'), Some a) \<and>
    (first_status ops0 = None \<longrightarrow> ac_status a = (if result = HReturn then 200 else 500)) \<and>
    (\<forall>n. first_status ops0 = Some n \<and> n \<noteq> 0 \<longrightarrow> ac_status a = n) \<and>
    (list_all final_status ops0 \<longrightarrow> hr_status (final_resp (http_run ops)) = Some (ac_status a) \<and>
       ac_bytes a = length (hr_body (http_run ops)) \<and> (result = HReturn \<longrightarrow> http_run ops = http_run ops0))"
proof -
  let ?p = "case result of HReturn \<Rightarrow> [] | HPanic p \<Rightarrow> problem conf q (ApiErr (err_internal (Some (PlainError (new_err (''panic: '' @ panic_text p))))))"
  let ?ops1 = "ops0 @ ?p"
  let ?rw = "fold rw_step ?ops1 new_response_writer"
  have r: "recoverer conf next q w = (HReturn, ?ops1, w')" by (cases result) (simp_all add: recoverer_returns assms)
  have p: "first_status ?p = (if result = HReturn then None else Some 500)" using internal_problem(2) by (cases result) simp_all
  have f1: "first_status ?ops1 = (case first_status ops0 of Some n \<Rightarrow> Some n | None \<Rightarrow> if result = HReturn then None else Some 500)"
    unfolding first_status_append p by (rule refl)
  have st: "rw_final_status ?rw = (case first_status ?ops1 of Some n \<Rightarrow> if n = 0 then 200 else n | None \<Rightarrow> 200)"
    using rw.wrapper_status [of new_response_writer ?ops1]
    by (auto simp: rw_final_status_def new_response_writer_def split: option.splits)
  have t: "list_all final_status ops0 \<Longrightarrow> http_run (rw_log ?rw) = http_run ?ops1 \<and>
      hr_status (final_resp (http_run ?ops1)) = Some (rw_final_status ?rw) \<and> rw_bytes ?rw = length (hr_body (http_run ?ops1))"
    using rw_transparent [of ?ops1] rw_recorded [of ?ops1] internal_problem(1) by (cases result) simp_all
  show ?thesis using r f1 st t by (auto simp: access_log_def Let_def)
qed

text \<open>C20. The semaphore holds: in every reachable state of the concurrency limit at most \<open>limit\<close> requests are
  being served, the channel holds exactly one element per request being served, and a request is shed
  only while \<open>limit\<close> requests are being served.\<close>

theorem concurrency_bound:
  assumes "sem_reach limit s"
  shows "card (sem_serving s) \<le> limit \<and> card (sem_serving s) = sem_used s \<and>
    (\<forall>t. sem_step s t \<and> sem_shed t \<noteq> sem_shed s \<longrightarrow> card (sem_serving s) = limit)"
proof -
  have ok: "sem_ok limit s" by (rule sem_reach_ok [OF assms])
  have "card (sem_serving s) = limit" if "sem_step s t" "sem_shed t \<noteq> sem_shed s" for t
    using that(1)
  proof (rule sem_stepE)
    fix r assume "\<not> sem_used s < sem_limit s"
    with ok show ?thesis by (auto simp: sem_ok_def)
  qed (use that(2) in auto)
  then show ?thesis using ok by (auto simp: sem_ok_def)
qed

theorem concurrency_bound_witness:
  "card (sem_serving \<lparr>sem_limit = 1, sem_used = 1, sem_serving = {7}, sem_shed = {}\<rparr>) \<le> 1"
proof -
  let ?s = "\<lparr>sem_limit = 1, sem_used = 0, sem_serving = {}, sem_shed = {}\<rparr>"
  have "sem_reach 1 (?s\<lparr>sem_used := sem_used ?s + 1, sem_serving := insert 7 (sem_serving ?s)\<rparr>)"
    by (rule sem_next [OF sem_start sem_enter]) simp_all
  from concurrency_bound [OF this] show ?thesis by simp
qed

text \<open>\<open>Recoverer\<close> swallows every panic, also \<open>http.ErrAbortHandler\<close>: its test formats the panic value
  into a new error that wraps nothing, so the branch that should panic again is never taken; the aborted
  connection is answered with a 500 document when no status was written, and appended to the body
  otherwise.\<close>

theorem recoverer_swallows_abort:
  assumes "next q w = (HPanic AbortHandler, ops, w')"
  shows "\<exists>body. recoverer conf next q w = (HReturn, ops @ [SetHeader ''Content-Type'' problem_content_type,
    SetHeader ''Cache-Control'' ''no-store'', WriteHeader 500] @ body, w')"
  using assms
  by (auto simp: recoverer_def is_abort_def problem_def write_problem_def as_api_error_def err_internal_def)

definition sample_conf :: http_conf where
  "sample_conf = \<lparr>hc_base_url = [], hc_enc = (\<lambda>_. None), hc_uni = (\<lambda>s. s), hc_fold = (\<lambda>s t. s = t)\<rparr>"

definition sample_request :: http_request where
  "sample_request = \<lparr>rq_method = ''POST'', rq_path = ''/boxes'', rq_route = ''/boxes'', rq_header = [],
     rq_content_length = 2, rq_body = (''{}'', None), rq_query = [], rq_request_id = ''r1'', rq_trace_id = [], rq_deadline = None\<rparr>"

theorem recoverer_swallows_abort_witness:
  "fst (recoverer sample_conf (\<lambda>q w. (HPanic AbortHandler, [WriteBody ''partial''], w)) sample_request ()) = HReturn"
  using recoverer_swallows_abort [of "\<lambda>q w. (HPanic AbortHandler, [WriteBody ''partial''], w)" sample_request "()"
      "[WriteBody ''partial'']" "()" sample_conf] by auto

theorem every_request_answered_witness:
  "\<exists>ops a. access_log (recoverer sample_conf (\<lambda>q w. (HPanic (PanicWith ''boom''), [SetHeader ''Location'' ''/b''], w))) sample_request () = ((HReturn, ops, ()), Some a) \<and>
     hr_status (final_resp (http_run ops)) = Some 500 \<and> ac_status a = 500"
  using every_request_answered [of "\<lambda>q w. (HPanic (PanicWith ''boom''), [SetHeader ''Location'' ''/b''], w)" sample_request "()", OF refl, of sample_conf]
  by auto

text \<open>A handler behind nested timeouts runs under the earliest of their deadlines, never under a later one.\<close>

theorem timeouts_nest:
  "timeout now1 d1 (timeout now2 d2 next) q w =
     next (q\<lparr>rq_deadline := Some (min (the (with_timeout now1 d1 (rq_deadline q))) (now2 + d2))\<rparr>) w"
  by (simp add: timeout_def with_timeout_def split: option.split)

definition touches_cors :: "wop \<Rightarrow> bool" where
  "touches_cors x = (case x of
       SetHeader k v \<Rightarrow> canonical_key k = canonical_key ''Access-Control-Allow-Origin''
     | AddHeader k v \<Rightarrow> canonical_key k = canonical_key ''Access-Control-Allow-Origin''
     | _ \<Rightarrow> False)"

lemma header_untouched:
  "list_all (\<lambda>x. \<not> touches_cors x) ops \<Longrightarrow>
     header_values ''Access-Control-Allow-Origin'' (hr_header (fold http_op ops r)) =
     header_values ''Access-Control-Allow-Origin'' (hr_header r)"
proof (induction ops arbitrary: r)
  case (Cons x ops)
  then have "header_values ''Access-Control-Allow-Origin'' (hr_header (http_op x r)) =
      header_values ''Access-Control-Allow-Origin'' (hr_header r)"
    by (cases x) (auto simp: touches_cors_def Let_def)
  with Cons show ?case by simp
qed simp

lemma canonical_cors_keys:
  "canonical_key ''Access-Control-Allow-Origin'' = ''Access-Control-Allow-Origin''"
  "canonical_key ''Vary'' = ''Vary''"
  "canonical_key ''Access-Control-Allow-Methods'' = ''Access-Control-Allow-Methods''"
  "canonical_key ''Access-Control-Allow-Headers'' = ''Access-Control-Allow-Headers''"
  "canonical_key ''Access-Control-Max-Age'' = ''Access-Control-Max-Age''"
  "canonical_key ''Access-Control-Allow-Credentials'' = ''Access-Control-Allow-Credentials''"
  by (simp_all add: canonical_key_def token_char_def byte_val_def ascii_upper_def ascii_lower_def)

lemma cors_headers_origin:
  "header_values ''Access-Control-Allow-Origin'' (hr_header (fold http_op (cors_headers cr extra origin) r)) = [origin]"
  by (simp add: cors_headers_def canonical_cors_keys header_values_def map_of_header_put)

text \<open>The cross origin answer is exactly the allowlist: whatever the handler does with its other headers,
  the origin the browser is told to trust is the request's own origin when the allowlist has it, in any
  case, and none otherwise; with an empty allowlist it is none.\<close>

theorem cors_origin_exact:
  assumes "cors uni allowed cr extra next q w = (res, ops, w')" and "list_all (\<lambda>x. \<not> touches_cors x) (fst (snd (next q w)))"
  shows "header_get ''Access-Control-Allow-Origin'' (hr_header (http_run ops)) =
    (if origin_allowed uni allowed (request_header q ''Origin'') then request_header q ''Origin'' else [])"
proof -
  let ?o = "request_header q ''Origin''"
  let ?ok = "?o \<noteq> [] \<and> origin_allowed uni allowed ?o"
  let ?ops = "if ?ok then cors_headers cr extra ?o else []"
  obtain tail where t: "ops = ?ops @ tail" "list_all (\<lambda>x. \<not> touches_cors x) tail"
  proof (cases "rq_method q = ''OPTIONS''")
    case True
    with assms(1) have "ops = ?ops @ [WriteHeader 403] \<or> ops = ?ops @ [WriteHeader 204]"
      by (auto simp: cors_def Let_def split: if_splits)
    then show ?thesis using that [of "[WriteHeader 403]"] that [of "[WriteHeader 204]"]
      by (auto simp: touches_cors_def)
  next
    case False
    with assms have "ops = ?ops @ fst (snd (next q w))"
      by (auto simp: cors_def Let_def before_def split: prod.splits)
    then show ?thesis using that assms(2) by blast
  qed
  have "header_values ''Access-Control-Allow-Origin'' (hr_header (fold http_op ?ops empty_resp)) = (if ?ok then [?o] else [])"
    using cors_headers_origin by (simp add: empty_resp_def header_values_def)
  then show ?thesis
    using header_untouched [OF t(2), of "fold http_op ?ops empty_resp"]
    by (auto simp: header_get_def http_run_def t(1))
qed

theorem cors_origin_exact_witness:
  "header_get ''Access-Control-Allow-Origin'' (hr_header (http_run (fst (snd (cors (\<lambda>s. s) [] True [] (\<lambda>q w. (HReturn, [WriteBody ''x''], w))
     (sample_request\<lparr>rq_header := [(''Origin'', [''https://evil.example''])]\<rparr>) ()))))) = []"
proof -
  let ?q = "sample_request\<lparr>rq_header := [(''Origin'', [''https://evil.example''])]\<rparr>"
  let ?h = "\<lambda>q w. (HReturn, [WriteBody ''x''], w)"
  obtain res ops w' where c: "cors (\<lambda>s. s) [] True [] ?h ?q () = (res, ops, w')"
    by (cases "cors (\<lambda>s. s) [] True [] ?h ?q ()") auto
  have "list_all (\<lambda>x. \<not> touches_cors x) (fst (snd (?h ?q ())))" by (simp add: touches_cors_def)
  from cors_origin_exact [OF c this] show ?thesis unfolding c by (simp add: origin_allowed_def)
qed

text \<open>\<open>DecodeJSON\<close> does not check that the body is one document: a body that continues, after a document
  the destination accepts, with a closing bracket or brace and any bytes at all, is accepted, because
  \<open>Decoder.More\<close> answers false at a closing delimiter.\<close>

theorem decode_trailing_garbage:
  assumes "media_ok conf q" and "good Some v" and "into (norm v) = Inr d"
    and "rq_body q = (write_canonical v @ c # junk, None)" and "c = CHR ''}'' \<or> c = CHR '']''"
  shows "decode_json conf bad into q = Inr d"
proof -
  have d: "delim (c # junk)" using assms(5) by auto
  have l: "2 * length (write_canonical v @ c # junk) < parse_fuel (write_canonical v @ c # junk)"
    by (simp add: parse_fuel_def)
  note reads_backD [OF read_back_size(1) [OF assms(2)] d l]
  moreover have "skip_ws (c # junk) = c # junk" using assms(5) by auto
  ultimately show ?thesis using assms
    by (auto simp: decode_json_def decode_value_def decoder_more_def simp del: pval.simps)
qed

theorem decode_trailing_garbage_witness:
  "decode_json sample_conf (\<lambda>_ _. DecEOF) (\<lambda>v. Inr v)
     (sample_request\<lparr>rq_body := (''{}'' @ ''}garbage'', None)\<rparr>) = Inr (JObj [])"
  by (rule decode_trailing_garbage [where v = "JObj []" and c = "CHR ''}''" and junk = "''garbage''"])
    (simp_all add: media_ok_def request_header_def sample_request_def header_get_def header_values_def
      write_JObj norm_JObj)

end
