(* ===== verification/Idempotency_Middleware.thy ===== *)
theory Idempotency_Middleware
  imports Idempotency_Store Httpx_Middleware
begin

text \<open>
  \<open>src/idempotency/middleware.go\<close> and \<open>src/idempotency/context.go\<close>: the middleware that claims the key of
  a mutation, runs the handler behind a \<open>bufferingWriter\<close> (see \<open>Response_Writer\<close>), and stores or replays
  the response. The handler also sees the table of records, because it can complete its own record
  inside its transaction, and it returns the identifiers it passed to \<open>SetResourceID\<close>. The state of a
  request is the pair of the handler's state and the table.
\<close>

section \<open>The handler's side\<close>

record idem_ctx =
  ic_key :: string
  ic_scope :: string
  ic_hash :: string

type_synonym 'w idem_handler = "http_request \<Rightarrow> idem_ctx option \<Rightarrow> 'w \<times> idem_db
    \<Rightarrow> handler_result \<times> wop list \<times> ID list \<times> 'w \<times> idem_db"

definition context_with_values :: "string \<Rightarrow> string \<Rightarrow> string \<Rightarrow> idem_ctx" where
  "context_with_values key scope hash = \<lparr>ic_key = key, ic_scope = scope, ic_hash = hash\<rparr>"

definition key_from_context :: "idem_ctx option \<Rightarrow> string" where
  "key_from_context c = (case c of Some x \<Rightarrow> ic_key x | None \<Rightarrow> [])"

definition scope_from_context :: "idem_ctx option \<Rightarrow> string" where
  "scope_from_context c = (case c of Some x \<Rightarrow> ic_scope x | None \<Rightarrow> [])"

definition hash_from_context :: "idem_ctx option \<Rightarrow> string" where
  "hash_from_context c = (case c of Some x \<Rightarrow> ic_hash x | None \<Rightarrow> [])"

text \<open>The holder keeps the last identifier.\<close>

definition resource_after :: "ID list \<Rightarrow> id_opt" where
  "resource_after calls = fold (\<lambda>i holder. some_id i) calls none_id"

section \<open>The middleware\<close>

definition max_stored_body :: nat where "max_stored_body = 64 * 1024"

text \<open>An empty buffer is a nil slice, which is stored as \<open>NULL\<close>.\<close>

definition stored_payload :: "string \<Rightarrow> string option" where
  "stored_payload buf = (if buf = [] \<or> max_stored_body < length buf then None else Some buf)"

definition idem_bypass :: "http_request \<Rightarrow> bool" where
  "idem_bypass q \<longleftrightarrow> rq_method q \<in> {''GET'', ''HEAD'', ''OPTIONS''}"

record digest_env =
  dg_sha :: "string \<Rightarrow> string"
  dg_num :: "string \<Rightarrow> string option"

text \<open>Everything before the claim: either the problem to answer with, or scope, key, route and digest.\<close>

definition idem_admit :: "http_conf \<Rightarrow> digest_env \<Rightarrow> (http_request \<Rightarrow> http_error + string) \<Rightarrow> http_request
    \<Rightarrow> wop list + string \<times> string \<times> string \<times> string" where
  "idem_admit conf dg scope q =
     (let route = rq_method q @ '' '' @ route_pattern q;
          key = trim_space (request_header q header_idempotency)
      in if key = [] then Inl (problem conf q (ApiErr (new_api_error 400 code_idempotency_key_required
             ''Idempotency-Key required'' ''every mutation must carry an Idempotency-Key header'')))
         else if 255 < length key then Inl (problem conf q (ApiErr (err_validation ''Idempotency-Key must not exceed 255 characters'' [])))
         else (case scope q of
             Inl e \<Rightarrow> Inl (problem conf q e)
           | Inr actor \<Rightarrow>
               (case rq_body q of
                  (b, Some e) \<Rightarrow> Inl (problem conf q (ApiErr (err_validation ''request body could not be read'' [])))
                | (b, None) \<Rightarrow> Inr (actor, key, route, request_hash (dg_sha dg) (dg_num dg) actor route b))))"

definition replay_ops :: "idem_record \<Rightarrow> wop list" where
  "replay_ops r = [SetHeader ''Content-Type'' ''application/json; charset=utf-8'',
     SetHeader ''Idempotency-Replayed'' ''true'', SetHeader ''Cache-Control'' ''no-store'',
     WriteHeader (if rc_status r = 0 then 200 else rc_status r), WriteBody (rc_body r)]"

definition begin_problem :: "http_conf \<Rightarrow> http_request \<Rightarrow> go_error \<Rightarrow> wop list" where
  "begin_problem conf q e =
     (if err_is e ''idempotency key reused with a different request''
      then problem conf q (ApiErr (api_err_conflict code_idempotency_conflict
             ''this Idempotency-Key was already used with a different request body''))
      else if err_is e ''an identical request is already in progress''
      then problem conf q (ApiErr (with_header ''Retry-After'' ''1'' (api_err_conflict code_request_in_progress
             ''an identical request is still being processed'')))
      else problem conf q (ApiErr (err_internal (Some (PlainError e)))))"

record idem_env =
  ie_begin :: begin_env
  ie_now :: go_time
  ie_ttl :: duration
  ie_done :: go_time
  ie_complete :: stmt_fault
  ie_fail :: stmt_fault

text \<open>What becomes of the record when the handler has returned. A failing statement is only logged.\<close>

definition idem_store :: "idem_env \<Rightarrow> string \<Rightarrow> string \<Rightarrow> buffering_writer \<Rightarrow> ID list \<Rightarrow> idem_db \<Rightarrow> idem_db" where
  "idem_store env actor key bw calls db =
     (let status = (if bw_status bw = 0 then 200 else bw_status bw)
      in if 200 \<le> status \<and> status < 400
         then snd (complete_record (ie_complete env) (ie_done env) actor key status (stored_payload (bw_buf bw)) (resource_after calls) db)
         else if status = 429 \<or> 500 \<le> status
         then snd (fail_record (ie_fail env) (ie_done env) actor key db)
         else snd (complete_record (ie_complete env) (ie_done env) actor key status (stored_payload (bw_buf bw)) none_id db))"

definition idem_execute :: "idem_env \<Rightarrow> 'w idem_handler \<Rightarrow> http_request \<Rightarrow> string \<Rightarrow> string \<Rightarrow> string \<Rightarrow> 'w \<times> idem_db
    \<Rightarrow> handler_result \<times> wop list \<times> 'w \<times> idem_db" where
  "idem_execute env next q actor key hash st =
     (case next q (Some (context_with_values key actor hash)) st of (r, ops, calls, w', db') \<Rightarrow>
        (let bw = fold bw_step ops new_buffering_writer
         in (case r of
               HPanic p \<Rightarrow> (HPanic p, bw_log bw, w', db')
             | HReturn \<Rightarrow> (HReturn, bw_log bw, w', idem_store env actor key bw calls db'))))"

definition idem_begin_req :: "idem_env \<Rightarrow> string \<Rightarrow> string \<Rightarrow> string \<Rightarrow> string \<Rightarrow> begin_req" where
  "idem_begin_req env actor key route hash =
     \<lparr>bq_now = ie_now env, bq_ttl = store_ttl (ie_ttl env), bq_scope = actor, bq_key = key, bq_route = route, bq_hash = hash\<rparr>"

definition idem_middleware :: "http_conf \<Rightarrow> digest_env \<Rightarrow> ulid_codec \<Rightarrow> (http_request \<Rightarrow> http_error + string) \<Rightarrow> idem_env
    \<Rightarrow> 'w idem_handler \<Rightarrow> http_request \<Rightarrow> 'w \<times> idem_db \<Rightarrow> handler_result \<times> wop list \<times> 'w \<times> idem_db" where
  "idem_middleware conf dg uc scope env next q st =
     (if idem_bypass q then (case next q None st of (r, ops, calls, st') \<Rightarrow> (r, ops, st'))
      else (case idem_admit conf dg scope q of
          Inl ops \<Rightarrow> (HReturn, ops, st)
        | Inr (actor, key, route, hash) \<Rightarrow>
            (case begin_claim uc (idem_begin_req env actor key route hash) (ie_begin env) (snd st) of
               (TxErr e, _, db') \<Rightarrow> (HReturn, begin_problem conf q e, fst st, db')
             | (TxPanic p, _, db') \<Rightarrow> (HPanic (PanicWith p), [], fst st, db')
             | (TxOk, Some r, db') \<Rightarrow> (HReturn, replay_ops r, fst st, db')
             | (TxOk, None, db') \<Rightarrow> idem_execute env next q actor key hash (fst st, db'))))"

section \<open>Lemmas\<close>

lemma resource_after_clean: "resource_after calls = none_id \<or> (\<exists>i. resource_after calls = some_id i)"
proof -
  have "h = none_id \<or> (\<exists>i. h = some_id i) \<Longrightarrow>
      fold (\<lambda>i holder. some_id i) calls h = none_id \<or> (\<exists>i. fold (\<lambda>i holder. some_id i) calls h = some_id i)" for h
    by (induction calls arbitrary: h) auto
  then show ?thesis by (simp add: resource_after_def)
qed

lemma scan_complete_any:
  assumes "scan_record uc r = Inr x"
  shows "\<exists>z. scan_record uc (complete_row now status body (resource_after calls) r) =
     Inr (x\<lparr>rc_state := state_completed, rc_status := status,
       rc_body := (case body of Some b \<Rightarrow> b | None \<Rightarrow> []), rc_resource := z\<rparr>)"
proof -
  have "\<exists>z. opt_scan uc (opt_value (resource_after calls)) = Inr z"
    using resource_after_clean [of calls]
    by (auto simp: opt_value_def opt_scan_def id_scan_def from_bytes_def some_id_def none_id_def)
  then show ?thesis using assms by (auto simp: scan_record_def complete_row_def split: sum.splits)
qed

lemma run_replay:
  assumes "200 \<le> rc_status r"
  shows "hr_status (http_run (replay_ops r)) = Some (rc_status r)" "hr_body (http_run (replay_ops r)) = rc_body r"
  using assms by (simp_all add: http_run_def replay_ops_def empty_resp_def)

lemma stored_payload_body:
  "(case stored_payload b of Some c \<Rightarrow> c | None \<Rightarrow> []) = (if length b \<le> max_stored_body then b else [])"
  by (simp add: stored_payload_def)

lemma problem_status: "200 \<le> ae_status a \<Longrightarrow> hr_status (http_run (problem conf q (ApiErr a))) = Some (ae_status a)"
  using write_problem_response [of "ApiErr a"] by (simp add: problem_def as_api_error_def)

text \<open>A request that is admitted and whose claim makes it the owner is executed; one that finds the completed
  record of the same digest gets the stored response; one that finds the record in progress is refused.\<close>

lemma middleware_owner:
  assumes "\<not> idem_bypass q" and "idem_admit conf dg scope q = Inr (s, k, rt, h)"
    and "begin_claim uc (idem_begin_req env s k rt h) (ie_begin env) db = (TxOk, None, db')"
  shows "idem_middleware conf dg uc scope env nxt q (w, db) = idem_execute env nxt q s k h (w, db')"
  using assms by (simp add: idem_middleware_def)

lemma middleware_replays:
  assumes "\<not> idem_bypass q" and "idem_admit conf dg scope q = Inr (s, k, rt, h)" and "calm_begin (ie_begin env)"
    and "idem_find s k db = Some row" and "scan_record uc row = Inr x"
    and "rc_hash x = h" and "rc_state x = state_completed" and "ie_now env \<le> rc_expires x"
  shows "idem_middleware conf dg uc scope env nxt q (w, db) = (HReturn, replay_ops x, w, db)"
proof -
  have "begin_claim uc (idem_begin_req env s k rt h) (ie_begin env) db = (TxOk, Some x, db)"
    using begin_claim_existing [OF assms(3), of "idem_begin_req env s k rt h" db row uc x] assms(4-8)
    by (simp add: idem_begin_req_def claim_spec_def)
  then show ?thesis using assms(1,2) by (simp add: idem_middleware_def)
qed

lemma middleware_busy:
  assumes "\<not> idem_bypass q" and "idem_admit conf dg scope q = Inr (s, k, rt, h)" and "calm_begin (ie_begin env)"
    and "idem_find s k db = Some row" and "scan_record uc row = Inr x"
    and "rc_state x \<notin> {state_completed, state_failed}" and "ie_now env \<le> rc_expires x"
  shows "idem_middleware conf dg uc scope env nxt q (w, db)
     = (HReturn, begin_problem conf q (if rc_hash x = h then err_in_progress else err_conflict), w, db)"
proof -
  have "begin_claim uc (idem_begin_req env s k rt h) (ie_begin env) db
      = (TxErr (if rc_hash x = h then err_in_progress else err_conflict), None, db)"
    using begin_claim_existing [OF assms(3), of "idem_begin_req env s k rt h" db row uc x] assms(4-7)
    by (auto simp: idem_begin_req_def claim_spec_def)
  then show ?thesis using assms(1,2) by (simp add: idem_middleware_def)
qed

lemma busy_status:
  "hr_status (http_run (begin_problem conf q (if h2 = h then err_in_progress else err_conflict))) = Some 409"
  using problem_status [of "api_err_conflict c d"  for c d] problem_status [of "with_header a b (api_err_conflict c d)" for a b c d]
  by (simp add: begin_problem_def err_in_progress_def err_conflict_def api_err_conflict_def new_api_error_def)

text \<open>A final answer that is neither 429 nor a server error is stored with the record, whatever else the handler did
  to the record before; when the statement fails, the record is what the handler left.\<close>

lemma idem_store_final:
  assumes "bw_status bw = n" "200 \<le> n" "n < 500" "n \<noteq> 429"
  shows "\<exists>ids. idem_store env s k bw calls db =
    snd (complete_record (ie_complete env) (ie_done env) s k n (stored_payload (bw_buf bw)) (resource_after ids) db)"
proof -
  have none: "none_id = resource_after []" by (simp add: resource_after_def)
  show ?thesis
  proof (cases "n < 400")
    case True
    with assms show ?thesis by (auto simp: idem_store_def Let_def)
  next
    case False
    with assms have "idem_store env s k bw calls db =
        snd (complete_record (ie_complete env) (ie_done env) s k n (stored_payload (bw_buf bw)) none_id db)"
      by (simp add: idem_store_def Let_def)
    with none show ?thesis by metis
  qed
qed

definition completed_as :: "idem_record \<Rightarrow> int \<Rightarrow> string \<Rightarrow> idem_record \<Rightarrow> bool" where
  "completed_as x n body y \<longleftrightarrow> rc_hash y = rc_hash x \<and> rc_expires y = rc_expires x \<and> rc_state y = state_completed \<and>
     rc_status y = n \<and> rc_body y = body"

lemma complete_stmt_completes:
  assumes "idem_find s k db = Some row" and "scan_record uc row = Inr x" and "200 \<le> n"
  shows "\<exists>row' y. idem_find s k (complete_stmt now s k n body (resource_after ids) db) = Some row' \<and>
    scan_record uc row' = Inr y \<and> completed_as x n (case body of Some b \<Rightarrow> b | None \<Rightarrow> []) y"
proof -
  obtain z where "scan_record uc (complete_row now n body (resource_after ids) row) =
     Inr (x\<lparr>rc_state := state_completed, rc_status := n,
       rc_body := (case body of Some b \<Rightarrow> b | None \<Rightarrow> []), rc_resource := z\<rparr>)"
    using scan_complete_any [OF assms(2)] by blast
  then show ?thesis using assms(1) by (auto simp: complete_stmt_def idem_find_update completed_as_def)
qed

lemma idem_store_completes:
  assumes "idem_find s k db = Some row" and "scan_record uc row = Inr x" and "ie_complete env = None"
    and "bw_status bw = n" "200 \<le> n" "n < 500" "n \<noteq> 429"
  shows "\<exists>row' y. idem_find s k (idem_store env s k bw calls db) = Some row' \<and>
    scan_record uc row' = Inr y \<and> completed_as x n (if length (bw_buf bw) \<le> max_stored_body then bw_buf bw else []) y"
proof -
  obtain ids where st: "idem_store env s k bw calls db =
      complete_stmt (ie_done env) s k n (stored_payload (bw_buf bw)) (resource_after ids) db"
    using idem_store_final [OF assms(4-7), of env s k calls db] assms(3) by (auto simp: complete_record_def)
  show ?thesis
    using complete_stmt_completes [OF assms(1,2,5), of "ie_done env" "stored_payload (bw_buf bw)" ids]
    unfolding st stored_payload_body .
qed

section \<open>Properties\<close>

text \<open>C6. A retry is answered with the first response: when a request that owns its key is answered with a
  final status that is neither 429 nor a server error, then a later request with the same scope, key,
  route and digest, before the record expires, gets the same status and the same body, for any handler,
  which is not run, and nothing changes; except that a body of more than 64 KiB is replayed as an empty
  one.\<close>

theorem replay_verbatim:
  assumes "\<not> idem_bypass q1" and "\<not> idem_bypass q2"
    and "idem_admit conf dg scope q1 = Inr (s, k, rt, h)" and "idem_admit conf dg scope q2 = Inr (s, k, rt, h)"
    and "idem_find s k db = None" and "be_insert (ie_begin env1) = None" and "ie_complete env1 = None"
    and handler: "nxt q1 (Some (context_with_values k s h)) (w, db @ [fresh_row (idem_begin_req env1 s k rt h) (be_ids (ie_begin env1) 0)])
      = (HReturn, ops, calls, w1, dbh)"
    and frame: "idem_find s k dbh = Some (fresh_row (idem_begin_req env1 s k rt h) (be_ids (ie_begin env1) 0))"
    and "list_all final_status ops"
    and status: "first_status ops = Some n" "n < 500" "n \<noteq> 429"
    and "calm_begin (ie_begin env2)" and "ie_now env2 \<le> ie_now env1 + store_ttl (ie_ttl env1)"
  shows "\<exists>ops1 db1 ops2. idem_middleware conf dg uc scope env1 nxt q1 (w, db) = (HReturn, ops1, w1, db1) \<and>
    idem_middleware conf dg uc scope env2 nxt' q2 (w2, db1) = (HReturn, ops2, w2, db1) \<and>
    hr_status (http_run ops2) = hr_status (http_run ops1) \<and>
    hr_body (http_run ops2) =
      (if length (hr_body (http_run ops1)) \<le> max_stored_body then hr_body (http_run ops1) else [])"
proof -
  let ?q = "idem_begin_req env1 s k rt h"
  let ?row = "fresh_row ?q (be_ids (ie_begin env1) 0)"
  let ?bw = "fold bw_step ops new_buffering_writer"
  let ?db1 = "idem_store env1 s k ?bw calls dbh"
  have n: "200 \<le> n" using first_status_final assms(10) status(1) by blast
  have bs: "bw_status ?bw = n" using status(1) by (simp add: bw_status_run)
  have "begin_claim uc ?q (ie_begin env1) db = (TxOk, None, db @ [?row])"
    using begin_claim_new [of "ie_begin env1" ?q db uc] assms(5,6) by (simp add: idem_begin_req_def)
  from middleware_owner [OF assms(1,3) this, of nxt w]
  have run1: "idem_middleware conf dg uc scope env1 nxt q1 (w, db) = (HReturn, bw_log ?bw, w1, ?db1)"
    using handler by (simp add: idem_execute_def Let_def)
  obtain row' y where f: "idem_find s k ?db1 = Some row'" and y: "scan_record uc row' = Inr y"
    and c: "rc_hash y = h" "rc_expires y = ie_now env1 + store_ttl (ie_ttl env1)" "rc_state y = state_completed" "rc_status y = n"
      "rc_body y = (if length (bw_buf ?bw) \<le> max_stored_body then bw_buf ?bw else [])"
    using idem_store_completes [OF frame scan_fresh_row [of uc] assms(7) bs n status(2,3), of calls]
    by (auto simp: completed_as_def idem_begin_req_def)
  have run2: "idem_middleware conf dg uc scope env2 nxt' q2 (w2, ?db1) = (HReturn, replay_ops y, w2, ?db1)"
    by (rule middleware_replays [OF assms(2,4,14) f y c(1,3)]) (use c(2) assms(15) in simp)
  show ?thesis
    using run1 run2 run_replay [of y] c n bw_transparent [OF assms(10)] bw_buffer_run [of ops]
      http_run_status [OF assms(10)] status(1) by auto
qed


text \<open>A concrete deployment: a digest that is the message itself, one actor, a handler that creates box 1.\<close>

definition sample_digests :: digest_env where
  "sample_digests = \<lparr>dg_sha = (\<lambda>m. m), dg_num = exact_num\<rparr>"

definition sample_idem_env :: idem_env where
  "sample_idem_env = \<lparr>ie_begin = quiet_env, ie_now = 100, ie_ttl = 0, ie_done = 110, ie_complete = None, ie_fail = None\<rparr>"

definition keyed_request :: http_request where
  "keyed_request = sample_request\<lparr>rq_header := [(''Idempotency-Key'', [''k1''])]\<rparr>"

definition one_actor :: "http_request \<Rightarrow> http_error + string" where
  "one_actor q = Inr ''user:1''"

definition sample_hash :: string where
  "sample_hash = request_hash (\<lambda>m. m) exact_num ''user:1'' ''POST /boxes'' ''{}''"

lemmas idem_samples = sample_digests_def sample_idem_env_def keyed_request_def one_actor_def sample_request_def

lemma sample_admit:
  "idem_admit sample_conf sample_digests one_actor keyed_request = Inr (''user:1'', ''k1'', ''POST /boxes'', sample_hash)"
proof -
  have "trim_space ''k1'' = ''k1''" by (rule trim_space_visible(1)) (simp_all add: visible_def byte_val_def)
  then show ?thesis
    by (simp add: idem_admit_def idem_samples sample_hash_def request_header_def header_get_def header_values_def
        Let_def canonical_key_def token_char_def byte_val_def ascii_upper_def ascii_lower_def route_pattern_def)
qed

definition create_box :: "unit idem_handler" where
  "create_box q c st = (HReturn, [WriteHeader 201, WriteBody ''created''], [sample_id], st)"

theorem replay_verbatim_witness:
  "\<exists>ops1 db1 ops2. idem_middleware sample_conf sample_digests sample_codec one_actor sample_idem_env create_box keyed_request ((), []) = (HReturn, ops1, (), db1) \<and>
    idem_middleware sample_conf sample_digests sample_codec one_actor sample_idem_env (\<lambda>q c st. (HPanic AbortHandler, [], [], st)) keyed_request ((), db1)
      = (HReturn, ops2, (), db1) \<and> hr_status (http_run ops2) = hr_status (http_run ops1)"
proof -
  let ?row = "fresh_row (idem_begin_req sample_idem_env ''user:1'' ''k1'' ''POST /boxes'' sample_hash) (be_ids (ie_begin sample_idem_env) 0)"
  have f: "idem_find ''user:1'' ''k1'' [?row] = Some ?row"
    by (simp add: idem_find_Cons idem_matches_def fresh_row_def idem_begin_req_def)
  have b: "\<not> idem_bypass keyed_request" by (simp add: idem_bypass_def idem_samples)
  have c: "be_insert (ie_begin sample_idem_env) = None" "ie_complete sample_idem_env = None"
    "calm_begin (ie_begin sample_idem_env)" by (simp_all add: sample_idem_env_def quiet_env_def calm_begin_def)
  have n: "create_box keyed_request (Some (context_with_values ''k1'' ''user:1'' sample_hash)) ((), [] @ [?row])
      = (HReturn, [WriteHeader 201, WriteBody ''created''], [sample_id], (), [?row])"
    by (simp add: create_box_def)
  have t: "ie_now sample_idem_env \<le> ie_now sample_idem_env + store_ttl (ie_ttl sample_idem_env)"
    by (simp add: sample_idem_env_def store_ttl_def duration_units)
  have resp: "list_all final_status [WriteHeader 201, WriteBody ''created'']"
    "first_status [WriteHeader 201, WriteBody ''created''] = Some 201" "(201 :: int) < 500" "(201 :: int) \<noteq> 429" by simp_all
  show ?thesis
    using replay_verbatim [where nxt = create_box and nxt' = "\<lambda>q c st. (HPanic AbortHandler, [], [], st)"
        and uc = sample_codec and ?w2.0 = "()" and conf = sample_conf,
        OF b b sample_admit sample_admit idem_find_Nil c(1,2) n f resp(1,2) resp(3,4) c(3) t] by blast
qed

text \<open>C37. A panicking handler locks its key: nothing marks the record when the handler of the owner panics (the
  same holds when the statement that completes the record fails), so until the record expires, 24 hours
  by default, every request with that key is refused with 409, whatever its body, and no handler runs.\<close>

theorem panic_locks_key:
  assumes "\<not> idem_bypass q1" and "\<not> idem_bypass q2"
    and "idem_admit conf dg scope q1 = Inr (s, k, rt, h)" and "idem_admit conf dg scope q2 = Inr (s, k, rt2, h2)"
    and "idem_find s k db = None" and "be_insert (ie_begin env1) = None"
    and "nxt q1 (Some (context_with_values k s h)) (w, db @ [fresh_row (idem_begin_req env1 s k rt h) (be_ids (ie_begin env1) 0)])
      = (HPanic p, ops, calls, w1, db1)"
    and frame: "idem_find s k db1 = Some (fresh_row (idem_begin_req env1 s k rt h) (be_ids (ie_begin env1) 0))"
    and "calm_begin (ie_begin env2)" and "ie_now env2 \<le> ie_now env1 + store_ttl (ie_ttl env1)"
  shows "\<exists>ops1 ops2. idem_middleware conf dg uc scope env1 nxt q1 (w, db) = (HPanic p, ops1, w1, db1) \<and>
    idem_middleware conf dg uc scope env2 nxt' q2 (w2, db1) = (HReturn, ops2, w2, db1) \<and>
    hr_status (http_run ops2) = Some 409"
proof -
  let ?q = "idem_begin_req env1 s k rt h"
  have "begin_claim uc ?q (ie_begin env1) db = (TxOk, None, db @ [fresh_row ?q (be_ids (ie_begin env1) 0)])"
    using begin_claim_new [of "ie_begin env1" ?q db uc] assms(5,6) by (simp add: idem_begin_req_def)
  from middleware_owner [OF assms(1,3) this, of nxt w]
  have run1: "idem_middleware conf dg uc scope env1 nxt q1 (w, db)
      = (HPanic p, bw_log (fold bw_step ops new_buffering_writer), w1, db1)"
    using assms(7) by (simp add: idem_execute_def Let_def)
  show ?thesis
    using run1 middleware_busy [OF assms(2,4,9) frame scan_fresh_row, of uc nxt' w2] assms(10) busy_status [of conf q2 h h2]
    by (auto simp: idem_begin_req_def idem_states eq_commute [of h h2])
qed

theorem panic_locks_key_witness:
  "\<exists>ops1 db1 ops2. idem_middleware sample_conf sample_digests sample_codec one_actor sample_idem_env
      (\<lambda>q c st. (HPanic (PanicWith ''boom''), [], [], st)) keyed_request ((), []) = (HPanic (PanicWith ''boom''), ops1, (), db1) \<and>
    idem_middleware sample_conf sample_digests sample_codec one_actor (sample_idem_env\<lparr>ie_now := 23 * hour\<rparr>) create_box keyed_request ((), db1)
      = (HReturn, ops2, (), db1) \<and> hr_status (http_run ops2) = Some 409"
proof -
  let ?row = "fresh_row (idem_begin_req sample_idem_env ''user:1'' ''k1'' ''POST /boxes'' sample_hash) (be_ids (ie_begin sample_idem_env) 0)"
  let ?h = "\<lambda>q c st. (HPanic (PanicWith ''boom''), [], [], st)"
  have f: "idem_find ''user:1'' ''k1'' [?row] = Some ?row"
    by (simp add: idem_find_Cons idem_matches_def fresh_row_def idem_begin_req_def)
  have b: "\<not> idem_bypass keyed_request" by (simp add: idem_bypass_def idem_samples)
  have c: "be_insert (ie_begin sample_idem_env) = None"
    "calm_begin (ie_begin (sample_idem_env\<lparr>ie_now := 23 * hour\<rparr>))" by (simp_all add: sample_idem_env_def quiet_env_def calm_begin_def)
  have n: "?h keyed_request (Some (context_with_values ''k1'' ''user:1'' sample_hash)) ((), [] @ [?row])
      = (HPanic (PanicWith ''boom''), [], [], (), [?row])" by simp
  have t: "ie_now (sample_idem_env\<lparr>ie_now := 23 * hour\<rparr>) \<le> ie_now sample_idem_env + store_ttl (ie_ttl sample_idem_env)"
    by (simp add: sample_idem_env_def store_ttl_def duration_units)
  show ?thesis
    using panic_locks_key [where nxt = ?h and nxt' = create_box and uc = sample_codec and ?w2.0 = "()" and conf = sample_conf,
        OF b b sample_admit sample_admit idem_find_Nil c(1) n f c(2) t] by blast
qed

end
