(* ===== verification/Idempotency_Retries.thy ===== *)
theory Idempotency_Retries
  imports Idempotency_Middleware
begin

text \<open>
  A client that sends one mutation again and again: every attempt is a run of \<open>idempotency.Middleware\<close>
  (\<open>src/idempotency/middleware.go\<close>) with its own servers, clock and handler. The handlers are arbitrary up to
  \<open>minds_record\<close>, what the doc comments of \<open>src/idempotency/store.go\<close> ask of them: a handler that touches the record of its
  key completes it with the answer it then gives (\<open>CompleteTx\<close>). An observer in the handler's state sees which attempts
  ran the handler, and with which outcome. The property is in the root theory.
\<close>

section \<open>Attempts\<close>

record 'w retry =
  rt_env :: idem_env
  rt_handler :: "'w idem_handler"
  rt_request :: http_request

type_synonym outcome = "handler_result \<times> http_resp"

definition watched :: "'w idem_handler \<Rightarrow> ('w \<times> outcome list) idem_handler" where
  "watched next q c st = (case st of ((w, runs), db) \<Rightarrow> (case next q c (w, db) of
     (r, ops, calls, w', db') \<Rightarrow> (r, ops, calls, (w', runs @ [(r, final_resp (http_run ops))]), db')))"

text \<open>For each attempt: the runs of the handler in it, and the response of the client.\<close>

fun retry_all :: "http_conf \<Rightarrow> digest_env \<Rightarrow> ulid_codec \<Rightarrow> (http_request \<Rightarrow> http_error + string) \<Rightarrow> 'w retry list
    \<Rightarrow> 'w \<times> idem_db \<Rightarrow> (outcome list \<times> http_resp) list \<times> 'w \<times> idem_db" where
  "retry_all conf dg uc scope [] st = ([], st)"
| "retry_all conf dg uc scope (a # as) (w, db) =
     (case idem_middleware conf dg uc scope (rt_env a) (watched (rt_handler a)) (rt_request a) ((w, []), db) of
        (_, ops, (w', runs), db') \<Rightarrow> (case retry_all conf dg uc scope as (w', db') of
           (outs, st) \<Rightarrow> ((runs, final_resp (http_run ops)) # outs, st)))"

definition resp_status :: "http_resp \<Rightarrow> int" where
  "resp_status r = (case hr_status r of Some n \<Rightarrow> n | None \<Rightarrow> 200)"

text \<open>An outcome after which the middleware lets the key be used again: 429 or a server error.\<close>

definition retriable :: "outcome \<Rightarrow> bool" where
  "retriable x \<longleftrightarrow> fst x = HReturn \<and> (resp_status (snd x) = 429 \<or> 500 \<le> resp_status (snd x))"

text \<open>What is stored of a response, and replayed.\<close>

definition stored_body :: "http_resp \<Rightarrow> string" where
  "stored_body r = (if length (hr_body r) \<le> max_stored_body then hr_body r else [])"

section \<open>The record of the key\<close>

text \<open>The record of a key, seen from the requests with digest \<open>h\<close> that arrive until \<open>t\<close>: no answer is stored yet; it
  is in progress; the answer \<open>n\<close> with this body is stored.\<close>

definition unanswered :: "ulid_codec \<Rightarrow> string \<Rightarrow> string \<Rightarrow> string \<Rightarrow> go_time \<Rightarrow> idem_db \<Rightarrow> bool" where
  "unanswered uc s k h t db \<longleftrightarrow> (case idem_find s k db of None \<Rightarrow> True
     | Some r \<Rightarrow> (case scan_record uc r of Inl _ \<Rightarrow> False
         | Inr x \<Rightarrow> rc_hash x = h \<and> rc_state x \<noteq> state_completed \<and> t \<le> rc_expires x))"

definition locked :: "ulid_codec \<Rightarrow> string \<Rightarrow> string \<Rightarrow> string \<Rightarrow> go_time \<Rightarrow> idem_db \<Rightarrow> bool" where
  "locked uc s k h t db \<longleftrightarrow> (\<exists>r x. idem_find s k db = Some r \<and> scan_record uc r = Inr x \<and> rc_hash x = h \<and>
     rc_state x \<notin> {state_completed, state_failed} \<and> t \<le> rc_expires x)"

definition answered :: "ulid_codec \<Rightarrow> string \<Rightarrow> string \<Rightarrow> string \<Rightarrow> go_time \<Rightarrow> int \<Rightarrow> string \<Rightarrow> idem_db \<Rightarrow> bool" where
  "answered uc s k h t n body db \<longleftrightarrow> (\<exists>r x. idem_find s k db = Some r \<and> scan_record uc r = Inr x \<and>
     rc_hash x = h \<and> rc_state x = state_completed \<and> t \<le> rc_expires x \<and> rc_status x = n \<and> rc_body x = body)"

text \<open>The contract of a handler: it sends final statuses, and it leaves the record of its key alone or completes it with
  the answer it gives, if that is one the middleware would store.\<close>

definition minds_record :: "ulid_codec \<Rightarrow> string \<Rightarrow> string \<Rightarrow> string \<Rightarrow> 'w idem_handler \<Rightarrow> bool" where
  "minds_record uc s k h next \<longleftrightarrow> (\<forall>q w db r ops calls w' db'. next q (Some (context_with_values k s h)) (w, db) = (r, ops, calls, w', db') \<longrightarrow>
     list_all final_status ops \<and>
     (idem_find s k db' = idem_find s k db \<or>
      (let resp = final_resp (http_run ops) in
         r = HReturn \<and> \<not> retriable (r, resp) \<and> length (hr_body resp) \<le> max_stored_body \<and>
         (\<forall>t. locked uc s k h t db \<longrightarrow> answered uc s k h t (resp_status resp) (hr_body resp) db'))))"

text \<open>An attempt of the request that is served its claim and arrives before the key expires.\<close>

definition served :: "http_conf \<Rightarrow> digest_env \<Rightarrow> ulid_codec \<Rightarrow> (http_request \<Rightarrow> http_error + string) \<Rightarrow> string \<Rightarrow> string \<Rightarrow> string
    \<Rightarrow> go_time \<Rightarrow> 'w retry \<Rightarrow> bool" where
  "served conf dg uc scope s k h t a \<longleftrightarrow> \<not> idem_bypass (rt_request a) \<and>
     (\<exists>rt. idem_admit conf dg scope (rt_request a) = Inr (s, k, rt, h)) \<and> calm_begin (ie_begin (rt_env a)) \<and>
     ie_now (rt_env a) \<le> t \<and> t \<le> ie_now (rt_env a) + store_ttl (ie_ttl (rt_env a)) \<and> minds_record uc s k h (rt_handler a)"

section \<open>Lemmas\<close>

lemma scan_claim_row:
  assumes "scan_record uc r = Inr x"
  shows "scan_record uc (claim_row q r) = Inr (x\<lparr>rc_route := bq_route q, rc_hash := bq_hash q, rc_state := state_in_progress,
    rc_status := 0, rc_body := [], rc_resource := none_id, rc_created := bq_now q, rc_expires := bq_now q + bq_ttl q\<rparr>)"
  using assms by (auto simp: scan_record_def claim_row_def opt_scan_def none_id_def split: sum.splits)

lemma locked_find: "idem_find s k db' = idem_find s k db \<Longrightarrow> locked uc s k h t db' = locked uc s k h t db"
  by (simp add: locked_def)

lemma locked_unanswered: "locked uc s k h t db \<Longrightarrow> unanswered uc s k h t db"
  by (auto simp: locked_def unanswered_def)

text \<open>While no answer is stored, a served claim is granted, and the record is in progress then; or it is in progress.\<close>

lemma unanswered_claim:
  assumes "unanswered uc s k h t db" and calm: "calm_begin (ie_begin env)"
    and now: "ie_now env \<le> t" "t \<le> ie_now env + store_ttl (ie_ttl env)"
  shows "(\<exists>db'. begin_claim uc (idem_begin_req env s k rt h) (ie_begin env) db = (TxOk, None, db') \<and> locked uc s k h t db') \<or>
     locked uc s k h t db"
proof (cases "idem_find s k db")
  case None
  let ?q = "idem_begin_req env s k rt h"
  have "be_insert (ie_begin env) = None" using calm by (simp add: calm_begin_def)
  then have "begin_claim uc ?q (ie_begin env) db = (TxOk, None, db @ [fresh_row ?q (be_ids (ie_begin env) 0)])"
    using begin_claim_new [of "ie_begin env" ?q db uc] None by (simp add: idem_begin_req_def)
  moreover have "idem_find s k (db @ [fresh_row ?q (be_ids (ie_begin env) 0)]) = Some (fresh_row ?q (be_ids (ie_begin env) 0))"
    using None by (simp add: idem_find_append idem_find_Cons idem_matches_def fresh_row_def idem_begin_req_def)
  ultimately show ?thesis
    using now by (auto simp: locked_def scan_fresh_row) (auto simp: idem_begin_req_def idem_states)
next
  case (Some r)
  then obtain x where x: "scan_record uc r = Inr x" "rc_hash x = h" "rc_state x \<noteq> state_completed" "t \<le> rc_expires x"
    using assms(1) by (auto simp: unanswered_def split: sum.splits)
  let ?q = "idem_begin_req env s k rt h"
  show ?thesis
  proof (cases "rc_state x = state_failed")
    case True
    then have "begin_claim uc ?q (ie_begin env) db = (TxOk, None, idem_update s k (claim_row ?q) db)"
      using begin_claim_existing [OF calm, of ?q db r uc x] Some x now
      by (simp add: idem_begin_req_def claim_spec_def idem_states)
    moreover have "locked uc s k h t (idem_update s k (claim_row ?q) db)"
      using now Some by (simp add: locked_def idem_find_update scan_claim_row [OF x(1)])
        (simp add: idem_begin_req_def idem_states)
    ultimately show ?thesis by blast
  next
    case False
    with x Some show ?thesis by (auto simp: locked_def)
  qed
qed

lemma exec_stmt_either: "snd (exec_stmt fault (\<lambda>d. Inr (f d)) db) \<in> {db, f db}"
  by (auto simp: exec_stmt_def Let_def split: option.splits)

lemma complete_record_either:
  "snd (complete_record fault now s k n body r db) \<in> {db, complete_stmt now s k n body r db}"
  using exec_stmt_either [of fault "complete_stmt now s k n body r" db]
  by (auto simp: complete_record_def split: prod.splits option.splits)

lemma scan_failed_any:
  "scan_record uc r = Inr x \<Longrightarrow> \<exists>st. (st = rc_state x \<or> st = state_failed) \<and> scan_record uc (fail_row now r) = Inr (x\<lparr>rc_state := st\<rparr>)"
  by (auto simp: scan_record_def fail_row_def split: sum.splits)

lemma fail_record_unanswered:
  assumes "locked uc s k h t db"
  shows "unanswered uc s k h t (snd (fail_record fault now s k db))"
proof -
  obtain r x where x: "idem_find s k db = Some r" "scan_record uc r = Inr x" "rc_hash x = h" "rc_state x \<noteq> state_completed"
      "t \<le> rc_expires x"
    using assms by (auto simp: locked_def)
  obtain st where "st = rc_state x \<or> st = state_failed" "scan_record uc (fail_row now r) = Inr (x\<lparr>rc_state := st\<rparr>)"
    using scan_failed_any [OF x(2)] by blast
  with x have "unanswered uc s k h t (idem_update s k (fail_row now) db)"
    by (auto simp: unanswered_def idem_find_update idem_states)
  then show ?thesis
    using locked_unanswered [OF assms] exec_stmt_either [of fault "idem_update s k (fail_row now)" db] by (auto simp: fail_record_def)
qed

lemma stored_answered:
  assumes "locked uc s k h t db \<or> answered uc s k h t m c db" and "200 \<le> n"
  shows "answered uc s k h t n (case body of Some b \<Rightarrow> b | None \<Rightarrow> []) (complete_stmt now s k n body (resource_after ids) db)"
proof -
  obtain r x where x: "idem_find s k db = Some r" "scan_record uc r = Inr x" "rc_hash x = h" "t \<le> rc_expires x"
    using assms(1) by (auto simp: locked_def answered_def)
  show ?thesis using complete_stmt_completes [OF x(1,2) assms(2), of now body ids] x(3,4)
    by (auto simp: answered_def completed_as_def)
qed

section \<open>One attempt\<close>

lemma final_resp_known: "hr_status (http_run ops) = Some n \<Longrightarrow> final_resp (http_run ops) = http_run ops"
  by (simp add: final_resp_def commit_header_def)

lemma final_resp_buffered:
  assumes "list_all final_status ops"
  shows "resp_status (final_resp (http_run ops)) =
      (let n = bw_status (fold bw_step ops new_buffering_writer) in if n = 0 then 200 else n)"
    and "200 \<le> resp_status (final_resp (http_run ops))"
    and "hr_body (final_resp (http_run ops)) = bw_buf (fold bw_step ops new_buffering_writer)"
  using http_run_status [OF assms] first_status_final [OF assms] bw_status_run [of ops] bw_buffer_run [of ops]
  by (auto simp: resp_status_def final_resp_def commit_header_def Let_def split: option.splits)

text \<open>The state of the record once the handler gave an outcome that is not retriable: its answer is stored, or the record
  stays in progress, when the handler panicked or the statement that stores the answer failed.\<close>

definition settled :: "ulid_codec \<Rightarrow> string \<Rightarrow> string \<Rightarrow> string \<Rightarrow> go_time \<Rightarrow> idem_env \<Rightarrow> outcome \<Rightarrow> idem_db \<Rightarrow> bool" where
  "settled uc s k h t env x db \<longleftrightarrow>
     (locked uc s k h t db \<and> (fst x \<noteq> HReturn \<or> ie_complete env \<noteq> None)) \<or>
     (fst x = HReturn \<and> 200 \<le> resp_status (snd x) \<and> answered uc s k h t (resp_status (snd x)) (stored_body (snd x)) db)"

lemma store_settles:
  assumes final: "list_all final_status ops" and resp: "resp = final_resp (http_run ops)" and "\<not> retriable (HReturn, resp)"
    and db: "locked uc s k h t db \<or> length (hr_body resp) \<le> max_stored_body \<and> answered uc s k h t (resp_status resp) (hr_body resp) db"
  shows "settled uc s k h t env (HReturn, resp) (idem_store env s k (fold bw_step ops new_buffering_writer) calls db)"
proof -
  let ?bw = "fold bw_step ops new_buffering_writer" and ?n = "resp_status resp"
  note b = final_resp_buffered [OF final, folded resp]
  have n: "?n \<noteq> 429" "?n < 500" using assms(3) by (simp_all add: retriable_def)
  have none: "none_id = resource_after []" by (simp add: resource_after_def)
  obtain ids where st: "idem_store env s k ?bw calls db =
      snd (complete_record (ie_complete env) (ie_done env) s k ?n (stored_payload (bw_buf ?bw)) (resource_after ids) db)"
    using b(1,2) n none by (cases "?n < 400") (auto simp: idem_store_def Let_def, metis)
  have "locked uc s k h t db \<or> answered uc s k h t ?n (hr_body resp) db" using db by blast
  from stored_answered [OF this b(2), of "stored_payload (bw_buf ?bw)" "ie_done env" ids]
  have done_: "answered uc s k h t ?n (stored_body resp)
      (complete_stmt (ie_done env) s k ?n (stored_payload (bw_buf ?bw)) (resource_after ids) db)"
    by (simp only: stored_payload_body stored_body_def b(3))
  consider (stored) "idem_store env s k ?bw calls db = complete_stmt (ie_done env) s k ?n (stored_payload (bw_buf ?bw)) (resource_after ids) db"
    | (lost) "ie_complete env \<noteq> None" "idem_store env s k ?bw calls db = db"
    using complete_record_either [of "ie_complete env" "ie_done env" s k ?n "stored_payload (bw_buf ?bw)" "resource_after ids" db]
    unfolding st by (cases "ie_complete env") (auto simp: complete_record_def)
  then show ?thesis
  proof cases
    case stored
    then show ?thesis using done_ b(2) by (simp add: settled_def)
  next
    case lost
    then show ?thesis using db b(2) by (auto simp: settled_def stored_body_def)
  qed
qed

lemma store_fails:
  assumes "list_all final_status ops" and "resp = final_resp (http_run ops)" and "retriable (HReturn, resp)"
  shows "idem_store env s k (fold bw_step ops new_buffering_writer) calls db = snd (fail_record (ie_fail env) (ie_done env) s k db)"
  using final_resp_buffered [OF assms(1), folded assms(2)] assms(3) by (auto simp: idem_store_def retriable_def Let_def)

lemma attempt_answered:
  assumes "served conf dg uc scope s k h t a" and "answered uc s k h t n body db" and "200 \<le> n"
  shows "\<exists>ops. idem_middleware conf dg uc scope (rt_env a) nxt (rt_request a) (w, db) = (HReturn, ops, w, db) \<and>
    resp_status (final_resp (http_run ops)) = n \<and> hr_body (final_resp (http_run ops)) = body"
proof -
  obtain rt where q: "\<not> idem_bypass (rt_request a)" "idem_admit conf dg scope (rt_request a) = Inr (s, k, rt, h)"
    "calm_begin (ie_begin (rt_env a))" "ie_now (rt_env a) \<le> t" using assms(1) by (auto simp: served_def)
  obtain r x where x: "idem_find s k db = Some r" "scan_record uc r = Inr x" "rc_hash x = h" "rc_state x = state_completed"
      "t \<le> rc_expires x" "rc_status x = n" "rc_body x = body"
    using assms(2) by (auto simp: answered_def)
  have "ie_now (rt_env a) \<le> rc_expires x" using q(4) x(5) by simp
  from middleware_replays [OF q(1-3) x(1-4) this, of nxt w] show ?thesis
    using run_replay [of x] x(6,7) assms(3) final_resp_known [of "replay_ops x"] by (simp add: resp_status_def)
qed

lemma attempt_locked:
  assumes "served conf dg uc scope s k h t a" and "locked uc s k h t db"
  shows "\<exists>ops. idem_middleware conf dg uc scope (rt_env a) nxt (rt_request a) (w, db) = (HReturn, ops, w, db) \<and>
    resp_status (final_resp (http_run ops)) = 409"
proof -
  obtain rt where q: "\<not> idem_bypass (rt_request a)" "idem_admit conf dg scope (rt_request a) = Inr (s, k, rt, h)"
    "calm_begin (ie_begin (rt_env a))" "ie_now (rt_env a) \<le> t" using assms(1) by (auto simp: served_def)
  obtain r x where x: "idem_find s k db = Some r" "scan_record uc r = Inr x" "rc_state x \<notin> {state_completed, state_failed}"
      "t \<le> rc_expires x" using assms(2) by (auto simp: locked_def)
  have "ie_now (rt_env a) \<le> rc_expires x" using q(4) x(4) by simp
  from middleware_busy [OF q(1-3) x(1-3) this, of nxt w] show ?thesis
    using busy_status [of conf "rt_request a" "rc_hash x" h] final_resp_known
    by (intro exI [of _ "begin_problem conf (rt_request a) (if rc_hash x = h then err_in_progress else err_conflict)"])
      (simp add: resp_status_def)
qed

lemma attempt_owner:
  assumes "served conf dg uc scope s k h t a" and "locked uc s k h t db"
    and run: "idem_execute (rt_env a) (watched (rt_handler a)) (rt_request a) s k h ((w, []), db) = (r, ops, (w', runs), db')"
  shows "\<exists>x. runs = [x] \<and> final_resp (http_run ops) = snd x \<and>
    (if retriable x then unanswered uc s k h t db' else settled uc s k h t (rt_env a) x db')"
proof -
  let ?ctx = "Some (context_with_values k s h)"
  obtain r1 ops1 calls w1 db1 where h: "rt_handler a (rt_request a) ?ctx (w, db) = (r1, ops1, calls, w1, db1)" by (metis surj_pair)
  define x where "x = (r1, final_resp (http_run ops1))"
  from assms(1) h have final: "list_all final_status ops1"
    and rec: "idem_find s k db1 = idem_find s k db \<or> r1 = HReturn \<and> \<not> retriable x \<and> length (hr_body (snd x)) \<le> max_stored_body \<and>
      answered uc s k h t (resp_status (snd x)) (hr_body (snd x)) db1"
    using assms(2) by (fastforce simp: served_def minds_record_def Let_def x_def)+
  have w: "watched (rt_handler a) (rt_request a) ?ctx ((w, []), db) = (r1, ops1, calls, (w1, [x]), db1)"
    by (simp add: watched_def h x_def)
  let ?bw = "fold bw_step ops1 new_buffering_writer"
  have out: "ops = bw_log ?bw" "runs = [x]" "db' = (if r1 = HReturn then idem_store (rt_env a) s k ?bw calls db1 else db1)"
    using run by (auto simp: idem_execute_def w Let_def split: handler_result.splits)
  have "final_resp (http_run ops) = snd x" using bw_transparent [OF final] out(1) by (simp add: x_def)
  moreover have "if retriable x then unanswered uc s k h t db' else settled uc s k h t (rt_env a) x db'"
  proof (cases r1)
    case (HPanic p)
    then have "locked uc s k h t db1" using rec assms(2) locked_find by blast
    then show ?thesis using HPanic out(3) by (simp add: x_def retriable_def settled_def)
  next
    case HReturn
    show ?thesis
    proof (cases "retriable x")
      case True
      then have "locked uc s k h t db1" using rec assms(2) locked_find by blast
      then show ?thesis using True HReturn out(3) store_fails [OF final refl] fail_record_unanswered by (simp add: x_def)
    next
      case False
      have "locked uc s k h t db1 \<or> length (hr_body (snd x)) \<le> max_stored_body \<and>
          answered uc s k h t (resp_status (snd x)) (hr_body (snd x)) db1"
        using rec assms(2) locked_find by blast
      from store_settles [OF final _ _ this, of "rt_env a" calls] False HReturn out(3) show ?thesis by (simp add: x_def)
    qed
  qed
  ultimately show ?thesis using out(2) by blast
qed

lemma attempt_unanswered:
  assumes a: "served conf dg uc scope s k h t a" and "unanswered uc s k h t db"
    and run: "idem_middleware conf dg uc scope (rt_env a) (watched (rt_handler a)) (rt_request a) ((w, []), db) = (r, ops, (w', runs), db')"
  shows "runs = [] \<and> resp_status (final_resp (http_run ops)) = 409 \<and> unanswered uc s k h t db' \<or>
    (\<exists>x. runs = [x] \<and> final_resp (http_run ops) = snd x \<and>
      (if retriable x then unanswered uc s k h t db' else settled uc s k h t (rt_env a) x db'))"
proof -
  obtain rt where q: "\<not> idem_bypass (rt_request a)" "idem_admit conf dg scope (rt_request a) = Inr (s, k, rt, h)"
    "calm_begin (ie_begin (rt_env a))" "ie_now (rt_env a) \<le> t" "t \<le> ie_now (rt_env a) + store_ttl (ie_ttl (rt_env a))"
    using a by (auto simp: served_def)
  from unanswered_claim [OF assms(2) q(3-5), of rt] show ?thesis
  proof (elim disjE exE conjE)
    fix db1
    assume claim: "begin_claim uc (idem_begin_req (rt_env a) s k rt h) (ie_begin (rt_env a)) db = (TxOk, None, db1)"
      and l: "locked uc s k h t db1"
    have "idem_execute (rt_env a) (watched (rt_handler a)) (rt_request a) s k h ((w, []), db1) = (r, ops, (w', runs), db')"
      using run middleware_owner [OF q(1,2) claim, of "watched (rt_handler a)" "(w, [])"] by simp
    from attempt_owner [OF a l this] show ?thesis by blast
  next
    assume l: "locked uc s k h t db"
    from attempt_locked [OF a this, of "watched (rt_handler a)" "(w, [])"] run locked_unanswered [OF l] show ?thesis by auto
  qed
qed

section \<open>All attempts\<close>

text \<open>After an outcome that is not retriable no attempt runs the handler: all are refused, or all get the stored answer.\<close>

definition refused :: "outcome list \<times> http_resp \<Rightarrow> bool" where
  "refused out \<longleftrightarrow> fst out = [] \<and> resp_status (snd out) = 409"

definition replayed :: "outcome \<Rightarrow> outcome list \<times> http_resp \<Rightarrow> bool" where
  "replayed x out \<longleftrightarrow> fst out = [] \<and> resp_status (snd out) = resp_status (snd x) \<and> hr_body (snd out) = stored_body (snd x)"

lemma retry_locked:
  assumes "list_all (served conf dg uc scope s k h t) as" and "locked uc s k h t db"
  shows "list_all refused (fst (retry_all conf dg uc scope as (w, db)))"
  using assms(1)
proof (induction as)
  case (Cons a as)
  then have "served conf dg uc scope s k h t a" by simp
  from attempt_locked [OF this assms(2), of "watched (rt_handler a)" "(w, [])"] Cons show ?case
    by (auto simp: refused_def split: prod.splits)
qed simp

lemma retry_answered:
  assumes "list_all (served conf dg uc scope s k h t) as" and "200 \<le> resp_status (snd x)"
    and "answered uc s k h t (resp_status (snd x)) (stored_body (snd x)) db"
  shows "list_all (replayed x) (fst (retry_all conf dg uc scope as (w, db)))"
  using assms(1)
proof (induction as)
  case (Cons a as)
  then have "served conf dg uc scope s k h t a" by simp
  from attempt_answered [OF this assms(3,2), of "watched (rt_handler a)" "(w, [])"] Cons show ?case
    by (auto simp: replayed_def split: prod.splits)
qed simp

definition retried :: "outcome list \<times> http_resp \<Rightarrow> bool" where
  "retried out \<longleftrightarrow> (\<exists>x. fst out = [x] \<and> retriable x \<and> snd out = snd x)"

lemma retry_unanswered:
  assumes "list_all (served conf dg uc scope s k h t) as" and "unanswered uc s k h t db"
    and "retry_all conf dg uc scope as (w, db) = (outs, st)"
  shows "\<exists>before after. outs = before @ after \<and> list_all (\<lambda>out. refused out \<or> retried out) before \<and>
    (after = [] \<or> (\<exists>x rest. after = ([x], snd x) # rest \<and> \<not> retriable x \<and>
      (list_all refused rest \<and> (fst x \<noteq> HReturn \<or> ie_complete (rt_env (as ! length before)) \<noteq> None) \<or>
       fst x = HReturn \<and> list_all (replayed x) rest)))"
  using assms
proof (induction as arbitrary: db w outs)
  case Nil
  then show ?case by auto
next
  case (Cons a as)
  obtain r ops w1 runs db1 where run: "idem_middleware conf dg uc scope (rt_env a) (watched (rt_handler a)) (rt_request a) ((w, []), db)
      = (r, ops, (w1, runs), db1)" by (metis surj_pair)
  obtain outs1 where rest: "retry_all conf dg uc scope as (w1, db1) = (outs1, st)" and outs: "outs = (runs, final_resp (http_run ops)) # outs1"
    using Cons.prems(3) run by (auto split: prod.splits)
  have a: "served conf dg uc scope s k h t a" and as: "list_all (served conf dg uc scope s k h t) as" using Cons.prems(1) by simp_all
  consider (again) "refused (runs, final_resp (http_run ops)) \<or> retried (runs, final_resp (http_run ops))" "unanswered uc s k h t db1"
    | (done_) x where "runs = [x]" "final_resp (http_run ops) = snd x" "\<not> retriable x" "settled uc s k h t (rt_env a) x db1"
    using attempt_unanswered [OF a Cons.prems(2) run] unfolding refused_def retried_def by (metis fst_conv snd_conv)
  then show ?case
  proof cases
    case again
    from Cons.IH [OF as again(2) rest] obtain before after where ih: "outs1 = before @ after"
        "list_all (\<lambda>out. refused out \<or> retried out) before"
        "after = [] \<or> (\<exists>x rest. after = ([x], snd x) # rest \<and> \<not> retriable x \<and>
          (list_all refused rest \<and> (fst x \<noteq> HReturn \<or> ie_complete (rt_env (as ! length before)) \<noteq> None) \<or>
           fst x = HReturn \<and> list_all (replayed x) rest))" by blast
    then show ?thesis using again(1) outs
      by (intro exI [of _ "(runs, final_resp (http_run ops)) # before"] exI [of _ after]) simp
  next
    case done_
    from done_(4) have "list_all refused outs1 \<and> (fst x \<noteq> HReturn \<or> ie_complete (rt_env a) \<noteq> None) \<or>
        fst x = HReturn \<and> list_all (replayed x) outs1"
      using retry_locked [OF as, of db1 w1] retry_answered [OF as, of x db1 w1] rest by (auto simp: settled_def)
    then show ?thesis using done_(1-3) outs by (intro exI [of _ "[]"] exI [of _ outs]) simp
  qed
qed

text \<open>The concrete deployment, one request of it sent again.\<close>

definition sample_retry :: "unit retry" where
  "sample_retry = \<lparr>rt_env = sample_idem_env, rt_handler = create_box, rt_request = keyed_request\<rparr>"

lemma create_box_minds: "minds_record uc s k h create_box"
  by (simp add: minds_record_def create_box_def)

lemma sample_retry_served:
  "served sample_conf sample_digests uc one_actor ''user:1'' ''k1'' sample_hash 100 sample_retry"
proof -
  have "\<not> idem_bypass keyed_request" by (simp add: idem_bypass_def idem_samples)
  moreover have "calm_begin (ie_begin sample_idem_env)" "ie_now sample_idem_env \<le> 100"
    "100 \<le> ie_now sample_idem_env + store_ttl (ie_ttl sample_idem_env)"
    by (simp_all add: sample_idem_env_def quiet_env_def calm_begin_def store_ttl_def duration_units)
  ultimately show ?thesis
    using sample_admit create_box_minds by (auto simp: served_def sample_retry_def)
qed

lemma sample_first_run:
  "\<exists>ops w db. idem_middleware sample_conf sample_digests sample_codec one_actor sample_idem_env (watched create_box) keyed_request (((), []), [])
    = (HReturn, ops, ((), [(HReturn, final_resp (http_run [WriteHeader 201, WriteBody ''created'']))]), db)"
proof -
  let ?q = "idem_begin_req sample_idem_env ''user:1'' ''k1'' ''POST /boxes'' sample_hash"
  have b: "\<not> idem_bypass keyed_request" by (simp add: idem_bypass_def idem_samples)
  have "begin_claim sample_codec ?q (ie_begin sample_idem_env) [] = (TxOk, None, [] @ [fresh_row ?q (be_ids (ie_begin sample_idem_env) 0)])"
    by (rule begin_claim_new) (simp_all add: sample_idem_env_def quiet_env_def)
  from middleware_owner [OF b sample_admit this, of "watched create_box" "((), [])"] show ?thesis
    by (simp add: idem_execute_def watched_def create_box_def Let_def)
qed

end
