(* ===== verification/Observability.thy ===== *)
theory Observability
  imports Go_Prelude
begin

text \<open>
  \<open>src/observability/logging.go\<close>: the redaction of log attributes, the request scoped values and the
  telemetry pseudonym. An attribute value is a string, an opaque value, a group, or a \<open>LogValuer\<close>
  that the inner handler resolves later. HMAC and the Unicode case table are arguments.
\<close>

section \<open>Sensitive keys\<close>

definition redacted :: string where "redacted = ''[redacted]''"

definition denied_keys :: "string list" where
  "denied_keys = [''authorization'', ''cookie'', ''set-cookie'', ''token'', ''secret'', ''password'', ''passphrase'',
     ''client_secret'', ''api_key'', ''apikey'', ''private_key'', ''vpn_key'', ''license_key'', ''activation_key'',
     ''promo_code'', ''redemption_code'', ''assignment'', ''ciphertext'', ''plaintext'', ''seed'', ''dek'',
     ''credentials'', ''email'', ''phone'', ''address'', ''full_name'', ''response_body'', ''payload_body'',
     ''export_content'', ''card'', ''iban'']"

definition is_sensitive_key :: "(string \<Rightarrow> string) \<Rightarrow> string \<Rightarrow> bool" where
  "is_sensitive_key uni key = list_ex (\<lambda>d. contains_sub (to_lower uni key) d) denied_keys"

section \<open>Log attributes\<close>

datatype attr = Attr (at_key: string) (at_val: attr_val)
  and attr_val = AStr string | AOpaque nat | AGroup "attr list" | AValuer attr_val

fun redact_attr :: "(string \<Rightarrow> string) \<Rightarrow> attr \<Rightarrow> attr" where
  "redact_attr uni (Attr k (AGroup as)) = Attr k (AGroup (map (redact_attr uni) as))"
| "redact_attr uni (Attr k v) = (if is_sensitive_key uni k then Attr k (AStr redacted) else Attr k v)"

record log_record =
  lr_message :: string
  lr_attrs :: "attr list"

definition handle_record :: "(string \<Rightarrow> string) \<Rightarrow> string \<Rightarrow> string \<Rightarrow> log_record \<Rightarrow> log_record" where
  "handle_record uni request_id trace_id r = \<lparr>lr_message = lr_message r,
     lr_attrs = (if request_id = [] then [] else [Attr ''request_id'' (AStr request_id)]) @
       (if trace_id = [] then [] else [Attr ''trace_id'' (AStr trace_id)]) @
       map (redact_attr uni) (lr_attrs r)\<rparr>"

definition with_attrs :: "(string \<Rightarrow> string) \<Rightarrow> attr list \<Rightarrow> attr list \<Rightarrow> attr list" where
  "with_attrs uni attrs inner = inner @ map (redact_attr uni) attrs"

text \<open>\<open>Enabled\<close> and \<open>WithGroup\<close> are passed to the inner handler; the open groups are a list of names.\<close>

definition redacting_enabled :: "('l \<Rightarrow> bool) \<Rightarrow> 'l \<Rightarrow> bool" where
  "redacting_enabled inner l = inner l"

definition with_group :: "string \<Rightarrow> string list \<Rightarrow> string list" where
  "with_group name inner = inner @ [name]"

datatype log_level = LevelDebug | LevelInfo | LevelWarn | LevelError

definition parse_level :: "(string \<Rightarrow> string) \<Rightarrow> string \<Rightarrow> log_level" where
  "parse_level uni level = (let l = to_lower uni level
     in if l = ''debug'' then LevelDebug else if l = ''warn'' then LevelWarn
        else if l = ''error'' then LevelError else LevelInfo)"

definition new_logger :: "(string \<Rightarrow> string) \<Rightarrow> string \<Rightarrow> string \<Rightarrow> string \<Rightarrow> string \<Rightarrow> log_level \<times> attr list" where
  "new_logger uni level service env build = (parse_level uni level,
     with_attrs uni [Attr ''service'' (AStr service), Attr ''env'' (AStr env), Attr ''build'' (AStr build)] [])"

section \<open>Request scoped values\<close>

record obs_ctx =
  oc_logger :: "nat option"
  oc_request_id :: "string option"
  oc_trace_id :: "string option"

definition context_with_request_id :: "string \<Rightarrow> obs_ctx \<Rightarrow> obs_ctx" where
  "context_with_request_id i c = c\<lparr>oc_request_id := Some i\<rparr>"

definition context_with_trace_id :: "string \<Rightarrow> obs_ctx \<Rightarrow> obs_ctx" where
  "context_with_trace_id i c = c\<lparr>oc_trace_id := Some i\<rparr>"

definition context_with_logger :: "nat option \<Rightarrow> obs_ctx \<Rightarrow> obs_ctx" where
  "context_with_logger l c = c\<lparr>oc_logger := l\<rparr>"

definition request_id_from :: "obs_ctx \<Rightarrow> string" where
  "request_id_from c = (case oc_request_id c of Some i \<Rightarrow> i | None \<Rightarrow> [])"

definition trace_id_from :: "obs_ctx \<Rightarrow> string" where
  "trace_id_from c = (case oc_trace_id c of Some i \<Rightarrow> i | None \<Rightarrow> [])"

definition logger_from :: "nat \<Rightarrow> obs_ctx \<Rightarrow> nat" where
  "logger_from dflt c = (case oc_logger c of Some l \<Rightarrow> l | None \<Rightarrow> dflt)"

definition pseudonym_salt :: "string option \<Rightarrow> string" where
  "pseudonym_salt env = (case env of Some v \<Rightarrow> if v \<noteq> [] then v else ''moribox-telemetry-pseudonym''
     | None \<Rightarrow> ''moribox-telemetry-pseudonym'')"

definition pseudonym :: "(string \<Rightarrow> string \<Rightarrow> string) \<Rightarrow> string option \<Rightarrow> string \<Rightarrow> string" where
  "pseudonym hmac env user_id = (if user_id = [] then []
     else ''u_'' @ take 16 (hex_encode (hmac (pseudonym_salt env) user_id)))"

section \<open>Lemmas\<close>

text \<open>The attributes a handler prints: groups are entered, everything else is a leaf.\<close>

fun leaves :: "attr \<Rightarrow> (string \<times> attr_val) list" where
  "leaves (Attr k (AGroup as)) = concat (map leaves as)"
| "leaves (Attr k v) = [(k, v)]"

definition redact_leaf :: "(string \<Rightarrow> string) \<Rightarrow> string \<times> attr_val \<Rightarrow> string \<times> attr_val" where
  "redact_leaf uni p = (if is_sensitive_key uni (fst p) then (fst p, AStr redacted) else p)"

lemma leaves_redact: "leaves (redact_attr uni a) = map (redact_leaf uni) (leaves a)"
proof (induction uni a rule: redact_attr.induct)
  case (1 uni k as)
  then show ?case by (induction as) auto
qed (simp_all add: redact_leaf_def)

section \<open>Properties\<close>

text \<open>Redaction is complete on leaves and changes nothing else: in what the handler prints, an attribute
  whose own key contains a denied fragment, at any depth of groups, carries the replacement, and every
  other leaf is what the call site gave, in the same order.\<close>

theorem redaction_of_leaves:
  "concat (map leaves (lr_attrs (handle_record uni [] [] r))) = map (redact_leaf uni) (concat (map leaves (lr_attrs r)))"
proof -
  have "concat (map leaves (map (redact_attr uni) as)) = map (redact_leaf uni) (concat (map leaves as))" for as
    by (induction as) (simp_all add: leaves_redact)
  then show ?thesis by (simp add: handle_record_def)
qed

lemma sensitive_samples [simp]:
  "is_sensitive_key uni ''credentials''" "is_sensitive_key uni ''password''" "is_sensitive_key uni ''token''"
  "\<not> is_sensitive_key uni ''value''" "\<not> is_sensitive_key uni ''user''" "\<not> is_sensitive_key uni ''items''"
  by (simp_all add: is_sensitive_key_def denied_keys_def to_lower_def is_ascii_def ascii_lower_def byte_val_def)

text \<open>Two shapes escape the redaction: the members of a group whose own key is denied are printed, when
  their keys are harmless, and a value that becomes a group only when the inner handler resolves it is
  passed on with its denied members.\<close>

theorem redaction_gaps:
  "leaves (redact_attr uni (Attr ''credentials'' (AGroup [Attr ''value'' (AStr s)]))) = [(''value'', AStr s)] \<and>
   redact_attr uni (Attr ''user'' (AValuer (AGroup [Attr ''password'' (AStr s)])))
     = Attr ''user'' (AValuer (AGroup [Attr ''password'' (AStr s)])) \<and>
   is_sensitive_key uni ''credentials'' \<and> is_sensitive_key uni ''password''"
  by simp

end
