(* ===== verification/Audit_Trail.thy ===== *)
theory Audit_Trail
  imports Ids Database Observability Httpx_Problem
begin

text \<open>
  \<open>src/audit/audit.go\<close>: the hash chained trail. The table of events and the singleton row of the chain
  head are the two components of \<open>audit_db\<close>; rows are kept in the order of their sequence numbers, which
  the server draws. SHA-256, the ULID codec, the time format and the JSON number conversion are the
  components of \<open>audit_lib\<close>. The strings of a row are stored as they are given.

  \<open>AppendStandalone\<close> interprets the locale \<open>tx_body\<close>: whatever the server does, the chain that
  \<open>VerifyChain\<close> walks stays intact.
\<close>

section \<open>Events and rows\<close>

record audit_lib =
  al_sha :: "string \<Rightarrow> string"
  al_ulid :: ulid_codec
  al_fmt :: "go_time \<Rightarrow> string"
  al_uni :: "string \<Rightarrow> string"
  al_enc :: "nat \<Rightarrow> string option"
  al_num :: "string \<Rightarrow> string option"

text \<open>The actor types, and the error for a privileged mutation without a reason, which nothing returns.\<close>

abbreviation actor_admin :: string where "actor_admin \<equiv> ''ADMIN''"
abbreviation actor_user :: string where "actor_user \<equiv> ''USER''"
abbreviation actor_system :: string where "actor_system \<equiv> ''SYSTEM''"
abbreviation actor_provider :: string where "actor_provider \<equiv> ''PROVIDER''"

definition err_reason_required :: go_error where
  "err_reason_required = Sentinel ''a reason is required for this action''"

record audit_event =
  ev_id :: ID
  ev_seq :: nat
  ev_actor_type :: string
  ev_actor_id :: id_opt
  ev_role :: string
  ev_action :: string
  ev_target_type :: string
  ev_target_id :: id_opt
  ev_reason :: string
  ev_request_id :: string
  ev_trace_id :: string
  ev_metadata :: any_map
  ev_before :: string
  ev_after :: string
  ev_previous :: string
  ev_hash :: string
  ev_created :: go_time

record audit_row =
  ar_seq :: nat
  ar_id :: sql_value
  ar_actor_type :: string
  ar_actor_id :: sql_value
  ar_role :: "string option"
  ar_action :: string
  ar_target_type :: string
  ar_target_id :: sql_value
  ar_reason :: "string option"
  ar_request_id :: "string option"
  ar_trace_id :: "string option"
  ar_metadata :: "string option"
  ar_before :: "string option"
  ar_after :: "string option"
  ar_previous :: "string option"
  ar_hash :: string
  ar_created :: go_time

record audit_db =
  ad_rows :: "audit_row list"
  ad_head :: "(nat \<times> string option) option"

definition null_if_empty :: "string \<Rightarrow> string option" where
  "null_if_empty s = (if s = [] then None else Some s)"

definition coalesce :: "string option \<Rightarrow> string" where
  "coalesce x = (case x of Some s \<Rightarrow> s | None \<Rightarrow> [])"

lemma coalesce_null [simp]: "coalesce (null_if_empty s) = s"
  by (simp add: coalesce_def null_if_empty_def)

section \<open>Hashing and redaction\<close>

definition opt_text :: "audit_lib \<Rightarrow> id_opt \<Rightarrow> string" where
  "opt_text lib x = (if opt_valid x then id_string (al_ulid lib) (opt_id x) else [])"

definition hash_parts :: "audit_lib \<Rightarrow> audit_event \<Rightarrow> string list" where
  "hash_parts lib e = [id_string (al_ulid lib) (ev_id e), ev_actor_type e, opt_text lib (ev_actor_id e),
     ev_role e, ev_action e, ev_target_type e, opt_text lib (ev_target_id e), ev_reason e, ev_request_id e,
     ev_before e, ev_after e, ev_previous e, al_fmt lib (ev_created e)]"

definition hash_input :: "audit_lib \<Rightarrow> audit_event \<Rightarrow> string" where
  "hash_input lib e = concat (map (\<lambda>p. p @ [CHR 0x00]) (hash_parts lib e))"

definition entry_hash :: "audit_lib \<Rightarrow> audit_event \<Rightarrow> string" where
  "entry_hash lib e = hex_encode (al_sha lib (hash_input lib e))"

fun redact_metadata :: "(string \<Rightarrow> string) \<Rightarrow> any_map \<Rightarrow> any_map" where
  "redact_metadata uni [] = []"
| "redact_metadata uni ((k, v) # m) =
     (k, if is_sensitive_key uni k then VStr redacted
         else (case v of VMap (Some nested) \<Rightarrow> VMap (Some (redact_metadata uni nested))
               | VMap None \<Rightarrow> VMap (Some []) | _ \<Rightarrow> v)) # redact_metadata uni m"

definition hash_of :: "audit_lib \<Rightarrow> any_val \<Rightarrow> string" where
  "hash_of lib v = (if v = VNil then [] else (case encode_any (al_enc lib) v of
       None \<Rightarrow> [] | Some t \<Rightarrow> hex_encode (al_sha lib t)))"

section \<open>Append\<close>

text \<open>What an append draws from its surroundings: a fresh identifier, the clock, the request's identifiers, the
  gap the server leaves in the sequence, and how the server answers its three statements.\<close>

record append_env =
  ap_id :: ID
  ap_now :: go_time
  ap_request_id :: string
  ap_trace_id :: string
  ap_gap :: nat
  ap_head_err :: "go_error option"
  ap_insert_err :: "go_error option"
  ap_update_err :: "go_error option"

definition complete_event :: "append_env \<Rightarrow> audit_event \<Rightarrow> audit_event" where
  "complete_event env e = e\<lparr>
     ev_id := (if is_zero_id (ev_id e) then ap_id env else ev_id e),
     ev_created := time_truncate (if ev_created e = 0 then ap_now env else ev_created e) microsecond,
     ev_request_id := (if ev_request_id e = [] then ap_request_id env else ev_request_id e),
     ev_trace_id := (if ev_trace_id e = [] then ap_trace_id env else ev_trace_id e)\<rparr>"

definition seal_event :: "audit_lib \<Rightarrow> string \<Rightarrow> audit_event \<Rightarrow> audit_event" where
  "seal_event lib previous e0 =
     (let e = e0\<lparr>ev_previous := previous, ev_role := truncate_bytes (ev_role e0) 200,
            ev_reason := truncate_bytes (ev_reason e0) 400\<rparr>
      in e\<lparr>ev_hash := entry_hash lib e\<rparr>)"

definition row_of_event :: "nat \<Rightarrow> string option \<Rightarrow> audit_event \<Rightarrow> audit_row" where
  "row_of_event seq metadata e = \<lparr>ar_seq = seq, ar_id = id_value (ev_id e), ar_actor_type = ev_actor_type e,
     ar_actor_id = opt_value (ev_actor_id e), ar_role = null_if_empty (ev_role e), ar_action = ev_action e,
     ar_target_type = ev_target_type e, ar_target_id = opt_value (ev_target_id e),
     ar_reason = null_if_empty (ev_reason e), ar_request_id = null_if_empty (ev_request_id e),
     ar_trace_id = null_if_empty (ev_trace_id e), ar_metadata = metadata, ar_before = null_if_empty (ev_before e),
     ar_after = null_if_empty (ev_after e), ar_previous = null_if_empty (ev_previous e), ar_hash = ev_hash e,
     ar_created = ev_created e\<rparr>"

definition next_seq :: "nat \<Rightarrow> audit_db \<Rightarrow> nat" where
  "next_seq gap db = (case rev (ad_rows db) of [] \<Rightarrow> 0 | r # _ \<Rightarrow> ar_seq r) + 1 + gap"

definition encode_metadata :: "audit_lib \<Rightarrow> any_map \<Rightarrow> go_error + string option" where
  "encode_metadata lib m = (if m = [] then Inr None
     else (case encode_any (al_enc lib) (VMap (Some (redact_metadata (al_uni lib) m))) of
         None \<Rightarrow> Inl (new_err ''json: unsupported value'') | Some t \<Rightarrow> Inr (Some t)))"

definition read_head :: "append_env \<Rightarrow> audit_db \<Rightarrow> go_error + nat \<times> string option" where
  "read_head env db = (case ap_head_err env of
       Some e \<Rightarrow> Inl e
     | None \<Rightarrow> (case ad_head db of None \<Rightarrow> Inl err_no_rows | Some h \<Rightarrow> Inr h))"

definition append_event :: "audit_lib \<Rightarrow> append_env \<Rightarrow> audit_event \<Rightarrow> audit_db \<Rightarrow> go_error option \<times> audit_db" where
  "append_event lib env e0 db =
     (if trim_space (ev_action e0) = [] then (Some (new_err ''audit action must not be empty''), db)
      else (case read_head env db of
          Inl err \<Rightarrow> (Some (wrap_err ''read audit chain head'' err), db)
        | Inr (n, head) \<Rightarrow>
            (case encode_metadata lib (ev_metadata e0) of
               Inl err \<Rightarrow> (Some err, db)
             | Inr metadata \<Rightarrow>
                 (let e = seal_event lib (coalesce head) (complete_event env e0);
                      row = row_of_event (next_seq (ap_gap env) db) metadata e;
                      db1 = db\<lparr>ad_rows := ad_rows db @ [row]\<rparr>
                  in case ap_insert_err env of
                       Some err \<Rightarrow> (Some (wrap_err ''append audit event'' err), db)
                     | None \<Rightarrow> (case ap_update_err env of
                           Some err \<Rightarrow> (Some (wrap_err ''advance audit chain head'' err), db1)
                         | None \<Rightarrow> (None, db1\<lparr>ad_head := Some (n + 1, Some (ev_hash e))\<rparr>))))))"

text \<open>\<open>AppendStandalone\<close>; the event is the captured variable of its transaction body.\<close>

definition append_body :: "audit_lib \<Rightarrow> (nat \<Rightarrow> append_env) \<Rightarrow> (audit_db, audit_event) tx_fn" where
  "append_body lib envs n st = (case st of (db, e) \<Rightarrow>
     (case append_event lib (envs n) e db of
        (Some err, db') \<Rightarrow> (TxErr err, db', e)
      | (None, db') \<Rightarrow> (TxOk, db', e)))"

definition append_standalone :: "audit_lib \<Rightarrow> (nat \<Rightarrow> append_env) \<Rightarrow> (nat \<Rightarrow> audit_db tx_env) \<Rightarrow> audit_event \<Rightarrow> audit_db
    \<Rightarrow> tx_result \<times> audit_db" where
  "append_standalone lib envs txs e db =
     (case in_tx ''audit_append'' txs (append_body lib envs) (db, e) of (r, db', _, _) \<Rightarrow> (r, db'))"

section \<open>Reading the trail\<close>

definition scan_event :: "audit_lib \<Rightarrow> audit_row \<Rightarrow> go_error + audit_event" where
  "scan_event lib r = (case id_scan (al_ulid lib) (ar_id r) of
       Inl e \<Rightarrow> Inl e
     | Inr i \<Rightarrow> (case opt_scan (al_ulid lib) (ar_actor_id r) of
         Inl e \<Rightarrow> Inl e
       | Inr actor \<Rightarrow> (case opt_scan (al_ulid lib) (ar_target_id r) of
           Inl e \<Rightarrow> Inl e
         | Inr target \<Rightarrow> Inr \<lparr>ev_id = i, ev_seq = ar_seq r, ev_actor_type = ar_actor_type r, ev_actor_id = actor,
             ev_role = coalesce (ar_role r), ev_action = ar_action r, ev_target_type = ar_target_type r,
             ev_target_id = target, ev_reason = coalesce (ar_reason r), ev_request_id = coalesce (ar_request_id r),
             ev_trace_id = [], ev_metadata = [], ev_before = coalesce (ar_before r), ev_after = coalesce (ar_after r),
             ev_previous = coalesce (ar_previous r), ev_hash = ar_hash r, ev_created = ar_created r\<rparr>)))"

fun any_of_json :: "json \<Rightarrow> any_val" and any_items :: "json list \<Rightarrow> any_val list"
  and any_members :: "(string \<times> json) list \<Rightarrow> any_map"
where
  "any_of_json JNull = VNil"
| "any_of_json (JBool b) = VBool b"
| "any_of_json (JNum l) = VNum l"
| "any_of_json (JStr s) = VStr s"
| "any_of_json (JArr vs) = VSlice (Some (any_items vs))"
| "any_of_json (JObj ms) = VMap (Some (any_members ms))"
| "any_items [] = []"
| "any_items (v # vs) = any_of_json v # any_items vs"
| "any_members [] = []"
| "any_members ((k, v) # ms) = (k, any_of_json v) # any_members ms"

definition parse_metadata :: "audit_lib \<Rightarrow> string option \<Rightarrow> any_map" where
  "parse_metadata lib m = (case m of
       None \<Rightarrow> []
     | Some t \<Rightarrow> (case unmarshal (al_num lib) t of Some (JObj ms) \<Rightarrow> any_members ms | _ \<Rightarrow> []))"

record audit_query =
  aq_actor :: id_opt
  aq_action :: string
  aq_target_type :: string
  aq_target :: id_opt
  aq_from :: "go_time option"
  aq_to :: "go_time option"
  aq_limit :: int
  aq_after :: nat

text \<open>A comparison with \<open>NULL\<close> is not true.\<close>

definition sql_eq :: "sql_value \<Rightarrow> sql_value \<Rightarrow> bool" where
  "sql_eq a b \<longleftrightarrow> a \<noteq> SqlNull \<and> a = b"

definition query_matches :: "audit_query \<Rightarrow> audit_row \<Rightarrow> bool" where
  "query_matches q r \<longleftrightarrow>
     (\<not> opt_valid (aq_actor q) \<or> sql_eq (ar_actor_id r) (opt_value (aq_actor q))) \<and>
     (aq_action q = [] \<or> ar_action r = aq_action q) \<and>
     (aq_target_type q = [] \<or> ar_target_type r = aq_target_type q) \<and>
     (\<not> opt_valid (aq_target q) \<or> sql_eq (ar_target_id r) (opt_value (aq_target q))) \<and>
     (case aq_from q of Some t \<Rightarrow> t \<le> ar_created r | None \<Rightarrow> True) \<and>
     (case aq_to q of Some t \<Rightarrow> ar_created r \<le> t | None \<Rightarrow> True) \<and>
     (aq_after q = 0 \<or> ar_seq r < aq_after q)"

definition query_limit :: "int \<Rightarrow> nat" where
  "query_limit n = (if n \<le> 0 \<or> 100 < n then 50 else nat n)"

fun scan_list :: "audit_lib \<Rightarrow> audit_row list \<Rightarrow> go_error + audit_event list" where
  "scan_list lib [] = Inr []"
| "scan_list lib (r # rs) = (case scan_event lib r of
       Inl e \<Rightarrow> Inl (wrap_err ''scan audit event'' e)
     | Inr e \<Rightarrow> (case scan_list lib rs of
         Inl err \<Rightarrow> Inl err
       | Inr es \<Rightarrow> Inr (e\<lparr>ev_trace_id := coalesce (ar_trace_id r), ev_metadata := parse_metadata lib (ar_metadata r)\<rparr> # es)))"

definition list_events :: "audit_lib \<Rightarrow> go_error option \<Rightarrow> audit_query \<Rightarrow> audit_db \<Rightarrow> go_error + audit_event list" where
  "list_events lib fault q db = (case fault of
       Some e \<Rightarrow> Inl e
     | None \<Rightarrow> scan_list lib (take (query_limit (aq_limit q)) (filter (query_matches q) (rev (ad_rows db)))))"

text \<open>\<open>VerifyChain\<close>: the number of rows checked, the sequence number of the first broken one (0 for none), the
  error.\<close>

fun verify_rows :: "audit_lib \<Rightarrow> string \<Rightarrow> nat \<Rightarrow> audit_row list \<Rightarrow> nat \<times> nat \<times> go_error option" where
  "verify_rows lib expected checked [] = (checked, 0, None)"
| "verify_rows lib expected checked (r # rs) = (case scan_event lib r of
       Inl e \<Rightarrow> (checked, 0, Some e)
     | Inr e \<Rightarrow>
         if ev_previous e \<noteq> expected then (checked, ev_seq e, None)
         else if entry_hash lib e \<noteq> ev_hash e then (checked, ev_seq e, None)
         else verify_rows lib (ev_hash e) (checked + 1) rs)"

definition verify_chain :: "audit_lib \<Rightarrow> go_error option \<Rightarrow> nat \<Rightarrow> audit_db \<Rightarrow> nat \<times> nat \<times> go_error option" where
  "verify_chain lib fault limit db = (case fault of
       Some e \<Rightarrow> (0, 0, Some e)
     | None \<Rightarrow> verify_rows lib [] 0 (take limit (ad_rows db)))"


section \<open>The chain\<close>

text \<open>A list of rows that \<open>VerifyChain\<close> accepts after \<open>prev\<close>, and the hash it ends with.\<close>

fun chain :: "audit_lib \<Rightarrow> string \<Rightarrow> audit_row list \<Rightarrow> bool" where
  "chain lib prev [] = True"
| "chain lib prev (r # rs) = (case scan_event lib r of
       Inl e \<Rightarrow> False
     | Inr e \<Rightarrow> ev_previous e = prev \<and> entry_hash lib e = ev_hash e \<and> chain lib (ev_hash e) rs)"

definition end_hash :: "string \<Rightarrow> audit_row list \<Rightarrow> string" where
  "end_hash prev rs = (case rev rs of [] \<Rightarrow> prev | r # _ \<Rightarrow> ar_hash r)"

definition audit_ok :: "audit_lib \<Rightarrow> audit_db \<Rightarrow> bool" where
  "audit_ok lib db \<longleftrightarrow> chain lib [] (ad_rows db) \<and> sorted_wrt (<) (map ar_seq (ad_rows db)) \<and>
     (case ad_head db of None \<Rightarrow> True | Some (n, h) \<Rightarrow> coalesce h = end_hash [] (ad_rows db))"

text \<open>An optional identifier that the column reproduces as far as the hash is concerned.\<close>

definition hashable_opt :: "id_opt \<Rightarrow> bool" where
  "hashable_opt x \<longleftrightarrow> \<not> opt_valid x \<or> \<not> is_zero_id (opt_id x)"

definition clean_event :: "audit_event \<Rightarrow> bool" where
  "clean_event e \<longleftrightarrow> hashable_opt (ev_actor_id e) \<and> hashable_opt (ev_target_id e)"

lemma scan_hash [simp]: "scan_event lib r = Inr e \<Longrightarrow> ev_hash e = ar_hash r"
  by (auto simp: scan_event_def split: sum.splits)

lemma end_hash_simps [simp]: "end_hash p [] = p" "end_hash p (rs @ [r]) = ar_hash r"
  by (simp_all add: end_hash_def)

lemma end_hash_Cons: "end_hash p (r # rs) = end_hash (ar_hash r) rs"
  by (cases rs rule: rev_cases) (simp_all add: end_hash_def)

lemma chain_append:
  "chain lib p (rs @ ss) \<longleftrightarrow> chain lib p rs \<and> chain lib (end_hash p rs) ss"
  by (induction rs arbitrary: p) (auto simp: end_hash_Cons split: sum.splits)

lemma verify_chain_rows: "chain lib p rs \<Longrightarrow> verify_rows lib p c rs = (c + length rs, 0, None)"
  by (induction rs arbitrary: p c) (auto split: sum.splits)

lemma audit_ok_verifies:
  assumes "audit_ok lib db"
  shows "verify_chain lib None limit db = (min limit (length (ad_rows db)), 0, None)"
proof -
  have "chain lib [] (take limit (ad_rows db) @ drop limit (ad_rows db))" using assms by (simp add: audit_ok_def)
  then have "chain lib [] (take limit (ad_rows db))" unfolding chain_append by blast
  from verify_chain_rows [OF this] show ?thesis by (simp add: verify_chain_def min.commute)
qed

lemma opt_column:
  assumes "hashable_opt x"
  shows "\<exists>y. opt_scan uc (opt_value x) = Inr y \<and> opt_valid y = opt_valid x \<and> (opt_valid x \<longrightarrow> opt_id y = opt_id x)"
proof (cases "opt_valid x")
  case True
  with assms have "clean_opt x" by (simp add: hashable_opt_def clean_opt_def)
  from opt_col.column_round_trip [OF this] show ?thesis by blast
next
  case False
  then show ?thesis by (simp add: opt_value_def opt_scan_def none_id_def)
qed

lemma scan_row_of_event:
  assumes "clean_event e"
  shows "\<exists>e'. scan_event lib (row_of_event seq m e) = Inr e' \<and> hash_parts lib e' = hash_parts lib e \<and>
    ev_previous e' = ev_previous e \<and> ev_hash e' = ev_hash e"
proof -
  obtain a where a: "opt_scan (al_ulid lib) (opt_value (ev_actor_id e)) = Inr a" "opt_text lib a = opt_text lib (ev_actor_id e)"
    using opt_column [of "ev_actor_id e" "al_ulid lib"] assms by (auto simp: clean_event_def opt_text_def)
  obtain t where t: "opt_scan (al_ulid lib) (opt_value (ev_target_id e)) = Inr t" "opt_text lib t = opt_text lib (ev_target_id e)"
    using opt_column [of "ev_target_id e" "al_ulid lib"] assms by (auto simp: clean_event_def opt_text_def)
  have i: "id_scan (al_ulid lib) (id_value (ev_id e)) = Inr (ev_id e)" by (rule id_col.column_round_trip) simp
  show ?thesis using a t i by (simp add: scan_event_def row_of_event_def hash_parts_def)
qed

lemma seal_complete_clean: "clean_event e \<Longrightarrow> clean_event (seal_event lib p (complete_event env e))"
  by (simp add: clean_event_def seal_event_def complete_event_def Let_def)

lemma seal_event_hash: "ev_hash (seal_event lib p e) = entry_hash lib (seal_event lib p e)"
  by (simp add: seal_event_def Let_def entry_hash_def hash_input_def hash_parts_def)

lemma seal_event_previous [simp]: "ev_previous (seal_event lib p e) = p"
  by (simp add: seal_event_def Let_def)

lemma append_event_ok:
  assumes "append_event lib env e db = (None, db')"
  obtains n h m where "ad_head db = Some (n, h)"
    "ad_rows db' = ad_rows db @ [row_of_event (next_seq (ap_gap env) db) m (seal_event lib (coalesce h) (complete_event env e))]"
    "ad_head db' = Some (n + 1, Some (ev_hash (seal_event lib (coalesce h) (complete_event env e))))"
  using assms
  by (auto simp: append_event_def read_head_def Let_def split: if_splits sum.splits option.splits prod.splits)

lemma next_seq_greater:
  "sorted_wrt (<) (map ar_seq (ad_rows db)) \<Longrightarrow> sorted_wrt (<) (map ar_seq (ad_rows db) @ [next_seq g db])"
proof -
  assume s: "sorted_wrt (<) (map ar_seq (ad_rows db))"
  show ?thesis
  proof (cases "ad_rows db" rule: rev_cases)
    case Nil
    then show ?thesis by simp
  next
    case (snoc rs r)
    with s show ?thesis by (fastforce simp: sorted_wrt_append next_seq_def)
  qed
qed

lemma append_event_keeps:
  assumes "audit_ok lib db" and "clean_event e" and "append_event lib env e db = (None, db')"
  shows "audit_ok lib db'"
proof -
  from assms(3) obtain n h m where h: "ad_head db = Some (n, h)"
    and rows: "ad_rows db' = ad_rows db @ [row_of_event (next_seq (ap_gap env) db) m (seal_event lib (coalesce h) (complete_event env e))]"
    and head: "ad_head db' = Some (n + 1, Some (ev_hash (seal_event lib (coalesce h) (complete_event env e))))"
    by (rule append_event_ok)
  let ?e = "seal_event lib (coalesce h) (complete_event env e)"
  let ?r = "row_of_event (next_seq (ap_gap env) db) m ?e"
  obtain e' where e': "scan_event lib ?r = Inr e'" "hash_parts lib e' = hash_parts lib ?e" "ev_previous e' = coalesce h"
      "ev_hash e' = ev_hash ?e"
    using scan_row_of_event [OF seal_complete_clean [OF assms(2)]] by (metis seal_event_previous)
  have p: "coalesce h = end_hash [] (ad_rows db)" using assms(1) h by (simp add: audit_ok_def)
  have "entry_hash lib e' = ev_hash e'"
    using e'(2,4) seal_event_hash [of lib "coalesce h" "complete_event env e"] by (simp add: entry_hash_def hash_input_def)
  then have "chain lib [] (ad_rows db')" using assms(1) e' p by (simp add: rows chain_append audit_ok_def)
  moreover have "ar_seq ?r = next_seq (ap_gap env) db" "ar_hash ?r = ev_hash ?e" by (simp_all add: row_of_event_def)
  ultimately show ?thesis
    using assms(1) next_seq_greater [of db "ap_gap env"] by (simp add: audit_ok_def rows head coalesce_def)
qed

lemma append_body_keeps:
  "audit_ok lib db \<Longrightarrow> clean_event e \<Longrightarrow> append_body lib envs n (db, e) = (TxOk, db', e') \<Longrightarrow> audit_ok lib db'"
  by (auto simp: append_body_def split: prod.splits option.splits dest: append_event_keeps)

interpretation audit_tx: tx_body "append_body lib envs" "audit_ok lib" clean_event for lib envs
proof unfold_locales
  show "clean_event e \<Longrightarrow> append_body lib envs n (db, e) = (r, db', e') \<Longrightarrow> clean_event e'" for e n db r db' e'
    by (auto simp: append_body_def split: prod.splits option.splits)
qed (rule append_body_keeps)

section \<open>Properties\<close>

text \<open>A run of standalone appends, each with its own server.\<close>

fun append_all :: "audit_lib \<Rightarrow> ((nat \<Rightarrow> append_env) \<times> (nat \<Rightarrow> audit_db tx_env) \<times> audit_event) list \<Rightarrow> audit_db \<Rightarrow> audit_db" where
  "append_all lib [] db = db"
| "append_all lib ((envs, txs, e) # es) db = append_all lib es (snd (append_standalone lib envs txs e db))"

definition empty_trail :: audit_db where
  "empty_trail = \<lparr>ad_rows = [], ad_head = Some (0, None)\<rparr>"

definition no_tamper :: "audit_lib \<Rightarrow> (nat \<Rightarrow> audit_db tx_env) \<Rightarrow> bool" where
  "no_tamper lib txs \<longleftrightarrow> (\<forall>n db. audit_ok lib db \<longrightarrow> audit_ok lib (te_before (txs n) db))"

lemma append_all_keeps:
  assumes "\<forall>(envs, txs, e) \<in> set es. clean_event e \<and> no_tamper lib txs" and "audit_ok lib db"
  shows "audit_ok lib (append_all lib es db)"
  using assms
proof (induction es arbitrary: db)
  case (Cons a es)
  obtain envs txs e where a: "a = (envs, txs, e)" by (cases a)
  obtain r db' e' ws where t: "in_tx ''audit_append'' txs (append_body lib envs) (db, e) = (r, db', e', ws)"
    by (metis surj_pair)
  have "audit_ok lib db'"
    using audit_tx.in_tx_keeps [OF _ Cons.prems(2) _ t] Cons.prems(1) a by (auto simp: no_tamper_def)
  with Cons a t show ?case by (simp add: append_standalone_def)
qed simp

text \<open>C3. A trail nobody tampers with verifies, when no event names an actor or a target that is present and zero (see
  \<open>zero_actor_breaks_chain\<close>): after any run of standalone appends, whatever statements and commits the server
  fails, retries, or applies without an acknowledgement, and whatever other sessions do that leaves the trail
  intact, \<open>VerifyChain\<close> walks as many rows as it is asked to and reports no broken link.\<close>

theorem intact_trail_verifies:
  assumes "\<forall>(envs, txs, e) \<in> set es. clean_event e \<and> no_tamper lib txs"
  shows "verify_chain lib None limit (append_all lib es empty_trail) =
    (min limit (length (ad_rows (append_all lib es empty_trail))), 0, None)"
proof (rule audit_ok_verifies)
  show "audit_ok lib (append_all lib es empty_trail)"
    by (rule append_all_keeps [OF assms]) (simp add: empty_trail_def audit_ok_def coalesce_def)
qed

definition sample_lib :: audit_lib where
  "sample_lib = \<lparr>al_sha = (\<lambda>m. CHR ''h'' # m), al_ulid = sample_codec, al_fmt = show_int, al_uni = (\<lambda>s. s),
     al_enc = (\<lambda>_. None), al_num = Some\<rparr>"

definition sample_event :: audit_event where
  "sample_event = \<lparr>ev_id = nil_id, ev_seq = 0, ev_actor_type = actor_admin, ev_actor_id = some_id sample_id,
     ev_role = ''owner'', ev_action = ''grant'', ev_target_type = ''user'', ev_target_id = none_id,
     ev_reason = ''support'', ev_request_id = [], ev_trace_id = [], ev_metadata = [], ev_before = [], ev_after = [],
     ev_previous = [], ev_hash = [], ev_created = 0\<rparr>"

definition sample_append :: append_env where
  "sample_append = \<lparr>ap_id = sample_id, ap_now = 5000000, ap_request_id = ''r1'', ap_trace_id = [], ap_gap = 0,
     ap_head_err = None, ap_insert_err = None, ap_update_err = None\<rparr>"

lemma sample_event_clean: "clean_event sample_event"
  by (simp add: clean_event_def sample_event_def hashable_opt_def some_id_def none_id_def)

theorem intact_trail_verifies_witness:
  "verify_chain sample_lib None 10 (append_all sample_lib [(\<lambda>_. sample_append, \<lambda>_. calm_env, sample_event)] empty_trail) =
    (min 10 (length (ad_rows (append_all sample_lib [(\<lambda>_. sample_append, \<lambda>_. calm_env, sample_event)] empty_trail))), 0, None)"
  by (rule intact_trail_verifies) (simp add: sample_event_clean no_tamper_def calm_env_def)

subsection \<open>Tamper evidence\<close>

definition covered :: "audit_lib \<Rightarrow> audit_row \<Rightarrow> string list" where
  "covered lib r = (case scan_event lib r of Inl e \<Rightarrow> [] | Inr e \<Rightarrow> hash_parts lib e)"

definition row_input :: "audit_lib \<Rightarrow> audit_row \<Rightarrow> string" where
  "row_input lib r = concat (map (\<lambda>p. p @ [CHR 0x00]) (covered lib r))"

definition nul_free :: "audit_lib \<Rightarrow> audit_row list \<Rightarrow> bool" where
  "nul_free lib rs = list_all (\<lambda>r. list_all (\<lambda>p. CHR 0x00 \<notin> set p) (covered lib r)) rs"

lemma terminated_inj:
  "list_all (\<lambda>p. c \<notin> set p) ps \<Longrightarrow> list_all (\<lambda>p. c \<notin> set p) qs \<Longrightarrow>
     concat (map (\<lambda>p. p @ [c]) ps) = concat (map (\<lambda>p. p @ [c]) qs) \<Longrightarrow> ps = qs"
proof (induction ps arbitrary: qs)
  case Nil
  then show ?case by (cases qs) auto
next
  case (Cons p ps)
  obtain q qs' where q: "qs = q # qs'" using Cons.prems(3) by (cases qs) auto
  have split: "a @ c # x = b @ c # y \<Longrightarrow> c \<notin> set a \<Longrightarrow> c \<notin> set b \<Longrightarrow> a = b \<and> x = y" for a b x y
  proof (induction a arbitrary: b)
    case Nil
    then show ?case by (cases b) auto
  next
    case (Cons d a)
    then show ?case by (cases b) auto
  qed
  have "p @ c # concat (map (\<lambda>p. p @ [c]) ps) = q @ c # concat (map (\<lambda>p. p @ [c]) qs')"
    using Cons.prems(3) q by simp
  from split [OF this] Cons.prems q have "p = q" "concat (map (\<lambda>p. p @ [c]) ps) = concat (map (\<lambda>p. p @ [c]) qs')" by simp_all
  with Cons q show ?case by simp
qed

lemma verify_rows_bound: "verify_rows lib p c rs = (n, b, e) \<Longrightarrow> n \<le> c + length rs"
  by (induction rs arbitrary: p c) (fastforce split: sum.splits if_splits)+

lemma verified_chain: "verify_rows lib p c rs = (c + length rs, b, e) \<Longrightarrow> chain lib p rs"
proof (induction rs arbitrary: p c)
  case (Cons r rs)
  show ?case
  proof (cases "scan_event lib r")
    case (Inl err)
    with Cons.prems show ?thesis by simp
  next
    case (Inr ev)
    with Cons.prems Cons.IH [of "ev_hash ev" "c + 1"] show ?thesis by (auto split: if_splits)
  qed
qed simp

lemma chain_last:
  "chain lib [] (rs @ [r]) \<Longrightarrow> ar_hash r = hex_encode (al_sha lib (row_input lib r)) \<and>
     (\<exists>e. scan_event lib r = Inr e \<and> covered lib r = hash_parts lib e \<and> ev_previous e = end_hash [] rs)"
  by (auto simp: chain_append row_input_def covered_def entry_hash_def hash_input_def split: sum.splits
      dest: scan_hash)

lemma same_end_same_rows:
  assumes "\<And>m. al_sha lib m \<noteq> []"
    and "chain lib [] rs" and "chain lib [] ss" and "end_hash [] rs = end_hash [] ss"
    and "nul_free lib rs" and "nul_free lib ss"
  shows "map (covered lib) rs = map (covered lib) ss \<or>
    (\<exists>r \<in> set rs. \<exists>s \<in> set ss. row_input lib r \<noteq> row_input lib s \<and> al_sha lib (row_input lib r) = al_sha lib (row_input lib s))"
  using assms(2-6)
proof (induction rs arbitrary: ss rule: rev_induct)
  case Nil
  show ?case
  proof (cases ss rule: rev_cases)
    case (snoc ts t)
    with Nil chain_last [of lib ts t] have "hex_encode (al_sha lib (row_input lib t)) = []" by simp
    then show ?thesis using assms(1) by (cases "al_sha lib (row_input lib t)") auto
  qed simp
next
  case (snoc r rs)
  obtain e where e: "ar_hash r = hex_encode (al_sha lib (row_input lib r))" "covered lib r = hash_parts lib e"
      "ev_previous e = end_hash [] rs" using chain_last [OF snoc.prems(1)] by blast
  show ?case
  proof (cases ss rule: rev_cases)
    case Nil
    with snoc.prems e have "hex_encode (al_sha lib (row_input lib r)) = []" by simp
    then show ?thesis using assms(1) by (cases "al_sha lib (row_input lib r)") auto
  next
    case (snoc ts t)
    obtain d where d: "ar_hash t = hex_encode (al_sha lib (row_input lib t))" "covered lib t = hash_parts lib d"
        "ev_previous d = end_hash [] ts" using chain_last snoc.prems(2) snoc by metis
    have sha: "al_sha lib (row_input lib r) = al_sha lib (row_input lib t)"
      using hex_encode_inj snoc.prems(3) snoc e(1) d(1) by simp
    show ?thesis
    proof (cases "row_input lib r = row_input lib t")
      case False
      with sha snoc show ?thesis by auto
    next
      case True
      have same: "covered lib r = covered lib t"
        using terminated_inj [of "CHR 0x00" "covered lib r" "covered lib t"] True snoc.prems(4,5) snoc
        by (simp add: row_input_def nul_free_def)
      then have "ev_previous e = ev_previous d" using e(2) d(2) by (simp add: hash_parts_def)
      then have "map (covered lib) rs = map (covered lib) ts \<or>
          (\<exists>r \<in> set rs. \<exists>s \<in> set ts. row_input lib r \<noteq> row_input lib s \<and> al_sha lib (row_input lib r) = al_sha lib (row_input lib s))"
        using snoc.IH [of ts] snoc.prems snoc e(3) d(3) by (simp add: chain_append nul_free_def)
      then show ?thesis using same snoc by auto
    qed
  qed
qed

lemma chain_take: "chain lib p rs \<Longrightarrow> chain lib p (take n rs)"
  using chain_append [of lib p "take n rs" "drop n rs"] by simp

lemma end_hash_take: "i < length rs \<Longrightarrow> end_hash p (take (Suc i) rs) = ar_hash (rs ! i)"
  by (simp add: take_Suc_conv_app_nth)

lemma nul_free_take: "nul_free lib rs \<Longrightarrow> nul_free lib (take n rs)"
  by (auto simp: nul_free_def list_all_iff dest: in_set_takeD)

text \<open>C2. The trail is tamper evident as far as a stored hash reaches: in two trails that \<open>VerifyChain\<close> accepts from the
  first to the last row, two rows with the same stored entry hash stand at the same position, and they and all rows
  before them agree in every field the hash covers, or two of the rows are a collision of SHA-256; the fields must
  hold no zero bytes, which separate them in the hash. So an accepted edit of a covered field, an insertion or a
  removal replaces the stored hash of every row from there to the end. A trail rewritten that way is accepted
  (\<open>resealed_trail_verifies\<close>).\<close>

theorem tamper_evident:
  assumes "\<And>m. al_sha lib m \<noteq> []"
    and "verify_rows lib [] 0 rs = (length rs, 0, None)" and "verify_rows lib [] 0 ss = (length ss, 0, None)"
    and "i < length rs" and "j < length ss" and "ar_hash (rs ! i) = ar_hash (ss ! j)"
    and "nul_free lib rs" and "nul_free lib ss"
  shows "i = j \<and> map (covered lib) (take (Suc i) rs) = map (covered lib) (take (Suc i) ss) \<or>
    (\<exists>r \<in> set rs. \<exists>s \<in> set ss. row_input lib r \<noteq> row_input lib s \<and> al_sha lib (row_input lib r) = al_sha lib (row_input lib s))"
proof -
  let ?rs = "take (Suc i) rs" and ?ss = "take (Suc j) ss"
  have "chain lib [] ?rs" "chain lib [] ?ss"
    using verified_chain [of lib "[]" 0 rs 0 None] verified_chain [of lib "[]" 0 ss 0 None] assms(2,3) by (simp_all add: chain_take)
  moreover have "end_hash [] ?rs = end_hash [] ?ss" using assms(4-6) by (simp add: end_hash_take)
  ultimately consider "map (covered lib) ?rs = map (covered lib) ?ss"
    | r s where "r \<in> set ?rs" "s \<in> set ?ss" "row_input lib r \<noteq> row_input lib s" "al_sha lib (row_input lib r) = al_sha lib (row_input lib s)"
    using same_end_same_rows [OF assms(1)] nul_free_take assms(7,8) by blast
  then show ?thesis
  proof cases
    case 1
    then have "length ?rs = length ?ss" by (rule map_eq_imp_length_eq)
    then have "i = j" using assms(4,5) by simp
    with 1 show ?thesis by blast
  next
    case 2
    then show ?thesis by (meson in_set_takeD)
  qed
qed

text \<open>Whoever can write the table can also reseal it: link every row to the one before and store the hash it then has.\<close>

fun reseal :: "audit_lib \<Rightarrow> string \<Rightarrow> audit_row list \<Rightarrow> audit_row list" where
  "reseal lib previous [] = []"
| "reseal lib previous (r # rs) =
     (let r1 = r\<lparr>ar_previous := null_if_empty previous\<rparr>;
          h = (case scan_event lib r1 of Inr e \<Rightarrow> entry_hash lib e | Inl _ \<Rightarrow> [])
      in r1\<lparr>ar_hash := h\<rparr> # reseal lib h rs)"

text \<open>C34. \<open>VerifyChain\<close> accepts every trail that was resealed, whatever its rows say, as long as their identifiers can be
  read; and resealing changes no other column. The chain head, which an append advances with the hash of the last
  entry, is not compared, so a forged trail verifies also when it does not end in the hash the head holds.\<close>

theorem resealed_trail_verifies:
  assumes "list_all (\<lambda>r. \<exists>e. scan_event lib r = Inr e) rs"
  shows "verify_chain lib None (length rs) \<lparr>ad_rows = reseal lib [] rs, ad_head = head\<rparr> = (length rs, 0, None) \<and>
    map (\<lambda>r. r\<lparr>ar_previous := None, ar_hash := []\<rparr>) (reseal lib [] rs) = map (\<lambda>r. r\<lparr>ar_previous := None, ar_hash := []\<rparr>) rs"
proof -
  have len: "length (reseal lib p rs) = length rs" for p by (induction rs arbitrary: p) (simp_all add: Let_def)
  have "chain lib p (reseal lib p rs) \<and>
      map (\<lambda>r. r\<lparr>ar_previous := None, ar_hash := []\<rparr>) (reseal lib p rs) = map (\<lambda>r. r\<lparr>ar_previous := None, ar_hash := []\<rparr>) rs" for p
    using assms
  proof (induction rs arbitrary: p)
    case (Cons r rs)
    let ?r = "r\<lparr>ar_previous := null_if_empty p\<rparr>"
    obtain e where e: "scan_event lib r = Inr e" using Cons.prems by auto
    then have s: "scan_event lib ?r = Inr (e\<lparr>ev_previous := p\<rparr>)"
      by (auto simp: scan_event_def split: sum.splits)
    have t: "scan_event lib (?r\<lparr>ar_hash := h\<rparr>) = Inr (e\<lparr>ev_previous := p, ev_hash := h\<rparr>)" for h
      using e by (auto simp: scan_event_def split: sum.splits)
    have "entry_hash lib (e\<lparr>ev_previous := p, ev_hash := h\<rparr>) = entry_hash lib (e\<lparr>ev_previous := p\<rparr>)" for h
      by (simp add: entry_hash_def hash_input_def hash_parts_def opt_text_def)
    with Cons.IH Cons.prems show ?case by (simp add: Let_def s t)
  qed simp
  then show ?thesis using verify_chain_rows [of lib "[]" "reseal lib [] rs" 0] len [of "[]"] by (simp add: verify_chain_def)
qed

definition sample_sealed :: audit_event where
  "sample_sealed = seal_event sample_lib [] (complete_event sample_append sample_event)"

definition sample_rows :: "audit_row list" where
  "sample_rows = [row_of_event 1 None sample_sealed]"

definition edited_rows :: "audit_row list" where
  "edited_rows = map (\<lambda>r. r\<lparr>ar_trace_id := Some ''forged''\<rparr>) sample_rows"

lemma sample_scan:
  "\<exists>e. scan_event sample_lib (row_of_event 1 None sample_sealed) = Inr e \<and> hash_parts sample_lib e = hash_parts sample_lib sample_sealed \<and>
     ev_previous e = [] \<and> ev_hash e = ev_hash sample_sealed"
proof -
  have "clean_event sample_sealed" using seal_complete_clean [OF sample_event_clean] by (simp add: sample_sealed_def)
  from scan_row_of_event [OF this, of sample_lib 1 None] show ?thesis by (simp add: sample_sealed_def)
qed

lemma sample_chain: "chain sample_lib [] sample_rows" "end_hash [] sample_rows = ev_hash sample_sealed"
  using sample_scan seal_event_hash [of sample_lib "[]" "complete_event sample_append sample_event"]
  by (auto simp: sample_rows_def sample_sealed_def entry_hash_def hash_input_def end_hash_def row_of_event_def)

lemma sample_nul_free: "nul_free sample_lib sample_rows"
proof -
  have c: "covered sample_lib (row_of_event 1 None sample_sealed) = hash_parts sample_lib sample_sealed"
    using sample_scan by (auto simp: covered_def)
  have i: "CHR 0x00 \<notin> set (id_string sample_codec sample_id)" by (rule id_string_no_nul [OF sample_codec_laws])
  have t: "CHR 0x00 \<notin> set (show_int n)" for n
    using show_nat_digits [of "CHR 0x00"] by (auto simp: show_int_def byte_val_def)
  show ?thesis
    using i t unfolding nul_free_def sample_rows_def list.pred_inject c
    by (simp add: hash_parts_def sample_sealed_def seal_event_def complete_event_def sample_lib_def sample_event_def
        sample_append_def opt_text_def some_id_def none_id_def is_zero_id_def Let_def)
qed

lemma edited_chain:
  "chain lib p rs \<Longrightarrow> chain lib p (map (\<lambda>r. r\<lparr>ar_metadata := m r, ar_trace_id := t r\<rparr>) rs)"
  by (induction rs arbitrary: p) (auto simp: scan_event_def split: sum.splits)

theorem tamper_evident_witness:
  "map (covered sample_lib) (take 1 sample_rows) = map (covered sample_lib) (take 1 edited_rows) \<or>
    (\<exists>r \<in> set sample_rows. \<exists>s \<in> set edited_rows. row_input sample_lib r \<noteq> row_input sample_lib s \<and>
      al_sha sample_lib (row_input sample_lib r) = al_sha sample_lib (row_input sample_lib s))"
proof -
  have "edited_rows = map (\<lambda>r. r\<lparr>ar_metadata := ar_metadata r, ar_trace_id := Some ''forged''\<rparr>) sample_rows"
    by (simp add: edited_rows_def)
  then have "chain sample_lib [] edited_rows"
    using edited_chain [OF sample_chain(1), where m = ar_metadata and t = "\<lambda>_. Some ''forged''"] by (simp del: map_eq_conv)
  then have e: "verify_rows sample_lib [] 0 edited_rows = (length edited_rows, 0, None)" using verify_chain_rows by fastforce
  have s: "verify_rows sample_lib [] 0 sample_rows = (length sample_rows, 0, None)"
    using verify_chain_rows [OF sample_chain(1)] by simp
  have h: "ar_hash (sample_rows ! 0) = ar_hash (edited_rows ! 0)" "0 < length sample_rows" "0 < length edited_rows"
    by (simp_all add: edited_rows_def sample_rows_def)
  have "covered sample_lib (r\<lparr>ar_trace_id := x\<rparr>) = covered sample_lib r" for r x
    by (simp add: covered_def scan_event_def split: sum.split)
  then have "nul_free sample_lib edited_rows" using sample_nul_free by (simp add: edited_rows_def sample_rows_def nul_free_def)
  moreover have "\<And>m. al_sha sample_lib m \<noteq> []" by (simp add: sample_lib_def)
  ultimately show ?thesis
    using tamper_evident [OF _ s e h(2,3,1) sample_nul_free] by (simp only: One_nat_def) blast
qed

text \<open>The grant of the sample rewritten into another action, and accepted.\<close>

theorem resealed_trail_verifies_witness:
  "verify_chain sample_lib None 1 \<lparr>ad_rows = reseal sample_lib [] (map (\<lambda>r. r\<lparr>ar_action := ''forged''\<rparr>) sample_rows), ad_head = None\<rparr> = (1, 0, None)"
proof -
  obtain e where "scan_event sample_lib (row_of_event 1 None sample_sealed) = Inr e" using sample_scan by blast
  then have "scan_event sample_lib ((row_of_event 1 None sample_sealed)\<lparr>ar_action := ''forged''\<rparr>) = Inr (e\<lparr>ev_action := ''forged''\<rparr>)"
    by (auto simp: scan_event_def split: sum.splits)
  then have "list_all (\<lambda>r. \<exists>e. scan_event sample_lib r = Inr e) (map (\<lambda>r. r\<lparr>ar_action := ''forged''\<rparr>) sample_rows)"
    by (simp add: sample_rows_def)
  from resealed_trail_verifies [OF this, of None] show ?thesis by (simp add: sample_rows_def)
qed

text \<open>What the chain does not show: a trail stays verifiable when its last rows are removed (\<open>VerifyChain\<close>
  does not read the chain head), and when the metadata and the trace identifier of any row are replaced,
  which no hash covers.\<close>

theorem undetected_edits:
  assumes "chain lib [] rs"
  shows "verify_rows lib [] 0 (take n rs) = (min n (length rs), 0, None) \<and>
    verify_rows lib [] 0 (map (\<lambda>r. r\<lparr>ar_metadata := m r, ar_trace_id := t r\<rparr>) rs) = (length rs, 0, None)"
proof -
  have "chain lib [] (take n rs @ drop n rs)" using assms by simp
  then have "chain lib [] (take n rs)" unfolding chain_append by blast
  then show ?thesis
    using assms verify_chain_rows edited_chain [OF assms, where m = m and t = t] by (simp add: min.commute)
qed

theorem undetected_edits_witness:
  "verify_rows sample_lib [] 0 (map (\<lambda>r. r\<lparr>ar_metadata := None, ar_trace_id := Some ''forged''\<rparr>) sample_rows) = (1, 0, None)"
  using undetected_edits [OF sample_chain(1), where n = 0 and m = "\<lambda>_. None" and t = "\<lambda>_. Some ''forged''"] by (simp only: sample_rows_def list.size) simp

text \<open>An actor that is present but zero breaks the chain for good: \<open>Append\<close> hashes the text of the zero
  identifier and stores \<open>NULL\<close>, so \<open>VerifyChain\<close> recomputes another hash from the row and reports it as
  tampered with, unless SHA-256 collides on these two inputs.\<close>

theorem zero_actor_breaks_chain:
  assumes "ulid_laws (al_ulid lib)" and "ev_actor_id e = \<lparr>opt_id = nil_id, opt_valid = True\<rparr>" and "hashable_opt (ev_target_id e)"
    and "append_event lib env e empty_trail = (None, db)"
    and "sealed = seal_event lib [] (complete_event env e)"
  shows "hash_input lib sealed \<noteq> hash_input lib (sealed\<lparr>ev_actor_id := none_id\<rparr>) \<and>
    verify_chain lib None 1 db =
      (if al_sha lib (hash_input lib sealed) = al_sha lib (hash_input lib (sealed\<lparr>ev_actor_id := none_id\<rparr>))
       then (1, 0, None) else (0, 1 + ap_gap env, None))"
proof -
  obtain n h m where h: "ad_head empty_trail = Some (n, h)" and "ad_rows db = ad_rows empty_trail @
      [row_of_event (next_seq (ap_gap env) empty_trail) m (seal_event lib (coalesce h) (complete_event env e))]"
    by (rule append_event_ok [OF assms(4)])
  then have rows: "ad_rows db = [row_of_event (1 + ap_gap env) m sealed]"
    by (auto simp: empty_trail_def next_seq_def coalesce_def assms(5))
  have a: "ev_actor_id sealed = \<lparr>opt_id = nil_id, opt_valid = True\<rparr>" "ev_target_id sealed = ev_target_id e" "ev_previous sealed = []"
    by (simp_all add: assms(2,5) seal_event_def complete_event_def Let_def)
  let ?e = "sealed\<lparr>ev_actor_id := none_id\<rparr>"
  have "row_of_event (1 + ap_gap env) m sealed = row_of_event (1 + ap_gap env) m ?e"
    using a by (simp add: row_of_event_def opt_value_def is_zero_id_def none_id_def)
  moreover have "clean_event ?e" using assms(3) a by (simp add: clean_event_def hashable_opt_def none_id_def)
  ultimately obtain e' where e': "scan_event lib (row_of_event (1 + ap_gap env) m sealed) = Inr e'"
      "hash_parts lib e' = hash_parts lib ?e" "ev_previous e' = []" "ev_hash e' = ev_hash sealed"
    using scan_row_of_event [of ?e lib "1 + ap_gap env" m] a by auto
  have s: "ev_seq e' = 1 + ap_gap env" using e'(1) by (auto simp: scan_event_def row_of_event_def split: sum.splits)
  have i: "hash_input lib e' = hash_input lib ?e" using e'(2) by (simp add: hash_input_def)
  have "length (hash_input lib sealed) = length (hash_input lib ?e) + length (id_string (al_ulid lib) nil_id)"
    using a by (simp add: hash_input_def hash_parts_def opt_text_def none_id_def)
  then have ne: "hash_input lib sealed \<noteq> hash_input lib ?e" using id_string_nonempty [OF assms(1), of nil_id] by auto
  have "ev_hash sealed = entry_hash lib sealed" unfolding assms(5) by (rule seal_event_hash)
  then have "entry_hash lib e' = ev_hash e' \<longleftrightarrow> al_sha lib (hash_input lib sealed) = al_sha lib (hash_input lib ?e)"
    using e'(4) i by (metis entry_hash_def hex_encode_inj)
  then show ?thesis using ne e' s by (auto simp: verify_chain_def rows)
qed

theorem zero_actor_breaks_chain_witness:
  "fst (append_event sample_lib sample_append (sample_event\<lparr>ev_actor_id := \<lparr>opt_id = nil_id, opt_valid = True\<rparr>\<rparr>) empty_trail) = None \<and>
   verify_chain sample_lib None 1 (snd (append_event sample_lib sample_append
      (sample_event\<lparr>ev_actor_id := \<lparr>opt_id = nil_id, opt_valid = True\<rparr>\<rparr>) empty_trail)) = (0, 1, None)"
proof -
  let ?e = "sample_event\<lparr>ev_actor_id := \<lparr>opt_id = nil_id, opt_valid = True\<rparr>\<rparr>"
  have "trim_space ''grant'' = ''grant''" by (rule trim_space_visible(1)) (simp_all add: visible_def byte_val_def)
  then have f: "fst (append_event sample_lib sample_append ?e empty_trail) = None"
    unfolding append_event_def read_head_def encode_metadata_def
    by (simp add: empty_trail_def sample_event_def sample_append_def Let_def)
  then have a: "append_event sample_lib sample_append ?e empty_trail = (None, snd (append_event sample_lib sample_append ?e empty_trail))"
    by (metis prod.collapse)
  have "ulid_laws (al_ulid sample_lib)" by (simp add: sample_lib_def sample_codec_laws)
  moreover have "ev_actor_id ?e = \<lparr>opt_id = nil_id, opt_valid = True\<rparr>" "hashable_opt (ev_target_id ?e)"
    by (simp_all add: sample_event_def hashable_opt_def none_id_def)
  ultimately have "verify_chain sample_lib None 1 (snd (append_event sample_lib sample_append ?e empty_trail)) = (0, 1 + ap_gap sample_append, None)"
    using zero_actor_breaks_chain [OF _ _ _ a refl] by (simp add: sample_lib_def)
  with f show ?thesis by (simp add: sample_append_def)
qed

subsection \<open>Metadata\<close>

text \<open>The entries of a metadata map: nested maps are entered, as the redaction does.\<close>

fun map_leaves :: "any_map \<Rightarrow> (string \<times> any_val) list" where
  "map_leaves [] = []"
| "map_leaves ((k, v) # m) = (case v of VMap (Some nested) \<Rightarrow> map_leaves nested | _ \<Rightarrow> [(k, v)]) @ map_leaves m"

definition entry_redacted :: "(string \<Rightarrow> string) \<Rightarrow> string \<times> any_val \<Rightarrow> bool" where
  "entry_redacted uni p = (if is_sensitive_key uni (fst p) then snd p = VStr redacted else True)"

lemma entry_redacted_pair [simp]:
  "entry_redacted uni (k, v) = (if is_sensitive_key uni k then v = VStr redacted else True)"
  by (simp add: entry_redacted_def)

text \<open>Metadata redaction reaches every nested map and nothing else: after it no entry of a map, at any depth,
  has a denied key and a value other than the replacement; but a map inside a slice is stored as it is.\<close>

theorem metadata_redaction:
  "list_all (entry_redacted uni) (map_leaves (redact_metadata uni m)) \<and>
   redact_metadata uni [(''items'', VSlice (Some [VMap (Some [(''token'', VStr s)])]))]
     = [(''items'', VSlice (Some [VMap (Some [(''token'', VStr s)])]))] \<and> is_sensitive_key uni ''token''"
proof -
  have "list_all (entry_redacted uni) (map_leaves (redact_metadata uni m))"
  proof (induction uni m rule: redact_metadata.induct)
    case (2 uni k v m)
    then show ?case by (auto split: any_val.splits option.splits)
  qed simp
  then show ?thesis by simp
qed

end
