(* ===== verification/Outbox.thy ===== *)
theory Outbox
  imports Ids Database
begin

text \<open>
  \<open>src/outbox/outbox.go\<close>: the transactional outbox. The relay's callback \<open>fn\<close> publishes to a queue: it
  changes a state \<open>'w\<close> that no rollback restores. Which unpublished rows other relays hold locked, and
  how the server answers each statement, are inputs of the attempt.

  The transaction of \<open>ClaimBatch\<close> interprets the locale \<open>tx_body\<close> with the invariant that published rows
  and the contents of all rows are never changed.
\<close>

section \<open>Rows and events\<close>

text \<open>The event types of the platform.\<close>

abbreviation event_prize_won :: string where "event_prize_won \<equiv> ''PrizeWon''"
abbreviation event_opening_ready :: string where "event_opening_ready \<equiv> ''OpeningReady''"
abbreviation event_fulfillment_retry :: string where "event_fulfillment_retry \<equiv> ''FulfillmentRetryRequested''"
abbreviation event_physical_claim_changed :: string where "event_physical_claim_changed \<equiv> ''PhysicalClaimStateChanged''"
abbreviation event_referral_qualified :: string where "event_referral_qualified \<equiv> ''ReferralQualified''"
abbreviation event_free_box_granted :: string where "event_free_box_granted \<equiv> ''FreeBoxEntitlementGranted''"
abbreviation event_fragment_redeemed :: string where "event_fragment_redeemed \<equiv> ''FragmentsRedeemed''"
abbreviation event_campaign_state_changed :: string where "event_campaign_state_changed \<equiv> ''CampaignStateChanged''"
abbreviation event_integrity_incident :: string where "event_integrity_incident \<equiv> ''IntegrityIncidentRaised''"
abbreviation event_buyback_obligation :: string where "event_buyback_obligation \<equiv> ''BuybackObligationCreated''"
abbreviation event_notification :: string where "event_notification \<equiv> ''NotificationRequested''"
abbreviation event_analytics :: string where "event_analytics \<equiv> ''AnalyticsEvent''"

record outbox_event =
  oe_id :: ID
  oe_aggregate_type :: string
  oe_aggregate_id :: ID
  oe_event_type :: string
  oe_queue :: string
  oe_group :: string
  oe_dedup :: string
  oe_payload :: string
  oe_occurred :: go_time
  oe_attempts :: nat

text \<open>The body of a queue message; the payload is raw JSON.\<close>

record envelope =
  en_event_id :: string
  en_event_type :: string
  en_aggregate :: string
  en_aggregate_id :: string
  en_occurred :: go_time
  en_request_id :: string
  en_trace_id :: string
  en_data :: string

record outbox_row =
  ob_id :: sql_value
  ob_aggregate_type :: string
  ob_aggregate_id :: sql_value
  ob_event_type :: string
  ob_queue :: string
  ob_group :: "string option"
  ob_dedup :: "string option"
  ob_payload :: string
  ob_occurred :: go_time
  ob_published :: "(go_time \<times> string) option"
  ob_attempts :: nat
  ob_last_error :: "string option"

type_synonym outbox_db = "outbox_row list"

record published =
  pb_event :: ID
  pb_message :: string
  pb_err :: "string option"

definition nullable :: "string \<Rightarrow> string option" where
  "nullable s = (if s = [] then None else Some s)"

definition column_text :: "string option \<Rightarrow> string" where
  "column_text x = (case x of Some s \<Rightarrow> s | None \<Rightarrow> [])"

section \<open>Appending\<close>

definition outbox_append :: "ID \<Rightarrow> go_time \<Rightarrow> go_error option \<Rightarrow> outbox_event \<Rightarrow> outbox_db \<Rightarrow> go_error option \<times> outbox_db" where
  "outbox_append fresh now fault e0 db =
     (let i = (if is_zero_id (oe_id e0) then fresh else oe_id e0);
          t = (if oe_occurred e0 = 0 then now else oe_occurred e0)
      in case fault of
           Some err \<Rightarrow> (Some (wrap_err (''append outbox event '' @ oe_event_type e0) err), db)
         | None \<Rightarrow> (None, db @ [\<lparr>ob_id = id_value i, ob_aggregate_type = oe_aggregate_type e0,
               ob_aggregate_id = id_value (oe_aggregate_id e0), ob_event_type = oe_event_type e0, ob_queue = oe_queue e0,
               ob_group = nullable (oe_group e0), ob_dedup = nullable (oe_dedup e0), ob_payload = oe_payload e0,
               ob_occurred = t, ob_published = None, ob_attempts = 0, ob_last_error = None\<rparr>]))"

section \<open>Claiming a batch\<close>

definition scan_outbox :: "ulid_codec \<Rightarrow> outbox_row \<Rightarrow> go_error + outbox_event" where
  "scan_outbox uc r = (case id_scan uc (ob_id r) of
       Inl e \<Rightarrow> Inl (wrap_err ''scan outbox row'' e)
     | Inr i \<Rightarrow> (case id_scan uc (ob_aggregate_id r) of
         Inl e \<Rightarrow> Inl (wrap_err ''scan outbox row'' e)
       | Inr a \<Rightarrow> Inr \<lparr>oe_id = i, oe_aggregate_type = ob_aggregate_type r, oe_aggregate_id = a,
           oe_event_type = ob_event_type r, oe_queue = ob_queue r, oe_group = column_text (ob_group r),
           oe_dedup = column_text (ob_dedup r), oe_payload = ob_payload r, oe_occurred = ob_occurred r,
           oe_attempts = ob_attempts r\<rparr>))"

fun scan_batch :: "ulid_codec \<Rightarrow> outbox_row list \<Rightarrow> go_error + outbox_event list" where
  "scan_batch uc [] = Inr []"
| "scan_batch uc (r # rs) = (case scan_outbox uc r of
       Inl e \<Rightarrow> Inl e
     | Inr e \<Rightarrow> (case scan_batch uc rs of Inl err \<Rightarrow> Inl err | Inr es \<Rightarrow> Inr (e # es)))"

definition key_bytes :: "sql_value \<Rightarrow> string" where
  "key_bytes v = (case v of SqlBytes b \<Rightarrow> b | _ \<Rightarrow> [])"

definition select_batch :: "nat \<Rightarrow> (outbox_row \<Rightarrow> bool) \<Rightarrow> outbox_db \<Rightarrow> outbox_row list" where
  "select_batch limit locked db =
     take limit (sort_key (\<lambda>r. key_bytes (ob_id r)) (filter (\<lambda>r. ob_published r = None \<and> \<not> locked r) db))"

record claim_env =
  ce_locked :: "nat \<Rightarrow> outbox_row \<Rightarrow> bool"
  ce_select :: "nat \<Rightarrow> go_error option"
  ce_update :: "nat \<Rightarrow> nat \<Rightarrow> go_error option"
  ce_now :: "nat \<Rightarrow> go_time"

definition update_row :: "sql_value \<Rightarrow> (outbox_row \<Rightarrow> outbox_row) \<Rightarrow> outbox_db \<Rightarrow> outbox_db" where
  "update_row i f db = map (\<lambda>r. if ob_id r = i \<and> i \<noteq> SqlNull then f r else r) db"

definition mark_failed :: "string \<Rightarrow> outbox_row \<Rightarrow> outbox_row" where
  "mark_failed err r = r\<lparr>ob_attempts := ob_attempts r + 1, ob_last_error := Some (truncate_bytes err 380)\<rparr>"

definition mark_published :: "go_time \<Rightarrow> string \<Rightarrow> outbox_row \<Rightarrow> outbox_row" where
  "mark_published now message r = (if ob_published r = None
     then r\<lparr>ob_published := Some (now, message), ob_attempts := ob_attempts r + 1\<rparr> else r)"

text \<open>The loop over the results; \<open>processed\<close> is counted whether or not the statement changed a row.\<close>

fun apply_results :: "claim_env \<Rightarrow> nat \<Rightarrow> nat \<Rightarrow> published list \<Rightarrow> outbox_db \<Rightarrow> int \<Rightarrow> go_error option \<times> outbox_db \<times> int" where
  "apply_results env n i [] db processed = (None, db, processed)"
| "apply_results env n i (p # ps) db processed = (case ce_update env n i of
       Some e \<Rightarrow> (Some e, db, processed)
     | None \<Rightarrow> (case pb_err p of
           Some err \<Rightarrow> apply_results env n (i + 1) ps (update_row (id_value (pb_event p)) (mark_failed err) db) processed
         | None \<Rightarrow> apply_results env n (i + 1) ps
             (update_row (id_value (pb_event p)) (mark_published (ce_now env n) (pb_message p)) db) (processed + 1)))"

type_synonym 'w publisher = "outbox_event list \<Rightarrow> 'w \<Rightarrow> (go_error + published list) \<times> 'w"

definition claim_body :: "ulid_codec \<Rightarrow> claim_env \<Rightarrow> nat \<Rightarrow> 'w publisher \<Rightarrow> (outbox_db, 'w \<times> int) tx_fn" where
  "claim_body uc env limit fn n st =
     (case st of (db, w, processed) \<Rightarrow>
        (case ce_select env n of
           Some e \<Rightarrow> (TxErr (wrap_err ''select outbox batch'' e), st)
         | None \<Rightarrow>
            (case scan_batch uc (select_batch limit (ce_locked env n) db) of
               Inl e \<Rightarrow> (TxErr e, st)
             | Inr [] \<Rightarrow> (TxOk, st)
             | Inr batch \<Rightarrow>
                 (case fn batch w of
                    (Inl e, w') \<Rightarrow> (TxErr e, db, w', processed)
                  | (Inr results, w') \<Rightarrow>
                      (case apply_results env n 0 results db processed of
                         (Some e, db', p') \<Rightarrow> (TxErr e, db', w', p')
                       | (None, db', p') \<Rightarrow> (TxOk, db', w', p'))))))"

definition claim_batch :: "ulid_codec \<Rightarrow> claim_env \<Rightarrow> (nat \<Rightarrow> outbox_db tx_env) \<Rightarrow> nat \<Rightarrow> 'w publisher \<Rightarrow> outbox_db \<times> 'w
    \<Rightarrow> int \<times> tx_result \<times> outbox_db \<times> 'w" where
  "claim_batch uc env txs limit fn st =
     (case st of (db, w) \<Rightarrow>
        (case in_tx ''outbox_claim_batch'' txs (claim_body uc env limit fn) (db, w, 0) of
           (r, db', (w', processed), _) \<Rightarrow> (processed, r, db', w')))"

text \<open>\<open>Lag\<close>: the number of unpublished events and the age of the oldest one.\<close>

definition outbox_lag :: "go_error option \<Rightarrow> go_time \<Rightarrow> outbox_db \<Rightarrow> go_error + nat \<times> duration" where
  "outbox_lag fault now db = (case fault of
       Some e \<Rightarrow> Inl e
     | None \<Rightarrow>
         (let waiting = filter (\<lambda>r. ob_published r = None) db
          in if waiting = [] then Inr (0, 0)
             else Inr (length waiting, time_sub now (Min (set (map ob_occurred waiting))))))"

section \<open>Lemmas\<close>

text \<open>What no claim changes: the contents of every row, and everything about a published row.\<close>

definition row_content :: "outbox_row \<Rightarrow> outbox_row" where
  "row_content r = r\<lparr>ob_published := None, ob_attempts := 0, ob_last_error := None\<rparr>"

definition row_kept :: "outbox_row \<Rightarrow> outbox_row \<Rightarrow> bool" where
  "row_kept r s \<longleftrightarrow> row_content s = row_content r \<and> (case ob_published r of None \<Rightarrow> True | Some p \<Rightarrow> ob_published s = Some p)"

definition rows_kept :: "outbox_db \<Rightarrow> outbox_db \<Rightarrow> bool" where
  "rows_kept db0 db \<longleftrightarrow> list_all2 row_kept db0 db"

lemma row_kept_refl [simp]: "row_kept r r"
  by (simp add: row_kept_def split: option.split)

lemma row_kept_trans: "row_kept r s \<Longrightarrow> row_kept s t \<Longrightarrow> row_kept r t"
  by (auto simp: row_kept_def split: option.splits)

lemma rows_kept_refl [simp]: "rows_kept db db"
  by (simp add: rows_kept_def list_all2_refl)

lemma row_kept_marks [simp]: "row_kept r (mark_failed err r)" "row_kept r (mark_published now m r)"
  by (auto simp: row_kept_def row_content_def mark_failed_def mark_published_def split: option.split)

lemma rows_kept_update:
  assumes "rows_kept db0 db" and "\<And>r. row_kept r (f r)"
  shows "rows_kept db0 (update_row i f db)"
  using assms(1) assms(2) unfolding rows_kept_def update_row_def
  by (induction rule: list_all2_induct) (auto intro: row_kept_trans)

lemma apply_results_keeps:
  "rows_kept db0 db \<Longrightarrow> apply_results env n i ps db c = (e, db', c') \<Longrightarrow> rows_kept db0 db'"
proof (induction env n i ps db c rule: apply_results.induct)
  case (2 env n i p ps db c)
  have u: "rows_kept db0 (update_row k (mark_failed err) db)" "rows_kept db0 (update_row k (mark_published t m) db)" for k err t m
    using rows_kept_update [OF "2.prems"(1)] by simp_all
  show ?case using 2 u by (auto split: option.splits)
qed simp

lemma claim_body_keeps:
  "rows_kept db0 db \<Longrightarrow> claim_body uc env limit fn n (db, l) = (TxOk, db', l') \<Longrightarrow> rows_kept db0 db'"
  by (cases l) (auto simp: claim_body_def split: option.splits sum.splits list.splits prod.splits dest: apply_results_keeps)

interpretation outbox_tx: tx_body "claim_body uc env limit fn" "rows_kept db0" "\<lambda>_. True" for uc env limit fn db0
  by unfold_locales (rule claim_body_keeps, simp_all)

lemma scan_batch_append:
  "scan_batch uc rs = Inr es \<Longrightarrow> length es = length rs"
  by (induction rs arbitrary: es) (auto split: sum.splits)

lemma apply_results_all_published:
  assumes "\<forall>i. ce_update env n i = None" and "\<forall>p \<in> set ps. pb_err p = None"
  shows "\<exists>db'. apply_results env n i ps db c = (None, db', c + int (length ps))"
  using assms(2)
proof (induction ps arbitrary: i db c)
  case (Cons p ps)
  obtain db' where "apply_results env n (i + 1) ps
      (update_row (id_value (pb_event p)) (mark_published (ce_now env n) (pb_message p)) db) (c + 1)
      = (None, db', c + 1 + int (length ps))"
    using Cons.IH [of "i + 1"] Cons.prems by (metis list.set_intros(2))
  with Cons.prems assms(1) show ?case by simp
qed simp

section \<open>Properties\<close>

text \<open>C21. A claim never loses, invents or rewrites an event: whatever the publisher answers and whatever the
  server fails, retries or applies without acknowledgement, the outbox holds the same events with the
  same contents, in the same places, and an event that was published stays published as it was.\<close>

theorem claim_keeps_events:
  assumes "\<forall>n d. rows_kept db d \<longrightarrow> rows_kept db (te_before (txs n) d)"
  shows "rows_kept db (fst (snd (snd (claim_batch uc env txs limit fn (db, w)))))"
proof -
  obtain r db' w' p ws where t: "in_tx ''outbox_claim_batch'' txs (claim_body uc env limit fn) (db, w, 0) = (r, db', (w', p), ws)"
    by (metis surj_pair)
  have "rows_kept db db'" using outbox_tx.in_tx_keeps [OF _ _ _ t, of db] assms by simp
  then show ?thesis by (simp add: claim_batch_def t)
qed

definition waiting_row :: outbox_row where
  "waiting_row = \<lparr>ob_id = id_value sample_id, ob_aggregate_type = ''box'', ob_aggregate_id = id_value sample_id,
     ob_event_type = ''PrizeWon'', ob_queue = ''q'', ob_group = None, ob_dedup = None, ob_payload = ''{}'', ob_occurred = 5,
     ob_published = None, ob_attempts = 0, ob_last_error = None\<rparr>"

definition plain_claim :: claim_env where
  "plain_claim = \<lparr>ce_locked = (\<lambda>_ _. False), ce_select = (\<lambda>_. None), ce_update = (\<lambda>_ _. None), ce_now = (\<lambda>_. 9)\<rparr>"

definition publish_all :: "nat publisher" where
  "publish_all batch w = (Inr (map (\<lambda>e. \<lparr>pb_event = oe_id e, pb_message = ''m'', pb_err = None\<rparr>) batch), w + length batch)"

theorem claim_keeps_events_witness:
  "rows_kept [waiting_row] (fst (snd (snd (claim_batch sample_codec plain_claim (\<lambda>_. calm_env) 10 publish_all ([waiting_row], 0)))))"
  by (rule claim_keeps_events) (simp add: calm_env_def)

text \<open>A retried claim counts and publishes twice: when the publisher accepts every event of the batch and the
  first commit is rolled back with a retryable error, the events are handed to the queue a second time,
  and the number \<open>ClaimBatch\<close> returns is twice the size of the batch, because the captured counter is
  not reset, although each event was recorded as published once.\<close>

theorem retried_claim_counts_twice:
  assumes "\<forall>n. ce_select env n = None" and "\<forall>n i. ce_update env n i = None" and "\<forall>n. ce_locked env n = locked"
    and "txs 1 = calm_env\<lparr>te_commit := CommitError e False\<rparr>" and "txs 2 = calm_env" and "is_retryable e"
    and batch: "scan_batch uc (select_batch limit locked db) = Inr batch" "batch \<noteq> []"
    and pub: "\<And>w. \<exists>rs. fst (fn batch w) = Inr rs \<and> length rs = length batch \<and> (\<forall>p \<in> set rs. pb_err p = None)"
  shows "\<exists>db'. claim_batch uc env txs limit fn (db, w) =
    (2 * int (length batch), TxOk, db', snd (fn batch (snd (fn batch w))))"
proof -
  have body: "\<exists>db'. claim_body uc env limit fn n (db, w, c) = (TxOk, db', snd (fn batch w), c + int (length batch))" for n w c
  proof -
    obtain rs where rs: "fst (fn batch w) = Inr rs" "length rs = length batch" "\<forall>p \<in> set rs. pb_err p = None"
      using pub by blast
    obtain d where "apply_results env n 0 rs db c = (None, d, c + int (length rs))"
      using apply_results_all_published [of env n rs 0 db c] assms(2) rs(3) by auto
    moreover obtain w' where "fn batch w = (Inr rs, w')" using rs(1) by (cases "fn batch w") auto
    ultimately show ?thesis using assms(1,3) batch rs(2)
      by (cases batch) (auto simp: claim_body_def)
  qed
  obtain d1 where 1: "claim_body uc env limit fn 1 (db, w, 0) = (TxOk, d1, snd (fn batch w), int (length batch))"
    using body [of 1 w 0] by auto
  obtain d2 where 2: "claim_body uc env limit fn 2 (db, snd (fn batch w), int (length batch))
      = (TxOk, d2, snd (fn batch (snd (fn batch w))), int (length batch) + int (length batch))"
    using body [of 2 "snd (fn batch w)" "int (length batch)"] by auto
  have "is_retryable (wrap_err m e)" for m using assms(6) by (simp only: err_simps)
  then have "in_tx ''outbox_claim_batch'' txs (claim_body uc env limit fn) (db, w, 0)
      = (TxOk, d2, (snd (fn batch (snd (fn batch w))), 2 * int (length batch)), [backoff 1])"
    using assms(4,5) 1 2 by (simp add: in_tx_def max_tx_attempts_def eval_nat_numeral run_tx_def calm_env_def)
  then show ?thesis by (simp add: claim_batch_def)
qed

theorem retried_claim_counts_twice_witness:
  "fst (claim_batch sample_codec plain_claim
     (\<lambda>n. if n = 1 then calm_env\<lparr>te_commit := CommitError err_invalid_conn False\<rparr> else calm_env) 10 publish_all ([waiting_row], 0)) = 2"
proof -
  let ?txs = "\<lambda>n :: nat. if n = 1 then calm_env\<lparr>te_commit := CommitError err_invalid_conn False\<rparr> else calm_env :: outbox_db tx_env"
  have i: "id_scan sample_codec (id_value sample_id) = Inr sample_id" by (rule id_col.column_round_trip) simp
  then obtain ev where b: "scan_batch sample_codec (select_batch 10 (\<lambda>_. False) [waiting_row]) = Inr [ev]"
    by (simp add: select_batch_def scan_outbox_def waiting_row_def)
  have r: "is_retryable err_invalid_conn" by (simp add: is_retryable_def err_invalid_conn_def)
  have "\<exists>db'. claim_batch sample_codec plain_claim ?txs 10 publish_all ([waiting_row], 0) =
      (2 * int (length [ev]), TxOk, db', snd (publish_all [ev] (snd (publish_all [ev] 0))))"
    by (rule retried_claim_counts_twice [OF _ _ _ _ _ r b]) (simp_all add: plain_claim_def publish_all_def)
  then show ?thesis by auto
qed

end
