(* ===== verification/Outbox_Relay.thy ===== *)
theory Outbox_Relay
  imports Outbox
begin

text \<open>
  The relay of \<open>src/outbox/outbox.go\<close> over many claims: what a sequence of \<open>ClaimBatch\<close> calls does to the events that
  wait, with a publisher whose answer depends on the event. The abstraction is the list of the identifiers of
  the unpublished rows; one claim refines \<open>relay_spec\<close> (\<open>claim_relay\<close>, \<open>claims_refine\<close>), and the properties are
  those of the abstract relay. Other relays hold no row locked, and the server serves every statement.
\<close>

section \<open>Runs of the relay\<close>

definition relay :: "(ID \<Rightarrow> string option) \<Rightarrow> (ID \<Rightarrow> string) \<Rightarrow> ID list publisher" where
  "relay verdict message batch handed =
     (Inr (map (\<lambda>e. \<lparr>pb_event = oe_id e, pb_message = message (oe_id e), pb_err = verdict (oe_id e)\<rparr>) batch),
      handed @ map oe_id batch)"

fun claims :: "ulid_codec \<Rightarrow> nat \<Rightarrow> 'w publisher \<Rightarrow> claim_env list \<Rightarrow> outbox_db \<times> 'w \<Rightarrow> outbox_db \<times> 'w" where
  "claims uc limit fn [] st = st"
| "claims uc limit fn (env # envs) st = claims uc limit fn envs (snd (snd (claim_batch uc env (\<lambda>_. calm_env) limit fn st)))"

definition calm_claim :: "claim_env \<Rightarrow> bool" where
  "calm_claim env \<longleftrightarrow> ce_locked env = (\<lambda>_ _. False) \<and> ce_select env = (\<lambda>_. None) \<and> ce_update env = (\<lambda>_ _. None)"

definition row_id :: "outbox_row \<Rightarrow> ID" where
  "row_id r = (case ob_id r of SqlBytes b \<Rightarrow> copy_id b | _ \<Rightarrow> nil_id)"

definition readable :: "ulid_codec \<Rightarrow> outbox_row \<Rightarrow> bool" where
  "readable uc r \<longleftrightarrow> ob_id r = id_value (row_id r) \<and> \<not> is_zero_id (row_id r) \<and>
     (case id_scan uc (ob_aggregate_id r) of Inl _ \<Rightarrow> False | Inr _ \<Rightarrow> True)"

text \<open>The abstraction: the identifiers of the unpublished events. A claim hands the \<open>limit\<close> smallest to the
  publisher, and the ones it accepts leave.\<close>

definition open_ids :: "outbox_db \<Rightarrow> ID list" where
  "open_ids db = map row_id (filter (\<lambda>r. ob_published r = None) db)"

definition batch_ids :: "nat \<Rightarrow> ID list \<Rightarrow> ID list" where
  "batch_ids limit ids = take limit (sort ids)"

definition relay_spec :: "nat \<Rightarrow> (ID \<Rightarrow> string option) \<Rightarrow> ID list \<Rightarrow> ID list" where
  "relay_spec limit verdict ids = filter (\<lambda>i. \<not> (i \<in> set (batch_ids limit ids) \<and> verdict i = None)) ids"

section \<open>Lemmas\<close>

lemma insort_key_map:
  assumes "\<And>y. y \<in> set xs \<Longrightarrow> (f x \<le> f y) = (g x \<le> g y)"
  shows "map g (insort_key f x xs) = insort (g x) (map g xs)"
  using assms by (induction xs) auto

lemma sort_key_map:
  assumes "\<And>x y. x \<in> set xs \<Longrightarrow> y \<in> set xs \<Longrightarrow> (f x \<le> f y) = (g x \<le> g y)"
  shows "map g (sort_key f xs) = sort (map g xs)"
  using assms
proof (induction xs)
  case (Cons x xs)
  have "map g (insort_key f x (sort_key f xs)) = insort (g x) (map g (sort_key f xs))"
    by (rule insort_key_map) (use Cons.prems in auto)
  with Cons show ?case by simp
qed simp

lemma readable_key: "readable uc r \<Longrightarrow> key_bytes (ob_id r) = id_bytes (row_id r)"
  by (auto simp: readable_def id_value_def key_bytes_def)

lemma select_batch_ids:
  assumes "list_all (readable uc) db"
  shows "map row_id (select_batch limit (\<lambda>_. False) db) = batch_ids limit (open_ids db)"
proof -
  let ?rows = "filter (\<lambda>r. ob_published r = None) db"
  have "map row_id (sort_key (\<lambda>r. key_bytes (ob_id r)) ?rows) = sort (map row_id ?rows)"
    by (rule sort_key_map) (use assms in \<open>auto simp: list_all_iff readable_key [of uc] less_eq_ID_def\<close>)
  then show ?thesis by (simp add: select_batch_def batch_ids_def open_ids_def take_map [symmetric])
qed

lemma scan_readable:
  assumes "readable uc r"
  shows "\<exists>e. scan_outbox uc r = Inr e \<and> oe_id e = row_id r"
proof -
  have "id_scan uc (ob_id r) = Inr (row_id r)"
    using assms id_col.column_round_trip [of uc "row_id r"] by (simp add: readable_def)
  with assms show ?thesis by (auto simp: scan_outbox_def readable_def split: sum.splits)
qed

lemma scan_batch_readable:
  "list_all (readable uc) rows \<Longrightarrow> \<exists>es. scan_batch uc rows = Inr es \<and> map oe_id es = map row_id rows"
proof (induction rows)
  case (Cons r rows)
  then obtain es where "scan_batch uc rows = Inr es" "map oe_id es = map row_id rows" by auto
  with Cons.prems scan_readable [of uc r] show ?case by auto
qed simp

lemma readable_update:
  assumes "\<And>r. row_content (f r) = row_content r" and "list_all (readable uc) db"
  shows "list_all (readable uc) (update_row i f db)" "map row_id (update_row i f db) = map row_id db"
proof -
  have keep: "ob_id (f r) = ob_id r" "ob_aggregate_id (f r) = ob_aggregate_id r" for r
    using arg_cong [OF assms(1) [of r], of ob_id] arg_cong [OF assms(1) [of r], of ob_aggregate_id]
    by (simp_all add: row_content_def)
  then have "row_id (f r) = row_id r" "readable uc (f r) = readable uc r" for r
    by (simp_all add: row_id_def readable_def)
  with assms(2) show "list_all (readable uc) (update_row i f db)" "map row_id (update_row i f db) = map row_id db"
    by (auto simp: update_row_def list_all_iff)
qed


lemma open_ids_failed: "open_ids (update_row i (mark_failed err) db) = open_ids db"
  by (induction db) (auto simp: open_ids_def update_row_def mark_failed_def row_id_def)

lemma open_ids_published:
  assumes "list_all (readable uc) db" and "\<not> is_zero_id i"
  shows "open_ids (update_row (id_value i) (mark_published now m) db) = filter (\<lambda>j. j \<noteq> i) (open_ids db)"
proof -
  have "(ob_id r = id_value i \<and> id_value i \<noteq> SqlNull) = (row_id r = i)" if "r \<in> set db" for r
    using that assms by (auto simp: list_all_iff readable_def id_value_def id_bytes_inject split: if_splits)
  then have "update_row (id_value i) (mark_published now m) db
      = map (\<lambda>r. if row_id r = i then mark_published now m r else r) db"
    unfolding update_row_def by (intro map_cong [OF refl]) simp
  moreover have "open_ids (map (\<lambda>r. if row_id r = i then mark_published now m r else r) db) = filter (\<lambda>j. j \<noteq> i) (open_ids db)"
    by (induction db) (auto simp: open_ids_def mark_published_def row_id_def)
  ultimately show ?thesis by simp
qed

text \<open>One claim on a server that serves it.\<close>

definition accepted :: "(ID \<Rightarrow> string option) \<Rightarrow> ID list \<Rightarrow> ID set" where
  "accepted verdict ids = {i \<in> set ids. verdict i = None}"

lemma apply_relay:
  assumes "ce_update env = (\<lambda>_ _. None)" and "list_all (readable uc) db" and "\<forall>e \<in> set es. \<not> is_zero_id (oe_id e)"
  shows "\<exists>db' c'. apply_results env n k (map (\<lambda>e. \<lparr>pb_event = oe_id e, pb_message = message (oe_id e), pb_err = verdict (oe_id e)\<rparr>) es) db c = (None, db', c') \<and>
    list_all (readable uc) db' \<and> map row_id db' = map row_id db \<and>
    open_ids db' = filter (\<lambda>i. i \<notin> accepted verdict (map oe_id es)) (open_ids db)"
  using assms(2,3)
proof (induction es arbitrary: k db c)
  case (Cons e es)
  let ?i = "oe_id e"
  let ?f = "case verdict ?i of Some err \<Rightarrow> mark_failed err | None \<Rightarrow> mark_published (ce_now env n) (message ?i)"
  let ?db1 = "update_row (id_value ?i) ?f db"
  have f: "row_content (?f r) = row_content r" for r
    by (auto simp: row_content_def mark_failed_def mark_published_def split: option.split)
  note r1 = readable_update [of ?f uc db "id_value ?i", OF f Cons.prems(1)]
  have o1: "open_ids ?db1 = filter (\<lambda>i. i \<notin> accepted verdict [?i]) (open_ids db)"
    using open_ids_published [OF Cons.prems(1)] Cons.prems(2)
    by (auto simp: accepted_def open_ids_failed split: option.split intro: filter_cong)
  have "\<forall>e \<in> set es. \<not> is_zero_id (oe_id e)" using Cons.prems(2) by simp
  from Cons.IH [OF r1(1) this] obtain c1 where c1: "\<And>k c. \<exists>db' c'. apply_results env n k (map (\<lambda>e. \<lparr>pb_event = oe_id e, pb_message = message (oe_id e), pb_err = verdict (oe_id e)\<rparr>) es) ?db1 c = (None, db', c') \<and>
    list_all (readable uc) db' \<and> map row_id db' = map row_id ?db1 \<and>
    open_ids db' = filter (\<lambda>i. i \<notin> accepted verdict (map oe_id es)) (open_ids ?db1)" by blast
  have split: "filter (\<lambda>i. i \<notin> accepted verdict (map oe_id es)) (open_ids ?db1)
      = filter (\<lambda>i. i \<notin> accepted verdict (map oe_id (e # es))) (open_ids db)"
    unfolding o1 filter_filter by (rule filter_cong) (auto simp: accepted_def)
  show ?case
    using c1 [of "k + 1" c] c1 [of "k + 1" "c + 1"] assms(1) r1(2) split by (cases "verdict ?i") auto
qed (simp add: accepted_def)

lemma claim_relay:
  assumes "calm_claim env" and "list_all (readable uc) db" and "distinct (map row_id db)"
  shows "\<exists>p db'. claim_batch uc env (\<lambda>_. calm_env) limit (relay verdict message) (db, w)
      = (p, TxOk, db', w @ batch_ids limit (open_ids db)) \<and>
    list_all (readable uc) db' \<and> map row_id db' = map row_id db \<and> open_ids db' = relay_spec limit verdict (open_ids db)"
proof -
  let ?rows = "select_batch limit (\<lambda>_. False) db"
  have ids: "map row_id ?rows = batch_ids limit (open_ids db)" by (rule select_batch_ids [OF assms(2)])
  have "set ?rows \<subseteq> set db" using set_take_subset by (fastforce simp: select_batch_def)
  then have rr: "list_all (readable uc) ?rows" using assms(2) by (auto simp: list_all_iff)
  then obtain es where es: "scan_batch uc ?rows = Inr es" "map oe_id es = map row_id ?rows" using scan_batch_readable by blast
  have nz: "\<forall>e \<in> set es. \<not> is_zero_id (oe_id e)"
  proof
    fix e assume "e \<in> set es"
    then have "oe_id e \<in> set (map row_id ?rows)" using es(2) by (metis image_eqI list.set_map)
    then show "\<not> is_zero_id (oe_id e)" using rr by (auto simp: list_all_iff readable_def)
  qed
  have spec: "filter (\<lambda>i. i \<notin> accepted verdict (map oe_id es)) (open_ids db) = relay_spec limit verdict (open_ids db)"
    unfolding relay_spec_def es(2) ids accepted_def by (rule filter_cong) auto
  show ?thesis
  proof (cases es)
    case Nil
    then have "batch_ids limit (open_ids db) = []" using es(2) ids by simp
    then show ?thesis using assms es Nil spec
      by (auto simp: claim_batch_def in_tx_calm claim_body_def calm_claim_def accepted_def)
  next
    case (Cons e0 es0)
    obtain db' c' where a: "apply_results env 1 0 (map (\<lambda>e. \<lparr>pb_event = oe_id e, pb_message = message (oe_id e), pb_err = verdict (oe_id e)\<rparr>) es) db 0 = (None, db', c')"
      "list_all (readable uc) db'" "map row_id db' = map row_id db" "open_ids db' = relay_spec limit verdict (open_ids db)"
      using apply_relay [OF _ assms(2) nz, of env 1 0 message verdict 0] assms(1) spec by (auto simp: calm_claim_def)
    have "claim_body uc env limit (relay verdict message) 1 (db, w, 0) = (TxOk, db', w @ batch_ids limit (open_ids db), c')"
      using assms(1) es Cons a(1) ids by (simp add: claim_body_def calm_claim_def relay_def)
    then show ?thesis using a by (simp add: claim_batch_def in_tx_calm)
  qed
qed

section \<open>Runs of the abstract relay\<close>

fun spec_claims :: "nat \<Rightarrow> (ID \<Rightarrow> string option) \<Rightarrow> nat \<Rightarrow> ID list \<times> ID list \<Rightarrow> ID list \<times> ID list" where
  "spec_claims limit verdict 0 st = st"
| "spec_claims limit verdict (Suc n) (ids, handed) =
     spec_claims limit verdict n (relay_spec limit verdict ids, handed @ batch_ids limit ids)"

lemma claims_refine:
  assumes "list_all calm_claim envs" and "list_all (readable uc) db" and "distinct (map row_id db)"
    and "claims uc limit (relay verdict message) envs (db, w) = (db', w')"
  shows "spec_claims limit verdict (length envs) (open_ids db, w) = (open_ids db', w')"
  using assms
proof (induction envs arbitrary: db w)
  case (Cons env envs)
  then obtain p db1 where "claim_batch uc env (\<lambda>_. calm_env) limit (relay verdict message) (db, w)
      = (p, TxOk, db1, w @ batch_ids limit (open_ids db))"
    and "list_all (readable uc) db1" "map row_id db1 = map row_id db" "open_ids db1 = relay_spec limit verdict (open_ids db)"
    using claim_relay [of env uc db limit verdict message w] by auto
  then show ?case using Cons.IH [of db1 "w @ batch_ids limit (open_ids db)"] Cons.prems by simp
qed simp

lemma filter_not_taken: "distinct xs \<Longrightarrow> filter (\<lambda>i. i \<notin> set (take n xs)) xs = drop n xs"
proof -
  assume d: "distinct xs"
  have "filter (\<lambda>i. i \<notin> set (take n xs)) xs = filter (\<lambda>i. i \<notin> set (take n xs)) (take n xs @ drop n xs)" by simp
  also have "\<dots> = filter (\<lambda>i. i \<notin> set (take n xs)) (drop n xs)" unfolding filter_append by simp
  also have "\<dots> = drop n xs"
    using d distinct_append [of "take n xs" "drop n xs"] by (auto simp: filter_id_conv)
  finally show ?thesis .
qed

lemma relay_spec_keeps:
  "distinct ids \<Longrightarrow> distinct (relay_spec limit verdict ids)"
  "filter (\<lambda>i. verdict i \<noteq> None) (relay_spec limit verdict ids) = filter (\<lambda>i. verdict i \<noteq> None) ids"
  by (auto simp: relay_spec_def intro: filter_cong)

lemma relay_step_order:
  assumes "distinct ids"
  shows "filter (\<lambda>i. verdict i = None) (batch_ids limit ids) @ sort (filter (\<lambda>i. verdict i = None) (relay_spec limit verdict ids))
    = sort (filter (\<lambda>i. verdict i = None) ids)"
proof -
  let ?S = "sort ids"
  have "filter (\<lambda>i. verdict i = None) (relay_spec limit verdict ids)
      = filter (\<lambda>i. verdict i = None) (filter (\<lambda>i. i \<notin> set (take limit ?S)) ids)"
    by (auto simp: relay_spec_def batch_ids_def intro: filter_cong)
  then have "sort (filter (\<lambda>i. verdict i = None) (relay_spec limit verdict ids))
      = filter (\<lambda>i. verdict i = None) (filter (\<lambda>i. i \<notin> set (take limit ?S)) ?S)"
    by (simp add: filter_sort)
  also have "\<dots> = filter (\<lambda>i. verdict i = None) (drop limit ?S)" using assms by (simp add: filter_not_taken)
  finally show ?thesis
    using filter_append [of "\<lambda>i. verdict i = None" "take limit ?S" "drop limit ?S"]
    by (simp add: batch_ids_def filter_sort)
qed

text \<open>A claim publishes all that is left, or at least \<open>limit\<close> less the events that cannot be published.\<close>

lemma relay_step_progress:
  assumes "distinct ids"
  shows "length (filter (\<lambda>i. verdict i = None) (relay_spec limit verdict ids))
    \<le> length (filter (\<lambda>i. verdict i = None) ids) - (limit - length (filter (\<lambda>i. verdict i \<noteq> None) ids))"
proof -
  let ?good = "\<lambda>i. verdict i = None" and ?B = "batch_ids limit ids"
  have len: "length (filter ?good ids) = length (filter ?good ?B) + length (filter ?good (relay_spec limit verdict ids))"
    using arg_cong [OF relay_step_order [OF assms, of verdict limit], of length] by simp
  have split: "length ?B = length (filter ?good ?B) + length (filter (\<lambda>i. verdict i \<noteq> None) ?B)"
    by (rule sum_length_filter_compl [symmetric])
  have "length (filter (\<lambda>i. verdict i \<noteq> None) (take limit (sort ids))) \<le> length (filter (\<lambda>i. verdict i \<noteq> None) (sort ids))"
    using filter_append [of "\<lambda>i. verdict i \<noteq> None" "take limit (sort ids)" "drop limit (sort ids)"]
    by (metis append_take_drop_id le_add1 length_append)
  then have bad: "length (filter (\<lambda>i. verdict i \<noteq> None) ?B) \<le> length (filter (\<lambda>i. verdict i \<noteq> None) ids)"
    by (simp add: batch_ids_def filter_sort)
  show ?thesis
  proof (cases "limit \<le> length ids")
    case True
    then have "length ?B = limit" by (simp add: batch_ids_def)
    with len split bad show ?thesis by linarith
  next
    case False
    then have "?B = sort ids" by (simp add: batch_ids_def)
    then have "length (filter ?good ?B) = length (filter ?good ids)" by (simp add: filter_sort)
    with len show ?thesis by linarith
  qed
qed

lemma spec_claims_run:
  assumes "distinct ids" and "spec_claims limit verdict n (ids, handed) = (ids', handed')"
  shows "filter (\<lambda>i. verdict i \<noteq> None) ids' = filter (\<lambda>i. verdict i \<noteq> None) ids \<and>
    length (filter (\<lambda>i. verdict i = None) ids')
      \<le> length (filter (\<lambda>i. verdict i = None) ids) - n * (limit - length (filter (\<lambda>i. verdict i \<noteq> None) ids)) \<and>
    filter (\<lambda>i. verdict i = None) handed' @ sort (filter (\<lambda>i. verdict i = None) ids')
      = filter (\<lambda>i. verdict i = None) handed @ sort (filter (\<lambda>i. verdict i = None) ids)"
  using assms
proof (induction n arbitrary: ids handed)
  case (Suc n)
  let ?ids = "relay_spec limit verdict ids"
  have "spec_claims limit verdict n (?ids, handed @ batch_ids limit ids) = (ids', handed')" using Suc.prems(2) by simp
  from Suc.IH [OF relay_spec_keeps(1) [OF Suc.prems(1)] this]
  show ?case
    using relay_step_order [OF Suc.prems(1), of verdict limit] relay_step_progress [OF Suc.prems(1), of verdict limit]
      relay_spec_keeps(2) [of verdict limit ids] by (simp add: diff_le_mono2) linarith
qed simp

section \<open>Properties\<close>

text \<open>C9. The outbox drains: on a server that serves the claims, with a publisher that refuses fewer than \<open>limit\<close> of the
  waiting events, every claim publishes at least \<open>limit\<close> less that number, so after the given number of claims
  exactly the refused events are left unpublished; and every other event was handed to the publisher exactly
  once, in the order of the identifiers.\<close>

theorem outbox_drains:
  assumes "list_all (readable uc) db" and "distinct (map row_id db)" and "list_all calm_claim envs"
    and "length (filter (\<lambda>i. verdict i \<noteq> None) (open_ids db)) < limit"
    and "length (filter (\<lambda>i. verdict i = None) (open_ids db))
      \<le> length envs * (limit - length (filter (\<lambda>i. verdict i \<noteq> None) (open_ids db)))"
    and "claims uc limit (relay verdict message) envs (db, []) = (db', handed)"
  shows "open_ids db' = filter (\<lambda>i. verdict i \<noteq> None) (open_ids db) \<and>
    filter (\<lambda>i. verdict i = None) handed = sort (filter (\<lambda>i. verdict i = None) (open_ids db))"
proof -
  have "distinct (open_ids db)" using assms(2) by (simp add: open_ids_def distinct_map_filter)
  from spec_claims_run [OF this claims_refine [OF assms(3,1,2,6)]] assms(5)
  have run: "filter (\<lambda>i. verdict i \<noteq> None) (open_ids db') = filter (\<lambda>i. verdict i \<noteq> None) (open_ids db)"
    "filter (\<lambda>i. verdict i = None) (open_ids db') = []"
    "filter (\<lambda>i. verdict i = None) handed @ sort (filter (\<lambda>i. verdict i = None) (open_ids db'))
      = sort (filter (\<lambda>i. verdict i = None) (open_ids db))" by auto
  have "filter (\<lambda>i. verdict i \<noteq> None) (open_ids db') = open_ids db'" using run(2) by (auto simp: filter_empty_conv filter_id_conv)
  with run show ?thesis by simp
qed

definition other_id :: ID where "other_id = copy_id ''0123456789abcdeg''"

definition two_waiting :: outbox_db where
  "two_waiting = [waiting_row\<lparr>ob_id := id_value other_id\<rparr>, waiting_row]"

lemma other_id_not_nil [simp]: "\<not> is_zero_id other_id" "sample_id \<noteq> other_id" "other_id \<noteq> sample_id"
  by (simp_all add: is_zero_id_def id_eq_iff other_id_def sample_id_def eval_nat_numeral)

lemma two_waiting_ids:
  "list_all (readable sample_codec) two_waiting" "map row_id two_waiting = [other_id, sample_id]" "open_ids two_waiting = [other_id, sample_id]"
  using id_col.column_round_trip [of sample_codec sample_id]
  by (simp_all add: two_waiting_def readable_def open_ids_def waiting_row_def row_id_def id_value_def)

text \<open>The publisher refuses one of the two events.\<close>

definition refuse_other :: "ID \<Rightarrow> string option" where
  "refuse_other i = (if i = other_id then Some ''too large'' else None)"

theorem outbox_drains_witness:
  "\<exists>db' handed. claims sample_codec 2 (relay refuse_other (\<lambda>_. ''m'')) [plain_claim] (two_waiting, []) = (db', handed) \<and>
     open_ids db' = [other_id] \<and> filter (\<lambda>i. refuse_other i = None) handed = [sample_id]"
proof -
  obtain db' handed where c: "claims sample_codec 2 (relay refuse_other (\<lambda>_. ''m'')) [plain_claim] (two_waiting, []) = (db', handed)"
    by (metis surj_pair)
  have "open_ids db' = filter (\<lambda>i. refuse_other i \<noteq> None) (open_ids two_waiting) \<and>
      filter (\<lambda>i. refuse_other i = None) handed = sort (filter (\<lambda>i. refuse_other i = None) (open_ids two_waiting))"
    by (rule outbox_drains [OF two_waiting_ids(1) _ _ _ _ c])
      (simp_all add: two_waiting_ids refuse_other_def calm_claim_def plain_claim_def)
  with c show ?thesis by (simp add: two_waiting_ids refuse_other_def)
qed

text \<open>C35. A few poisoned events stop the relay: when one relay runs, its statements are served, every row can be read and
  the publisher refuses the \<open>limit\<close> smallest waiting events, every claim hands over exactly those again and publishes nothing; \<open>attempts\<close> grows, but no query looks at it, so no
  event behind them is ever handed to the publisher.\<close>

theorem poison_starves:
  assumes "list_all (readable uc) db" and "distinct (map row_id db)" and "list_all calm_claim envs"
    and "list_all (\<lambda>i. verdict i \<noteq> None) (batch_ids limit (open_ids db))"
    and "claims uc limit (relay verdict message) envs (db, []) = (db', handed)"
  shows "open_ids db' = open_ids db \<and> handed = concat (replicate (length envs) (batch_ids limit (open_ids db)))"
proof -
  have stuck: "relay_spec limit verdict (open_ids db) = open_ids db"
    using assms(4) by (auto simp: relay_spec_def list_all_iff filter_id_conv)
  have "spec_claims limit verdict n (open_ids db, w) = (open_ids db, w @ concat (replicate n (batch_ids limit (open_ids db))))" for n w
    by (induction n arbitrary: w) (simp_all add: stuck)
  from trans [OF claims_refine [OF assms(3,1,2,5), symmetric] this] show ?thesis by simp
qed

theorem poison_starves_witness:
  "\<exists>db' handed. claims sample_codec 1 (relay (\<lambda>i. if i = sample_id then Some ''too large'' else None) (\<lambda>_. ''m''))
       [plain_claim, plain_claim, plain_claim] (two_waiting, []) = (db', handed) \<and>
     open_ids db' = [other_id, sample_id] \<and> handed = [sample_id, sample_id, sample_id]"
proof -
  let ?v = "\<lambda>i. if i = sample_id then Some ''too large'' else None"
  obtain db' handed where c: "claims sample_codec 1 (relay ?v (\<lambda>_. ''m'')) [plain_claim, plain_claim, plain_claim] (two_waiting, []) = (db', handed)"
    by (metis surj_pair)
  have b: "batch_ids 1 (open_ids two_waiting) = [sample_id]"
  proof -
    have "sample_id \<le> other_id"
      by (simp add: less_eq_ID_def other_id_def sample_id_def eval_nat_numeral)
    then show ?thesis by (simp add: two_waiting_ids batch_ids_def)
  qed
  have "open_ids db' = open_ids two_waiting \<and>
      handed = concat (replicate (length [plain_claim, plain_claim, plain_claim]) (batch_ids 1 (open_ids two_waiting)))"
    by (rule poison_starves [OF two_waiting_ids(1) _ _ _ c])
      (simp_all add: b [simplified] two_waiting_ids(2) calm_claim_def plain_claim_def)
  then have "open_ids db' = [other_id, sample_id]" "handed = [sample_id, sample_id, sample_id]"
    unfolding b by (simp_all add: two_waiting_ids)
  with c show ?thesis by blast
qed

end
