(* ===== verification/Circuit_Breaker.thy ===== *)
theory Circuit_Breaker
  imports Go_Prelude
begin

text \<open>
  The circuit breaker of \<open>src/providers/circuit.go\<close>. The mutex makes every method atomic, so
  concurrent callers are a sequence of calls; the clock reading each method takes is an argument.
  The Prometheus gauge that \<open>publish\<close> sets is the field \<open>gauge\<close>.

  The lemmas: every method keeps \<open>breaker_inv\<close>; a run of \<open>Allow\<close> calls admits exactly one probe;
  the pruned failure list counts the same failures as the whole history (a simulation between the
  code and \<open>spec_step\<close>, a breaker that never forgets a failure).
\<close>

section \<open>The model\<close>

datatype circuit_state = CircuitClosed | CircuitOpen | CircuitHalfOpen

record breaker =
  br_name :: string
  threshold :: int
  window :: duration
  cooldown :: duration
  br_state :: circuit_state
  failures :: "go_time list"
  opened_at :: go_time
  half_open_use :: bool
  gauge :: "nat option"

fun state_value :: "circuit_state \<Rightarrow> nat" where
  "state_value CircuitClosed = 0"
| "state_value CircuitHalfOpen = 1"
| "state_value CircuitOpen = 2"

definition publish :: "breaker \<Rightarrow> breaker" where
  "publish b = b\<lparr>gauge := Some (state_value (br_state b))\<rparr>"

definition new_circuit_breaker :: "string \<Rightarrow> int \<Rightarrow> duration \<Rightarrow> duration \<Rightarrow> breaker" where
  "new_circuit_breaker name thr win cool =
     publish \<lparr>br_name = name,
       threshold = (if thr \<le> 0 then 10 else thr),
       window = (if win \<le> 0 then 30 * second else win),
       cooldown = (if cool \<le> 0 then 20 * second else cool),
       br_state = CircuitClosed, failures = [], opened_at = 0, half_open_use = False, gauge = None\<rparr>"

text \<open>The last two cases of the \<open>switch\<close> in \<open>Allow\<close>: an open circuit whose cooldown is over falls
  through to the half open case.\<close>

definition admit_probe :: "breaker \<Rightarrow> bool \<times> breaker" where
  "admit_probe b = (if half_open_use b then (False, b) else (True, b\<lparr>half_open_use := True\<rparr>))"

definition allow :: "go_time \<Rightarrow> breaker \<Rightarrow> bool \<times> breaker" where
  "allow now b = (case br_state b of
       CircuitClosed \<Rightarrow> (True, b)
     | CircuitOpen \<Rightarrow>
         (if cooldown b \<le> time_sub now (opened_at b)
          then admit_probe (publish (b\<lparr>br_state := CircuitHalfOpen, half_open_use := False\<rparr>))
          else (False, b))
     | CircuitHalfOpen \<Rightarrow> admit_probe b)"

definition record_success :: "breaker \<Rightarrow> breaker" where
  "record_success b =
     (let b = b\<lparr>failures := []\<rparr>
      in if br_state b \<noteq> CircuitClosed then publish (b\<lparr>br_state := CircuitClosed\<rparr>) else b)"

definition record_failure :: "go_time \<Rightarrow> breaker \<Rightarrow> breaker" where
  "record_failure now b =
     (let cutoff = now - window b;
          kept = filter (\<lambda>t. cutoff < t) (failures b);
          b = b\<lparr>failures := kept @ [now]\<rparr>
      in if br_state b = CircuitHalfOpen \<or> threshold b \<le> int (length (failures b))
         then publish (b\<lparr>br_state := CircuitOpen, opened_at := now, half_open_use := False\<rparr>)
         else b)"

definition current_state :: "breaker \<Rightarrow> circuit_state" where
  "current_state b = br_state b"

text \<open>Calls from any number of goroutines, in the order in which they take the mutex.\<close>

datatype breaker_event = EAllow go_time | ESuccess | EFailure go_time

fun breaker_step :: "breaker_event \<Rightarrow> breaker \<Rightarrow> bool option \<times> breaker" where
  "breaker_step (EAllow t) b = (let (r, b') = allow t b in (Some r, b'))"
| "breaker_step ESuccess b = (None, record_success b)"
| "breaker_step (EFailure t) b = (None, record_failure t b)"

fun breaker_run :: "breaker_event list \<Rightarrow> breaker \<Rightarrow> bool option list \<times> breaker" where
  "breaker_run [] b = ([], b)"
| "breaker_run (e # es) b =
     (let (r, b1) = breaker_step e b; (rs, b2) = breaker_run es b1 in (r # rs, b2))"

definition run_state :: "breaker_event list \<Rightarrow> breaker \<Rightarrow> breaker" where
  "run_state es b = snd (breaker_run es b)"

definition run_answers :: "breaker_event list \<Rightarrow> breaker \<Rightarrow> bool option list" where
  "run_answers es b = fst (breaker_run es b)"

lemma run_state_simps [simp]:
  "run_state [] b = b"
  "run_state (e # es) b = run_state es (snd (breaker_step e b))"
  by (simp_all add: run_state_def split: prod.splits)

lemma run_answers_simps [simp]:
  "run_answers [] b = []"
  "run_answers (e # es) b = fst (breaker_step e b) # run_answers es (snd (breaker_step e b))"
  by (simp_all add: run_answers_def split: prod.splits)

section \<open>Invariant\<close>

text \<open>
  The settings are positive, the gauge shows the state, a closed circuit is below its threshold,
  an open one has recorded a failure and forgotten its probe, and a half open one has let its probe
  out: no other call can be waiting for that slot.
\<close>

definition breaker_inv :: "breaker \<Rightarrow> bool" where
  "breaker_inv b \<longleftrightarrow>
     0 < threshold b \<and> 0 < window b \<and> 0 < cooldown b \<and>
     gauge b = Some (state_value (br_state b)) \<and>
     (br_state b = CircuitClosed \<longrightarrow> int (length (failures b)) < threshold b) \<and>
     (br_state b = CircuitOpen \<longrightarrow> \<not> half_open_use b \<and> failures b \<noteq> []) \<and>
     (br_state b = CircuitHalfOpen \<longrightarrow> half_open_use b)"

lemmas breaker_defs =
  allow_def admit_probe_def record_success_def record_failure_def publish_def Let_def

lemma new_breaker_inv: "breaker_inv (new_circuit_breaker name thr win cool)"
  by (simp add: breaker_inv_def new_circuit_breaker_def publish_def second_def)

lemma allow_inv: "breaker_inv b \<Longrightarrow> breaker_inv (snd (allow t b))"
  by (auto simp: breaker_inv_def breaker_defs split: circuit_state.splits)

lemma record_success_inv: "breaker_inv b \<Longrightarrow> breaker_inv (record_success b)"
  by (auto simp: breaker_inv_def breaker_defs)

lemma record_failure_inv: "breaker_inv b \<Longrightarrow> breaker_inv (record_failure t b)"
  by (cases "br_state b") (auto simp: breaker_inv_def breaker_defs)

lemma breaker_step_inv: "breaker_inv b \<Longrightarrow> breaker_inv (snd (breaker_step e b))"
  by (cases e) (simp_all add: allow_inv record_success_inv record_failure_inv split_beta)

lemma breaker_run_inv: "breaker_inv b \<Longrightarrow> breaker_inv (run_state es b)"
  by (induction es arbitrary: b) (simp_all add: breaker_step_inv)

text \<open>The settings never change.\<close>

lemma breaker_step_frame [simp]:
  "threshold (snd (breaker_step e b)) = threshold b"
  "window (snd (breaker_step e b)) = window b"
  "cooldown (snd (breaker_step e b)) = cooldown b"
  by (cases e; simp add: breaker_defs split: circuit_state.splits)+

lemma run_state_frame [simp]:
  "threshold (run_state es b) = threshold b"
  "window (run_state es b) = window b"
  "cooldown (run_state es b) = cooldown b"
  by (induction es arbitrary: b) simp_all

section \<open>Half open: one probe\<close>

text \<open>Once the probe is out, no later call is admitted and nothing changes.\<close>

lemma allow_probe_out:
  "br_state b = CircuitHalfOpen \<Longrightarrow> half_open_use b \<Longrightarrow> allow t b = (False, b)"
  by (simp add: breaker_defs)

lemma run_allow_probe_out:
  "br_state b = CircuitHalfOpen \<Longrightarrow> half_open_use b \<Longrightarrow>
     breaker_run (map EAllow ts) b = (map (\<lambda>_. Some False) ts, b)"
  by (induction ts) (simp_all add: allow_probe_out)

lemma allow_open_early:
  "br_state b = CircuitOpen \<Longrightarrow> time_sub t (opened_at b) < cooldown b \<Longrightarrow> allow t b = (False, b)"
  by (simp add: breaker_defs)

lemma allow_open_due:
  assumes "br_state b = CircuitOpen" and "cooldown b \<le> time_sub t (opened_at b)"
  shows "allow t b =
    (True, b\<lparr>br_state := CircuitHalfOpen, half_open_use := True, gauge := Some 1\<rparr>)"
  using assms by (simp add: breaker_defs)

definition admitted :: "bool option list \<Rightarrow> nat" where
  "admitted rs = length (filter (\<lambda>r. r = Some True) rs)"

definition cooldown_over :: "breaker \<Rightarrow> go_time \<Rightarrow> bool" where
  "cooldown_over b t \<longleftrightarrow> cooldown b \<le> time_sub t (opened_at b)"

lemma admitted_all_false [simp]: "admitted (map (\<lambda>_. Some False) ts) = 0"
  by (induction ts) (simp_all add: admitted_def)

lemma run_allow_open:
  assumes "br_state b = CircuitOpen"
  shows "admitted (run_answers (map EAllow ts) b) = (if \<exists>t \<in> set ts. cooldown_over b t then 1 else 0)
    \<and> br_state (run_state (map EAllow ts) b) =
        (if \<exists>t \<in> set ts. cooldown_over b t then CircuitHalfOpen else CircuitOpen)"
  using assms
proof (induction ts)
  case Nil
  then show ?case by (simp add: admitted_def)
next
  case (Cons t ts)
  show ?case
  proof (cases "cooldown_over b t")
    case True
    define b' where "b' = b\<lparr>br_state := CircuitHalfOpen, half_open_use := True, gauge := Some 1\<rparr>"
    have step: "allow t b = (True, b')"
      using Cons.prems True by (simp add: allow_open_due cooldown_over_def b'_def)
    have rest: "breaker_run (map EAllow ts) b' = (map (\<lambda>_. Some False) ts, b')"
      by (rule run_allow_probe_out) (simp_all add: b'_def)
    show ?thesis
      using True step rest by (simp add: run_answers_def run_state_def admitted_def b'_def)
  next
    case False
    then have "allow t b = (False, b)"
      using Cons.prems by (simp add: allow_open_early cooldown_over_def)
    then show ?thesis using Cons False by (simp add: admitted_def)
  qed
qed

section \<open>The sliding window: a breaker that keeps the whole history\<close>

text \<open>
  The specification keeps every failure since the last success and looks, at each failure, at those
  inside the window.
\<close>

record spec_breaker =
  sp_state :: circuit_state
  sp_history :: "go_time list"
  sp_opened :: go_time
  sp_probe_out :: bool

definition in_window :: "duration \<Rightarrow> go_time \<Rightarrow> go_time list \<Rightarrow> go_time list" where
  "in_window win now ts = filter (\<lambda>t. now - win < t) ts"

fun spec_step :: "int \<Rightarrow> duration \<Rightarrow> duration \<Rightarrow> breaker_event \<Rightarrow> spec_breaker
    \<Rightarrow> bool option \<times> spec_breaker" where
  "spec_step thr win cool (EAllow t) s = (case sp_state s of
       CircuitClosed \<Rightarrow> (Some True, s)
     | CircuitOpen \<Rightarrow> if cool \<le> time_sub t (sp_opened s)
         then (Some True, s\<lparr>sp_state := CircuitHalfOpen, sp_probe_out := True\<rparr>) else (Some False, s)
     | CircuitHalfOpen \<Rightarrow>
         (Some (\<not> sp_probe_out s), s\<lparr>sp_probe_out := True\<rparr>))"
| "spec_step thr win cool ESuccess s = (None, s\<lparr>sp_history := [], sp_state := CircuitClosed\<rparr>)"
| "spec_step thr win cool (EFailure t) s =
     (let h = sp_history s @ [t]
      in (None, if sp_state s = CircuitHalfOpen \<or> thr \<le> int (length (in_window win t h))
                then s\<lparr>sp_history := h, sp_state := CircuitOpen, sp_opened := t, sp_probe_out := False\<rparr>
                else s\<lparr>sp_history := h\<rparr>))"

fun spec_answers :: "int \<Rightarrow> duration \<Rightarrow> duration \<Rightarrow> breaker_event list \<Rightarrow> spec_breaker
    \<Rightarrow> bool option list" where
  "spec_answers thr win cool [] s = []"
| "spec_answers thr win cool (e # es) s =
     (let (r, s') = spec_step thr win cool e s in r # spec_answers thr win cool es s')"

definition spec_init :: spec_breaker where
  "spec_init = \<lparr>sp_state = CircuitClosed, sp_history = [], sp_opened = 0, sp_probe_out = False\<rparr>"

fun failure_times :: "breaker_event list \<Rightarrow> go_time list" where
  "failure_times [] = []"
| "failure_times (EFailure t # es) = t # failure_times es"
| "failure_times (_ # es) = failure_times es"

text \<open>The abstraction: the code's list is the part of the history inside the window of some clock
  reading not later than any failure still to come.\<close>

definition window_sim :: "go_time list \<Rightarrow> breaker \<Rightarrow> spec_breaker \<Rightarrow> bool" where
  "window_sim future b s \<longleftrightarrow>
     br_state b = sp_state s \<and> opened_at b = sp_opened s \<and>
     (br_state b \<noteq> CircuitClosed \<longrightarrow> half_open_use b = sp_probe_out s) \<and>
     (\<exists>now. (\<forall>t \<in> set future. now \<le> t) \<and> failures b = in_window (window b) now (sp_history s))"

lemma in_window_later:
  "now \<le> t \<Longrightarrow> in_window win t (in_window win now ts) = in_window win t ts"
  by (auto simp: in_window_def intro!: filter_cong)

lemma in_window_snoc: "0 < win \<Longrightarrow> in_window win t (ts @ [t]) = in_window win t ts @ [t]"
  by (simp add: in_window_def)

lemma window_sim_failure:
  assumes sim: "window_sim (t # future) b s" and win: "0 < window b"
    and mono: "\<forall>u \<in> set future. t \<le> u"
  shows "window_sim future (record_failure t b)
    (snd (spec_step (threshold b) (window b) (cooldown b) (EFailure t) s))"
proof -
  from sim obtain now where now: "now \<le> t"
    and fl: "failures b = in_window (window b) now (sp_history s)"
    by (auto simp: window_sim_def)
  have "filter (\<lambda>u. t - window b < u) (failures b) = in_window (window b) t (sp_history s)"
    using in_window_later [OF now] fl by (simp add: in_window_def)
  then have kept: "filter (\<lambda>u. t - window b < u) (failures b) @ [t]
      = in_window (window b) t (sp_history s @ [t])"
    using win by (simp add: in_window_snoc)
  have same: "br_state b = sp_state s" "opened_at b = sp_opened s"
    "br_state b \<noteq> CircuitClosed \<longrightarrow> half_open_use b = sp_probe_out s"
    using sim by (auto simp: window_sim_def)
  have len: "1 + int (length (filter (\<lambda>u. t - window b < u) (failures b)))
      = int (length (in_window (window b) t (sp_history s @ [t])))"
    using arg_cong [OF kept, of length] by simp
  have ex: "\<exists>now. (\<forall>u \<in> set future. now \<le> u) \<and>
      in_window (window b) t (sp_history s @ [t]) = in_window (window b) now (sp_history s @ [t])"
    using mono by blast
  from same show ?thesis
    by (simp add: window_sim_def record_failure_def publish_def Let_def kept len ex)
qed

lemma window_sim_step:
  assumes sim: "window_sim (failure_times (e # es)) b s" and win: "0 < window b"
    and mono: "sorted (failure_times (e # es))"
  defines "stp \<equiv> spec_step (threshold b) (window b) (cooldown b) e s"
  shows "fst (breaker_step e b) = fst stp \<and>
    window_sim (failure_times es) (snd (breaker_step e b)) (snd stp)"
proof (cases e)
  case (EAllow t)
  with sim show ?thesis
    by (cases "br_state b") (auto simp: stp_def window_sim_def breaker_defs)
next
  case ESuccess
  with sim show ?thesis
    by (auto simp: stp_def window_sim_def breaker_defs in_window_def)
next
  case (EFailure t)
  with sim mono have "window_sim (t # failure_times es) b s" "\<forall>u \<in> set (failure_times es). t \<le> u"
    by auto
  from window_sim_failure [OF this(1) win this(2)] show ?thesis
    by (simp add: stp_def EFailure Let_def)
qed

lemma window_sim_run:
  "window_sim (failure_times es) b s \<Longrightarrow> 0 < window b \<Longrightarrow> sorted (failure_times es) \<Longrightarrow>
     run_answers es b = spec_answers (threshold b) (window b) (cooldown b) es s"
proof (induction es arbitrary: b s)
  case Nil
  then show ?case by simp
next
  case (Cons e es)
  let ?b' = "snd (breaker_step e b)"
  note step = window_sim_step [OF Cons.prems]
  have "sorted (failure_times es)" using Cons.prems(3) by (cases e) auto
  with step Cons.IH [of ?b'] Cons.prems(2) show ?case by (auto split: prod.splits)
qed

section \<open>Properties\<close>

text \<open>Whatever the settings and whatever calls are made, at whatever clock readings and in
  whatever order, the breaker keeps its invariant: the settings stay positive, the exported gauge
  always shows the state, a closed circuit has fewer failures on record than its threshold, an open
  one has at least one, and in the half open state the single probe has already been let out.\<close>

theorem breaker_invariant:
  "breaker_inv (run_state es (new_circuit_breaker name thr win cool))"
  by (rule breaker_run_inv [OF new_breaker_inv])

text \<open>C17. Half open admits exactly one probe: when a whole pool of callers asks an open breaker, in any
  order and at any times, exactly one of them is admitted if for any of them the cooldown is over,
  and none otherwise.\<close>

theorem exactly_one_probe:
  assumes "br_state b = CircuitOpen"
  shows "admitted (run_answers (map EAllow ts) b) =
    (if \<exists>t \<in> set ts. cooldown_over b t then 1 else 0)"
  using run_allow_open [OF assms] by blast

definition tripped :: breaker where
  "tripped = record_failure (100 * second) (new_circuit_breaker ''moriwin'' 1 minute (20 * second))"

theorem exactly_one_probe_witness:
  "br_state tripped = CircuitOpen \<and>
   admitted (run_answers (map EAllow [110 * second, 125 * second, 126 * second, 120 * second]) tripped) = 1"
proof -
  have o: "br_state tripped = CircuitOpen"
    by (simp add: tripped_def new_circuit_breaker_def breaker_defs)
  have "cooldown_over tripped (125 * second)"
    by (simp add: cooldown_over_def tripped_def new_circuit_breaker_def breaker_defs time_sub_def
        duration_units int64_min_def int64_max_def)
  then show ?thesis
    using o exactly_one_probe [OF o, of "[110 * second, 125 * second, 126 * second, 120 * second]"]
    by simp
qed

text \<open>C7. The sliding window is exact: for any settings and any calls whose failures carry non decreasing
  clock readings, the breaker answers every \<open>Allow\<close> as the specification does that never forgets a
  failure and opens on the first failure with \<open>threshold\<close> failures since the last success inside the
  window. Pruning old failures, and pruning only when a failure arrives, changes no answer.\<close>

theorem sliding_window_refines_history:
  assumes "sorted (failure_times es)"
  shows "run_answers es (new_circuit_breaker name thr win cool) =
    spec_answers (if thr \<le> 0 then 10 else thr) (if win \<le> 0 then 30 * second else win)
      (if cool \<le> 0 then 20 * second else cool) es spec_init"
proof -
  let ?b = "new_circuit_breaker name thr win cool"
  have "\<exists>now. \<forall>t \<in> set (failure_times es). now \<le> t"
    using finite_set [of "failure_times es"] by (meson Min_le)
  then have "window_sim (failure_times es) ?b spec_init"
    by (auto simp: window_sim_def new_circuit_breaker_def publish_def spec_init_def in_window_def)
  moreover have "0 < window ?b"
    by (simp add: new_circuit_breaker_def publish_def second_def)
  ultimately have "run_answers es ?b = spec_answers (threshold ?b) (window ?b) (cooldown ?b) es spec_init"
    using assms by (rule window_sim_run)
  then show ?thesis by (simp add: new_circuit_breaker_def publish_def)
qed

theorem sliding_window_refines_history_witness:
  "run_answers [EFailure 1, EFailure 2, EAllow 3, EFailure 50, EAllow 51, EAllow 90]
      (new_circuit_breaker ''moriwin'' 3 49 40) = [None, None, Some True, None, Some True, Some True]"
proof -
  let ?es = "[EFailure 1, EFailure 2, EAllow 3, EFailure 50, EAllow 51, EAllow 90]"
  have s: "sorted (failure_times ?es)" by simp
  show ?thesis
    using sliding_window_refines_history [OF s, of "''moriwin''" 3 49 40]
    by (simp add: spec_init_def in_window_def)
qed

end
