(* ===== verification/Provider_Client.thy ===== *)
theory Provider_Client
  imports Circuit_Breaker Go_Url
begin

text \<open>
  The outbound client of \<open>src/providers/client.go\<close>: one call through the breaker and the rate limiter
  (\<open>Client.Do\<close>), the OAuth2 token cache (\<open>TokenSource\<close>) and \<open>parseRetryAfter\<close>.

  What is outside the repository is an argument: the HTTP transport, the rate limiter of
  \<open>golang.org/x/time\<close> (whether \<open>Wait\<close> fails), \<open>json.Marshal\<close> of the request body, the decoder of the
  token document, \<open>http.NewRequest\<close> (whether it fails), and the clock, read once for each
  \<open>time.Now\<close> of the code. TLS and dialer settings of \<open>New\<close> are not modelled.

  The lemmas: what each outcome of a call does to the breaker, that a refused call sends nothing,
  that a probe which fails before it is sent leaves the breaker refusing every later call, when a
  cached token is used, and the range in which \<open>parseRetryAfter\<close> is exact.
\<close>

section \<open>Requests and replies\<close>

record http_request =
  hq_method :: string
  hq_target :: string
  hq_query :: string
  hq_body :: "string option"
  hq_headers :: "string \<rightharpoonup> string"

record http_reply =
  hr_status :: int
  hr_body :: string
  hr_read_err :: "go_error option"
  hr_headers :: "string \<rightharpoonup> string"

definition header_get :: "(string \<rightharpoonup> string) \<Rightarrow> string \<Rightarrow> string" where
  "header_get h k = (case h k of Some v \<Rightarrow> v | None \<Rightarrow> [])"

text \<open>\<open>io.ReadAll (io.LimitReader (body, n))\<close>.\<close>

definition read_limited :: "nat \<Rightarrow> http_reply \<Rightarrow> go_error + string" where
  "read_limited n hr = (case hr_read_err hr of Some e \<Rightarrow> Inl e | None \<Rightarrow> Inr (take n (hr_body hr)))"

section \<open>The token source\<close>

record token_source =
  ts_url :: string
  ts_client_id :: string
  ts_secret :: string
  ts_audience :: string
  ts_token :: string
  ts_expires_at :: go_time

record token_env =
  te_now :: go_time
  te_request_err :: "go_error option"
  te_post :: "http_request \<Rightarrow> go_error + http_reply"
  te_decode :: "string \<Rightarrow> go_error + string \<times> int"
  te_now_after :: go_time

definition new_token_source :: "string \<Rightarrow> string \<Rightarrow> string \<Rightarrow> string \<Rightarrow> token_source" where
  "new_token_source url cid secret aud =
     \<lparr>ts_url = url, ts_client_id = cid, ts_secret = secret, ts_audience = aud,
      ts_token = [], ts_expires_at = 0\<rparr>"

definition token_form :: "token_source \<Rightarrow> url_values" where
  "token_form t =
     (let f = values_set ''client_secret'' (ts_secret t)
               (values_set ''client_id'' (ts_client_id t)
                 (values_set ''grant_type'' ''client_credentials'' []))
      in if ts_audience t \<noteq> [] then values_set ''audience'' (ts_audience t) f else f)"

definition token_request :: "token_source \<Rightarrow> http_request" where
  "token_request t =
     \<lparr>hq_method = ''POST'', hq_target = ts_url t, hq_query = [], hq_body = Some (values_encode (token_form t)),
      hq_headers = [''Content-Type'' \<mapsto> ''application/x-www-form-urlencoded'']\<rparr>"

definition token_cached :: "go_time \<Rightarrow> token_source \<Rightarrow> bool" where
  "token_cached now t \<longleftrightarrow> ts_token t \<noteq> [] \<and> now < ts_expires_at t - minute"

definition store_token :: "go_time \<Rightarrow> string \<Rightarrow> int \<Rightarrow> token_source \<Rightarrow> token_source" where
  "store_token now tok expires t =
     (let e = (if expires \<le> 0 then 300 else expires)
      in t\<lparr>ts_token := tok, ts_expires_at := now + wrap64 (e * second)\<rparr>)"

text \<open>\<open>TokenSource.Token\<close>: the answer, the new state, and the requests sent.\<close>

definition get_token :: "token_env \<Rightarrow> token_source \<Rightarrow> (go_error + string) \<times> token_source \<times> http_request list" where
  "get_token env t =
     (if token_cached (te_now env) t then (Inr (ts_token t), t, [])
      else case te_request_err env of
        Some e \<Rightarrow> (Inl e, t, [])
      | None \<Rightarrow>
         (let rq = token_request t in
          case te_post env rq of
            Inl e \<Rightarrow> (Inl e, t, [rq])
          | Inr hr \<Rightarrow>
             (case read_limited (2 ^ 16) hr of
                Inl e \<Rightarrow> (Inl e, t, [rq])
              | Inr body \<Rightarrow>
                 if hr_status hr \<noteq> 200
                 then (Inl (new_err (''token endpoint returned '' @ show_int (hr_status hr))), t, [rq])
                 else case te_decode env body of
                   Inl e \<Rightarrow> (Inl e, t, [rq])
                 | Inr (tok, expires) \<Rightarrow>
                    if tok = [] then (Inl (new_err ''token endpoint returned no access token''), t, [rq])
                    else (Inr tok, store_token (te_now_after env) tok expires t, [rq]))))"

section \<open>The client\<close>

record client =
  cl_name :: string
  cl_base_path :: string
  cl_tokens :: "token_source option"
  cl_breaker :: breaker
  cl_user_agent :: string
  cl_counted :: "(string \<times> string) list"

record request =
  rq_operation :: string
  rq_method :: string
  rq_path :: string
  rq_body :: "any_val option"
  rq_idempotency_key :: string
  rq_request_id :: string
  rq_query :: url_values

record response =
  rs_status :: int
  rs_body :: string
  rs_headers :: "string \<rightharpoonup> string"
  rs_retry_after :: duration

text \<open>What the world answers during one call.\<close>

record call_env =
  ce_allow :: go_time
  ce_limiter :: "go_error option"
  ce_marshal :: "any_val \<Rightarrow> go_error + string"
  ce_request_err :: "go_error option"
  ce_timestamp :: string
  ce_token :: token_env
  ce_http :: "http_request \<Rightarrow> go_error + http_reply"
  ce_failure :: go_time
  ce_until :: go_time
  ce_parse_time :: "string \<Rightarrow> go_time option"

definition err_circuit_open :: go_error where
  "err_circuit_open = Sentinel ''provider circuit is open''"

definition err_timeout :: go_error where
  "err_timeout = Sentinel ''provider call timed out''"

definition parse_retry_after :: "call_env \<Rightarrow> string \<Rightarrow> duration" where
  "parse_retry_after env value =
     (if value = [] then 0
      else case parse_int value of
        Some n \<Rightarrow> if 0 \<le> n then wrap64 (n * second)
          else (case ce_parse_time env value of
                  Some t \<Rightarrow> if 0 < time_sub t (ce_until env) then time_sub t (ce_until env) else 0
                | None \<Rightarrow> 0)
      | None \<Rightarrow>
         (case ce_parse_time env value of
            Some t \<Rightarrow> if 0 < time_sub t (ce_until env) then time_sub t (ce_until env) else 0
          | None \<Rightarrow> 0))"

definition count :: "request \<Rightarrow> string \<Rightarrow> client \<Rightarrow> client" where
  "count req outcome c = c\<lparr>cl_counted := cl_counted c @ [(rq_operation req, outcome)]\<rparr>"

definition fail_call :: "call_env \<Rightarrow> client \<Rightarrow> client" where
  "fail_call env c = c\<lparr>cl_breaker := record_failure (ce_failure env) (cl_breaker c)\<rparr>"

definition encode_body :: "call_env \<Rightarrow> request \<Rightarrow> go_error + string option" where
  "encode_body env req = (case rq_body req of
       None \<Rightarrow> Inr None
     | Some v \<Rightarrow> (case ce_marshal env v of Inl e \<Rightarrow> Inl e | Inr s \<Rightarrow> Inr (Some s)))"

definition build_request :: "call_env \<Rightarrow> client \<Rightarrow> request \<Rightarrow> string option \<Rightarrow> http_request" where
  "build_request env c req body =
     (let h = [''Accept'' \<mapsto> ''application/json''];
          h = (if rq_body req \<noteq> None then h(''Content-Type'' \<mapsto> ''application/json'') else h);
          h = (if rq_idempotency_key req \<noteq> [] then h(''Idempotency-Key'' \<mapsto> rq_idempotency_key req) else h);
          h = (if rq_request_id req \<noteq> [] then h(''X-Request-Id'' \<mapsto> rq_request_id req) else h);
          h = h(''X-Timestamp'' \<mapsto> ce_timestamp env, ''User-Agent'' \<mapsto> cl_user_agent c)
      in \<lparr>hq_method = rq_method req, hq_target = trim_suffix (cl_base_path c) ''/'' @ rq_path req,
          hq_query = (if rq_query req \<noteq> [] then values_encode (rq_query req) else []),
          hq_body = body, hq_headers = h\<rparr>)"

text \<open>The bearer token, when a token endpoint is configured; a token error counts as a failure.\<close>

definition attach_token :: "call_env \<Rightarrow> client \<Rightarrow> http_request
    \<Rightarrow> (go_error + http_request) \<times> client \<times> http_request list" where
  "attach_token env c hq = (case cl_tokens c of
       None \<Rightarrow> (Inr hq, c, [])
     | Some ts \<Rightarrow>
        (case get_token (ce_token env) ts of
           (Inl e, ts', sent) \<Rightarrow>
             (Inl (wrap_err (cl_name c @ '' token'') e), fail_call env (c\<lparr>cl_tokens := Some ts'\<rparr>), sent)
         | (Inr tok, ts', sent) \<Rightarrow>
             (Inr (hq\<lparr>hq_headers := (hq_headers hq)(''Authorization'' \<mapsto> ''Bearer '' @ tok)\<rparr>),
              c\<lparr>cl_tokens := Some ts'\<rparr>, sent)))"

definition is_provider_failure :: "int \<Rightarrow> bool" where
  "is_provider_failure status \<longleftrightarrow> 500 \<le> status \<or> status = 429"

text \<open>The exchange itself, from \<open>http.Do\<close> to the end of \<open>Do\<close>.\<close>

definition exchange :: "call_env \<Rightarrow> client \<Rightarrow> request \<Rightarrow> http_request \<Rightarrow> (go_error + response) \<times> client" where
  "exchange env c req hq = (case ce_http env hq of
       Inl e \<Rightarrow>
         (Inl (if err_is e ''context deadline exceeded''
               then wrap_err (rq_method req @ '' '' @ rq_path req) err_timeout else e),
          count req ''transport_error'' (fail_call env c))
     | Inr hr \<Rightarrow>
        (case read_limited (2 ^ 20) hr of
           Inl e \<Rightarrow> (Inl e, fail_call env c)
         | Inr payload \<Rightarrow>
            (let c1 = (if is_provider_failure (hr_status hr) then fail_call env c
                       else c\<lparr>cl_breaker := record_success (cl_breaker c)\<rparr>)
             in (Inr \<lparr>rs_status = hr_status hr, rs_body = payload, rs_headers = hr_headers hr,
                      rs_retry_after = parse_retry_after env (header_get (hr_headers hr) ''Retry-After'')\<rparr>,
                 count req (show_int (hr_status hr div 100) @ ''xx'') c1))))"

definition provider_do :: "call_env \<Rightarrow> client \<Rightarrow> request
    \<Rightarrow> (go_error + response) \<times> client \<times> http_request list" where
  "provider_do env c req =
     (let (ok, b) = allow (ce_allow env) (cl_breaker c); c = c\<lparr>cl_breaker := b\<rparr> in
      if \<not> ok then (Inl err_circuit_open, count req ''circuit_open'' c, [])
      else case ce_limiter env of Some e \<Rightarrow> (Inl e, c, []) | None \<Rightarrow>
      (case encode_body env req of Inl e \<Rightarrow> (Inl e, c, []) | Inr body \<Rightarrow>
       (case ce_request_err env of Some e \<Rightarrow> (Inl e, c, []) | None \<Rightarrow>
        (case attach_token env c (build_request env c req body) of
           (Inl e, c', sent) \<Rightarrow> (Inl e, c', sent)
         | (Inr hq, c', sent) \<Rightarrow> (let (r, c'') = exchange env c' req hq in (r, c'', sent @ [hq]))))))"

definition healthy :: "client \<Rightarrow> bool" where
  "healthy c \<longleftrightarrow> br_state (cl_breaker c) \<noteq> CircuitOpen"

fun run_do :: "(call_env \<times> request) list \<Rightarrow> client \<Rightarrow> (go_error + response) list \<times> client \<times> http_request list" where
  "run_do [] c = ([], c, [])"
| "run_do ((env, req) # calls) c =
     (let (r, c1, sent) = provider_do env c req; (rs, c2, more) = run_do calls c1
      in (r # rs, c2, sent @ more))"

section \<open>One call and the breaker\<close>

text \<open>A local failure: the call ends before anything is sent to the provider's API.\<close>

definition local_failure :: "call_env \<Rightarrow> request \<Rightarrow> bool" where
  "local_failure env req \<longleftrightarrow>
     ce_limiter env \<noteq> None \<or> isl (encode_body env req) \<or> ce_request_err env \<noteq> None"

lemma count_breaker [simp]: "cl_breaker (count req outcome c) = cl_breaker c"
  by (simp add: count_def)

lemma fail_call_breaker [simp]:
  "cl_breaker (fail_call env c) = record_failure (ce_failure env) (cl_breaker c)"
  by (simp add: fail_call_def)

lemma provider_do_refused:
  "fst (allow (ce_allow env) (cl_breaker c)) = False \<Longrightarrow>
     provider_do env c req = (Inl err_circuit_open,
       count req ''circuit_open'' (c\<lparr>cl_breaker := snd (allow (ce_allow env) (cl_breaker c))\<rparr>), [])"
  by (simp add: provider_do_def split_beta)

lemma provider_do_local_failure:
  assumes "fst (allow (ce_allow env) (cl_breaker c))" and "local_failure env req"
  shows "\<exists>e. provider_do env c req =
    (Inl e, c\<lparr>cl_breaker := snd (allow (ce_allow env) (cl_breaker c))\<rparr>, [])"
proof -
  obtain b where b: "allow (ce_allow env) (cl_breaker c) = (True, b)"
    using assms(1) by (cases "allow (ce_allow env) (cl_breaker c)") auto
  from assms(2) show ?thesis
    by (cases "ce_limiter env"; cases "encode_body env req"; cases "ce_request_err env")
      (auto simp: provider_do_def local_failure_def b)
qed

lemma attach_token_breaker:
  "attach_token env c hq = (Inr hq', c', sent) \<Longrightarrow> cl_breaker c' = cl_breaker c"
  "attach_token env c hq = (Inl e, c', sent) \<Longrightarrow>
     cl_breaker c' = record_failure (ce_failure env) (cl_breaker c)"
  by (auto simp: attach_token_def split: option.splits prod.splits sum.splits)

lemma exchange_breaker:
  "exchange env c req hq = (r, c') \<Longrightarrow>
     cl_breaker c' = (case r of
        Inr rs \<Rightarrow> if is_provider_failure (rs_status rs) then record_failure (ce_failure env) (cl_breaker c)
                  else record_success (cl_breaker c)
      | Inl e \<Rightarrow> record_failure (ce_failure env) (cl_breaker c))"
  by (auto simp: exchange_def Let_def split: sum.splits if_splits)

lemma provider_do_sent_breaker:
  assumes "fst (allow (ce_allow env) (cl_breaker c))" and "\<not> local_failure env req"
    and "provider_do env c req = (r, c', sent)"
  shows "cl_breaker c' = (let b = snd (allow (ce_allow env) (cl_breaker c)) in
      case r of
        Inr rs \<Rightarrow> if is_provider_failure (rs_status rs) then record_failure (ce_failure env) b
                  else record_success b
      | Inl e \<Rightarrow> record_failure (ce_failure env) b)"
proof -
  obtain b where b: "allow (ce_allow env) (cl_breaker c) = (True, b)"
    using assms(1) by (cases "allow (ce_allow env) (cl_breaker c)") auto
  from assms(2) obtain body where n: "ce_limiter env = None" "ce_request_err env = None"
    "encode_body env req = Inr body"
    by (cases "encode_body env req") (auto simp: local_failure_def)
  let ?c = "c\<lparr>cl_breaker := b\<rparr>"
  obtain a c1 s1 where a: "attach_token env ?c (build_request env ?c req body) = (a, c1, s1)"
    by (cases "attach_token env ?c (build_request env ?c req body)") auto
  show ?thesis
  proof (cases a)
    case (Inl e)
    with assms(3) b n a have "r = Inl e" "c' = c1" by (auto simp: provider_do_def)
    with attach_token_breaker(2) a Inl b show ?thesis by (auto simp: Let_def)
  next
    case (Inr hq)
    obtain r' c2 where x: "exchange env c1 req hq = (r', c2)"
      by (cases "exchange env c1 req hq") auto
    with assms(3) b n a Inr have "r = r'" "c' = c2" by (auto simp: provider_do_def)
    with exchange_breaker [OF x] attach_token_breaker(1) a Inr b show ?thesis
      by (auto simp: Let_def split: sum.splits)
  qed
qed

lemma provider_do_inv:
  assumes "breaker_inv (cl_breaker c)"
  shows "breaker_inv (cl_breaker (fst (snd (provider_do env c req))))"
proof -
  let ?b = "snd (allow (ce_allow env) (cl_breaker c))"
  have b: "breaker_inv ?b" using assms by (rule allow_inv)
  obtain r c' sent where d: "provider_do env c req = (r, c', sent)"
    by (cases "provider_do env c req") auto
  consider "\<not> fst (allow (ce_allow env) (cl_breaker c))"
    | "fst (allow (ce_allow env) (cl_breaker c))" "local_failure env req"
    | "fst (allow (ce_allow env) (cl_breaker c))" "\<not> local_failure env req" by blast
  then show ?thesis
  proof cases
    case 1
    then show ?thesis using b by (simp add: provider_do_refused)
  next
    case 2
    then show ?thesis using b provider_do_local_failure by fastforce
  next
    case 3
    show ?thesis
      using provider_do_sent_breaker [OF 3 d] b d
      by (auto simp: Let_def record_failure_inv record_success_inv split: sum.splits)
  qed
qed

lemma provider_do_probe_out:
  assumes "br_state (cl_breaker c) = CircuitHalfOpen" and "half_open_use (cl_breaker c)"
  shows "provider_do env c req = (Inl err_circuit_open, count req ''circuit_open'' c, [])"
  using assms by (simp add: provider_do_def allow_probe_out)

lemma run_do_probe_out:
  assumes "br_state (cl_breaker c) = CircuitHalfOpen" and "half_open_use (cl_breaker c)"
  shows "fst (run_do calls c) = map (\<lambda>_. Inl err_circuit_open) calls \<and>
    cl_breaker (fst (snd (run_do calls c))) = cl_breaker c \<and> snd (snd (run_do calls c)) = []"
  using assms
proof (induction calls arbitrary: c)
  case Nil
  then show ?case by simp
next
  case (Cons call calls)
  obtain env req where call: "call = (env, req)" by (cases call)
  let ?c = "count req ''circuit_open'' c"
  have "fst (run_do calls ?c) = map (\<lambda>_. Inl err_circuit_open) calls \<and>
    cl_breaker (fst (snd (run_do calls ?c))) = cl_breaker ?c \<and> snd (snd (run_do calls ?c)) = []"
    using Cons.prems by (intro Cons.IH) simp_all
  then show ?case
    using Cons.prems by (simp add: call provider_do_probe_out split_beta)
qed

section \<open>Properties\<close>

text \<open>The breaker accounts for every call that gets past the local checks: an admitted call counts as
  a success exactly when the provider answered with a complete reply below 500 other than 429, and as
  a failure in every other case, including a token that could not be fetched.\<close>

theorem call_accounting:
  assumes "fst (allow (ce_allow env) (cl_breaker c))" and "\<not> local_failure env req"
    and "provider_do env c req = (r, c', sent)"
  shows "cl_breaker c' = (let b = snd (allow (ce_allow env) (cl_breaker c)) in
      case r of
        Inr rs \<Rightarrow> if is_provider_failure (rs_status rs) then record_failure (ce_failure env) b
                  else record_success b
      | Inl e \<Rightarrow> record_failure (ce_failure env) b)"
  using assms by (rule provider_do_sent_breaker)

definition sample_env :: call_env where
  "sample_env = \<lparr>ce_allow = 1000, ce_limiter = None, ce_marshal = (\<lambda>v. Inr ''{}''), ce_request_err = None,
     ce_timestamp = ''2026-03-01T12:00:00Z'',
     ce_token = \<lparr>te_now = 0, te_request_err = None, te_post = (\<lambda>_. Inl (new_err ''down'')),
                 te_decode = (\<lambda>_. Inr (''tok'', 3600)), te_now_after = 0\<rparr>,
     ce_http = (\<lambda>_. Inr \<lparr>hr_status = 200, hr_body = ''ok'', hr_read_err = None, hr_headers = Map.empty\<rparr>),
     ce_failure = 2000, ce_until = 2000, ce_parse_time = (\<lambda>_. None)\<rparr>"

definition sample_client :: client where
  "sample_client = \<lparr>cl_name = ''moriwin'', cl_base_path = ''/api/'', cl_tokens = None,
     cl_breaker = new_circuit_breaker ''moriwin'' 1 minute 500, cl_user_agent = ''moribox/1.0'',
     cl_counted = []\<rparr>"

definition sample_request :: request where
  "sample_request = \<lparr>rq_operation = ''grant'', rq_method = ''POST'', rq_path = ''/v1/grants'', rq_body = None,
     rq_idempotency_key = [], rq_request_id = [], rq_query = []\<rparr>"

lemmas sample_defs = sample_env_def sample_client_def sample_request_def

theorem call_accounting_witness:
  "cl_breaker (fst (snd (provider_do sample_env sample_client sample_request))) =
     record_success (cl_breaker sample_client)"
proof -
  obtain r c' sent where d: "provider_do sample_env sample_client sample_request = (r, c', sent)"
    by (cases "provider_do sample_env sample_client sample_request") auto
  have ok: "allow (ce_allow sample_env) (cl_breaker sample_client) = (True, cl_breaker sample_client)"
    by (simp add: sample_defs new_circuit_breaker_def breaker_defs)
  have l: "\<not> local_failure sample_env sample_request"
    by (simp add: local_failure_def sample_defs encode_body_def)
  have r: "r = Inr \<lparr>rs_status = 200, rs_body = ''ok'', rs_headers = Map.empty, rs_retry_after = 0\<rparr>"
    using d ok by (simp add: provider_do_def sample_defs encode_body_def attach_token_def exchange_def
        read_limited_def Let_def parse_retry_after_def header_get_def split_beta)
  from ok have a: "fst (allow (ce_allow sample_env) (cl_breaker sample_client))" by simp
  show ?thesis
    using call_accounting [OF a l d] ok d by (simp add: r Let_def is_provider_failure_def)
qed

text \<open>A refused call does nothing: while the breaker says no, \<open>Do\<close> returns \<open>ErrCircuitOpen\<close>, sends no
  request (not even for a token), leaves the token cache alone and records neither success nor
  failure.\<close>

theorem refused_call_sends_nothing:
  assumes "\<not> fst (allow (ce_allow env) (cl_breaker c))"
  shows "\<exists>c'. provider_do env c req = (Inl err_circuit_open, c', [])
    \<and> cl_tokens c' = cl_tokens c \<and> cl_breaker c' = snd (allow (ce_allow env) (cl_breaker c))"
  using assms by (simp add: provider_do_refused count_def)

definition open_client :: client where
  "open_client = sample_client\<lparr>cl_breaker := record_failure 900 (cl_breaker sample_client)\<rparr>"

theorem refused_call_sends_nothing_witness:
  "\<exists>c'. provider_do sample_env open_client sample_request = (Inl err_circuit_open, c', [])"
proof -
  have "\<not> fst (allow (ce_allow sample_env) (cl_breaker open_client))"
    by (simp add: open_client_def sample_defs new_circuit_breaker_def breaker_defs time_sub_def
        int64_min_def int64_max_def minute_def second_def)
  then show ?thesis
    using refused_call_sends_nothing [of sample_env open_client sample_request] by blast
qed

text \<open>C18. A probe that fails before it is sent wedges the client: when the single probe of an open circuit
  is admitted and the rate limiter, the encoder or the request constructor then fails, \<open>Do\<close> returns
  without recording an outcome; the circuit stays half open with its probe taken, every later call on
  this client is refused, at whatever time it comes, no request is ever sent again, and \<open>Healthy\<close>
  keeps answering true.\<close>

theorem lost_probe_wedges_client:
  assumes "br_state (cl_breaker c) = CircuitOpen" and "cooldown_over (cl_breaker c) (ce_allow env)"
    and "local_failure env req"
  shows "\<exists>e c'. provider_do env c req = (Inl e, c', []) \<and>
    (\<forall>calls. fst (run_do calls c') = map (\<lambda>_. Inl err_circuit_open) calls \<and>
       snd (snd (run_do calls c')) = [] \<and> healthy (fst (snd (run_do calls c'))))"
proof -
  let ?b = "(cl_breaker c)\<lparr>br_state := CircuitHalfOpen, half_open_use := True, gauge := Some 1\<rparr>"
  have a: "allow (ce_allow env) (cl_breaker c) = (True, ?b)"
    using assms(1,2) by (intro allow_open_due) (simp_all add: cooldown_over_def)
  then obtain e where e: "provider_do env c req = (Inl e, c\<lparr>cl_breaker := ?b\<rparr>, [])"
    using provider_do_local_failure [of env c req] assms(3) by auto
  have "fst (run_do calls (c\<lparr>cl_breaker := ?b\<rparr>)) = map (\<lambda>_. Inl err_circuit_open) calls \<and>
    cl_breaker (fst (snd (run_do calls (c\<lparr>cl_breaker := ?b\<rparr>)))) = ?b \<and>
    snd (snd (run_do calls (c\<lparr>cl_breaker := ?b\<rparr>))) = []" for calls
    using run_do_probe_out [of "c\<lparr>cl_breaker := ?b\<rparr>" calls] by simp
  with e show ?thesis by (fastforce simp: healthy_def)
qed

theorem lost_probe_wedges_client_witness:
  "\<exists>e c'. provider_do (sample_env\<lparr>ce_allow := 5000, ce_limiter := Some (Sentinel ''context canceled'')\<rparr>)
       open_client sample_request = (Inl e, c', []) \<and>
     (\<forall>calls. fst (run_do calls c') = map (\<lambda>_. Inl err_circuit_open) calls)"
proof -
  let ?env = "sample_env\<lparr>ce_allow := 5000, ce_limiter := Some (Sentinel ''context canceled'')\<rparr>"
  have "br_state (cl_breaker open_client) = CircuitOpen"
    by (simp add: open_client_def sample_defs new_circuit_breaker_def breaker_defs)
  moreover have "cooldown_over (cl_breaker open_client) (ce_allow ?env)"
    by (simp add: cooldown_over_def open_client_def sample_defs new_circuit_breaker_def breaker_defs
        time_sub_def int64_min_def int64_max_def minute_def second_def)
  moreover have "local_failure ?env sample_request" by (simp add: local_failure_def)
  ultimately show ?thesis
    using lost_probe_wedges_client [of open_client ?env sample_request] by blast
qed

text \<open>A token is used while it has more than a minute to live, and only then without a request: every
  answer of \<open>Token\<close> is a non empty token, either the cached one, whose expiry is more than a minute
  after the clock reading, or the one the endpoint just returned with status 200; an error leaves the
  cache as it was.\<close>

theorem token_fresh:
  assumes "get_token env t = (r, t', sent)"
  shows "case r of
      Inl e \<Rightarrow> t' = t
    | Inr tok \<Rightarrow> tok \<noteq> [] \<and> ts_token t' = tok \<and>
        (sent = [] \<longrightarrow> t' = t \<and> te_now env + minute < ts_expires_at t) \<and>
        (sent \<noteq> [] \<longrightarrow> sent = [token_request t] \<and>
           (\<exists>hr n. te_post env (token_request t) = Inr hr \<and> hr_status hr = 200 \<and>
              te_decode env (take (2 ^ 16) (hr_body hr)) = Inr (tok, n)))"
  using assms
  by (auto simp: get_token_def token_cached_def store_token_def read_limited_def Let_def
      split: if_splits option.splits sum.splits)

theorem token_fresh_witness:
  "(case get_token (ce_token sample_env) (new_token_source ''https://idp/token'' ''cid'' ''sec'' []) of
      (r, t', sent) \<Rightarrow> case r of Inl e \<Rightarrow> t' = new_token_source ''https://idp/token'' ''cid'' ''sec'' [] | Inr tok \<Rightarrow> tok \<noteq> [])"
proof -
  let ?t = "new_token_source ''https://idp/token'' ''cid'' ''sec'' []"
  obtain r t' sent where g: "get_token (ce_token sample_env) ?t = (r, t', sent)"
    by (cases "get_token (ce_token sample_env) ?t") auto
  show ?thesis using token_fresh [OF g] g by (auto split: sum.splits)
qed

text \<open>\<open>parseRetryAfter\<close> never waits a negative time for a header of at most 9223372036 seconds, and is
  exact there.\<close>

theorem retry_after_exact:
  assumes "parse_int value = Some n" and "0 \<le> n" and "n \<le> 9223372036"
  shows "parse_retry_after env value = n * second"
proof -
  have "value \<noteq> []" using assms(1) by (auto simp: parse_int_def)
  moreover have "is_int64 (n * second)"
    using assms(2,3) by (simp add: is_int64_def int64_min_def int64_max_def second_def)
  ultimately show ?thesis using assms by (simp add: parse_retry_after_def)
qed

theorem retry_after_exact_witness:
  "parse_retry_after sample_env ''120'' = 120 * second"
proof -
  have p: "parse_int ''120'' = Some 120"
    by (simp add: parse_int_def parse_digits_def is_int64_def int64_min_def int64_max_def byte_val_def)
  show ?thesis by (rule retry_after_exact [OF p]) simp_all
qed

text \<open>One second more and the product of the header and \<open>time.Second\<close> leaves the range of a duration:
  the wait the caller sees is negative.\<close>

theorem retry_after_overflow:
  "parse_retry_after env ''9223372037'' < 0"
proof -
  have "parse_int ''9223372037'' = Some 9223372037"
    by (simp add: parse_int_def parse_digits_def is_int64_def int64_min_def int64_max_def byte_val_def)
  then show ?thesis by (simp add: parse_retry_after_def wrap64_mod second_def)
qed

end
