(* ===== verification/Provider_Recovery.thy ===== *)
theory Provider_Recovery
  imports Provider_Client
begin

text \<open>
  How a client of \<open>src/providers/client.go\<close> behaves through an outage of its provider, as runs of \<open>Client.Do\<close>:
  while the provider fails, an open circuit lets at most one call through for each cooldown, and the first
  answer after the outage closes it. The clock readings are those of the calls, in order.
\<close>

section \<open>An outage\<close>

text \<open>Every way in which the code counts an exchange as a failure.\<close>

definition failing_reply :: "go_error + http_reply \<Rightarrow> bool" where
  "failing_reply r = (case r of Inl _ \<Rightarrow> True
     | Inr hr \<Rightarrow> hr_read_err hr \<noteq> None \<or> is_provider_failure (hr_status hr))"

definition outage_call :: "call_env \<times> request \<Rightarrow> bool" where
  "outage_call call = (case call of (env, req) \<Rightarrow> \<not> local_failure env req \<and>
     (\<forall>hq. failing_reply (ce_http env hq)))"

text \<open>Clock readings of calls that follow each other: not before \<open>t\<close>, and the failure after the admission.\<close>

fun ordered_from :: "go_time \<Rightarrow> (call_env \<times> request) list \<Rightarrow> bool" where
  "ordered_from t [] = True"
| "ordered_from t ((env, req) # calls) =
     (t \<le> ce_allow env \<and> ce_allow env \<le> ce_failure env \<and> ordered_from (ce_failure env) calls)"

definition last_reading :: "go_time \<Rightarrow> (call_env \<times> request) list \<Rightarrow> go_time" where
  "last_reading t calls = (if calls = [] then t else ce_failure (fst (last calls)))"

fun calls_sent :: "(call_env \<times> request) list \<Rightarrow> client \<Rightarrow> nat" where
  "calls_sent [] c = 0"
| "calls_sent ((env, req) # calls) c =
     (case provider_do env c req of (r, c', sent) \<Rightarrow> (if sent = [] then 0 else 1) + calls_sent calls c')"

section \<open>Lemmas\<close>

lemma exchange_failing:
  assumes "failing_reply (ce_http env hq)"
  shows "cl_breaker (snd (exchange env c req hq)) = record_failure (ce_failure env) (cl_breaker c)"
  using assms
  by (auto simp: exchange_def failing_reply_def read_limited_def Let_def split: sum.splits option.splits)

lemma outage_call_fails:
  assumes "outage_call (env, req)" and "allow (ce_allow env) (cl_breaker c) = (True, b)"
    and "provider_do env c req = (r, c', sent)"
  shows "cl_breaker c' = record_failure (ce_failure env) b"
proof -
  from assms(1) obtain body where n: "ce_limiter env = None" "ce_request_err env = None" "encode_body env req = Inr body"
    by (cases "encode_body env req") (auto simp: local_failure_def outage_call_def)
  let ?c = "c\<lparr>cl_breaker := b\<rparr>"
  obtain a c1 s1 where a: "attach_token env ?c (build_request env ?c req body) = (a, c1, s1)"
    by (cases "attach_token env ?c (build_request env ?c req body)") auto
  show ?thesis
  proof (cases a)
    case (Inl e)
    with assms(2,3) n a have "c' = c1" by (auto simp: provider_do_def)
    with attach_token_breaker(2) a Inl show ?thesis by auto
  next
    case (Inr hq)
    with assms(2,3) n a have "c' = snd (exchange env c1 req hq)" by (auto simp: provider_do_def split: prod.splits)
    moreover have "failing_reply (ce_http env hq)" using assms(1) by (simp add: outage_call_def)
    ultimately show ?thesis using exchange_failing [of env hq c1 req] attach_token_breaker(1) a Inr by auto
  qed
qed

lemma probe_fails:
  "br_state (record_failure t (b\<lparr>br_state := CircuitHalfOpen, half_open_use := True, gauge := Some 1\<rparr>)) = CircuitOpen \<and>
   opened_at (record_failure t (b\<lparr>br_state := CircuitHalfOpen, half_open_use := True, gauge := Some 1\<rparr>)) = t \<and>
   cooldown (record_failure t (b\<lparr>br_state := CircuitHalfOpen, half_open_use := True, gauge := Some 1\<rparr>)) = cooldown b"
  by (simp add: record_failure_def publish_def Let_def)

lemma time_sub_le: "0 \<le> t - u \<Longrightarrow> time_sub t u \<le> t - u"
  by (auto simp: time_sub_def int64_min_def)

text \<open>A run of calls during the outage, on a circuit that is open.\<close>

lemma outage_run:
  assumes "br_state (cl_breaker c) = CircuitOpen" and "0 < cooldown (cl_breaker c)"
    and "list_all (outage_call) calls" and "ordered_from (opened_at (cl_breaker c)) calls"
    and "run_do calls c = (rs, c', sent)"
  shows "br_state (cl_breaker c') = CircuitOpen \<and> cooldown (cl_breaker c') = cooldown (cl_breaker c) \<and>
    opened_at (cl_breaker c') \<le> last_reading (opened_at (cl_breaker c)) calls \<and>
    int (calls_sent calls c) * cooldown (cl_breaker c) \<le> opened_at (cl_breaker c') - opened_at (cl_breaker c)"
  using assms
proof (induction calls arbitrary: c rs sent)
  case Nil
  then show ?case by (simp add: last_reading_def)
next
  case (Cons call calls)
  obtain env req where call: "call = (env, req)" by (cases call)
  obtain r c1 s1 where do: "provider_do env c req = (r, c1, s1)" by (cases "provider_do env c req") auto
  obtain rs1 s2 where rest: "run_do calls c1 = (rs1, c', s2)"
    using Cons.prems(5) by (auto simp: call do split: prod.splits)
  have ord: "opened_at (cl_breaker c) \<le> ce_allow env" "ce_allow env \<le> ce_failure env" "ordered_from (ce_failure env) calls"
    using Cons.prems(4) by (simp_all add: call)
  have mono: "ordered_from u cs \<Longrightarrow> t \<le> u \<Longrightarrow> ordered_from t cs" for t u cs
    by (cases cs) auto
  have lr: "last_reading t (call # calls) = last_reading (ce_failure env) calls" for t
    by (simp add: last_reading_def call)
  show ?case
  proof (cases "cooldown_over (cl_breaker c) (ce_allow env)")
    case False
    then have "allow (ce_allow env) (cl_breaker c) = (False, cl_breaker c)"
      using allow_open_early Cons.prems(1) by (simp add: cooldown_over_def)
    then have c1: "cl_breaker c1 = cl_breaker c" "s1 = []" using do provider_do_refused [of env c req] by auto
    have "ordered_from (opened_at (cl_breaker c1)) calls" using mono [OF ord(3)] ord(1,2) c1(1) by simp
    with Cons.IH [of c1 rs1 s2] Cons.prems rest c1 ord lr show ?thesis
      by (cases calls) (auto simp: call do last_reading_def)
  next
    case True
    let ?b = "(cl_breaker c)\<lparr>br_state := CircuitHalfOpen, half_open_use := True, gauge := Some 1\<rparr>"
    have "allow (ce_allow env) (cl_breaker c) = (True, ?b)"
      using allow_open_due Cons.prems(1) True by (simp add: cooldown_over_def)
    moreover have "outage_call (env, req)" using Cons.prems(3) by (simp add: call)
    ultimately have "cl_breaker c1 = record_failure (ce_failure env) ?b" using outage_call_fails do by blast
    then have c1: "br_state (cl_breaker c1) = CircuitOpen" "opened_at (cl_breaker c1) = ce_failure env"
      "cooldown (cl_breaker c1) = cooldown (cl_breaker c)" using probe_fails [of "ce_failure env" "cl_breaker c"] by auto
    have "cooldown (cl_breaker c) \<le> ce_allow env - opened_at (cl_breaker c)"
      using True time_sub_le [of "ce_allow env" "opened_at (cl_breaker c)"] ord(1) by (simp add: cooldown_over_def)
    moreover have "br_state (cl_breaker c') = CircuitOpen \<and> cooldown (cl_breaker c') = cooldown (cl_breaker c1) \<and>
        opened_at (cl_breaker c') \<le> last_reading (opened_at (cl_breaker c1)) calls \<and>
        int (calls_sent calls c1) * cooldown (cl_breaker c1) \<le> opened_at (cl_breaker c') - opened_at (cl_breaker c1)"
      using Cons.IH [of c1 rs1 s2] Cons.prems(2,3) rest c1 ord(3) by (simp add: call)
    ultimately show ?thesis using c1 ord lr by (auto simp: call do algebra_simps)
  qed
qed

definition answering :: "call_env \<Rightarrow> bool" where
  "answering env \<longleftrightarrow> (\<forall>hq. \<not> failing_reply (ce_http env hq)) \<and>
     (\<forall>ts. \<not> isl (fst (get_token (ce_token env) ts)))"

lemma answering_call:
  assumes "answering env" and "\<not> local_failure env req" and "allow (ce_allow env) (cl_breaker c) = (True, b)"
  shows "\<exists>rs c' sent. provider_do env c req = (Inr rs, c', sent) \<and> cl_breaker c' = record_success b"
proof -
  obtain body where n: "ce_limiter env = None" "ce_request_err env = None" "encode_body env req = Inr body"
    using assms(2) by (cases "encode_body env req") (auto simp: local_failure_def)
  let ?c = "c\<lparr>cl_breaker := b\<rparr>"
  obtain hq c1 s1 where a: "attach_token env ?c (build_request env ?c req body) = (Inr hq, c1, s1)"
  proof (cases "cl_tokens c")
    case None
    with that show ?thesis by (simp add: attach_token_def)
  next
    case (Some ts)
    moreover obtain tok ts' s where "get_token (ce_token env) ts = (Inr tok, ts', s)"
      using assms(1) by (cases "get_token (ce_token env) ts") (auto simp: answering_def isl_def split: sum.splits, metis fst_conv old.sum.exhaust)
    ultimately show ?thesis using that by (simp add: attach_token_def)
  qed
  obtain hr where hr: "ce_http env hq = Inr hr" "hr_read_err hr = None" "\<not> is_provider_failure (hr_status hr)"
    using assms(1) by (cases "ce_http env hq") (auto simp: answering_def failing_reply_def split: sum.splits)
  then obtain rs c2 where x: "exchange env c1 req hq = (Inr rs, c2)" "cl_breaker c2 = record_success (cl_breaker c1)"
    by (simp add: exchange_def read_limited_def Let_def)
  have "provider_do env c req = (Inr rs, c2, s1 @ [hq])"
    using assms(3) n a x(1) by (simp add: provider_do_def)
  then show ?thesis using x(2) attach_token_breaker(1) [OF a] by simp
qed

section \<open>Property\<close>

text \<open>C11. Through an outage and out of it: while every exchange with the provider fails, a client whose circuit is open
  sends at most one call for each cooldown, however many are made, and refuses the rest; and the first call that comes a
  cooldown after the last of them, when the provider answers again, is sent and closes the circuit: it forgets the
  failures, reports healthy, and admits every call again.\<close>

theorem outage_paced_then_recovers:
  assumes "br_state (cl_breaker c) = CircuitOpen" and "0 < cooldown (cl_breaker c)" and "cooldown (cl_breaker c) \<le> int64_max"
    and "list_all outage_call calls" and "ordered_from (opened_at (cl_breaker c)) calls"
    and "run_do calls c = (rs, c', sent)"
    and "answering env" and "\<not> local_failure env req"
    and "last_reading (opened_at (cl_breaker c)) calls + cooldown (cl_breaker c) \<le> ce_allow env"
  shows "int (calls_sent calls c) * cooldown (cl_breaker c)
      \<le> last_reading (opened_at (cl_breaker c)) calls - opened_at (cl_breaker c) \<and>
    (\<exists>reply c'' more. provider_do env c' req = (Inr reply, c'', more) \<and> healthy c'' \<and>
       failures (cl_breaker c'') = [] \<and> (\<forall>t. fst (allow t (cl_breaker c''))))"
proof -
  note run = outage_run [OF assms(1,2,4-6)]
  let ?b = "(cl_breaker c')\<lparr>br_state := CircuitHalfOpen, half_open_use := True, gauge := Some 1\<rparr>"
  have "cooldown (cl_breaker c') \<le> ce_allow env - opened_at (cl_breaker c')" using run assms(9) by auto
  then have "cooldown_over (cl_breaker c') (ce_allow env)"
    using assms(2,3) run by (auto simp: cooldown_over_def time_sub_def int64_min_def)
  then have "allow (ce_allow env) (cl_breaker c') = (True, ?b)"
    using run by (intro allow_open_due) (simp_all add: cooldown_over_def)
  from answering_call [OF assms(7,8) this] obtain reply c'' more
    where "provider_do env c' req = (Inr reply, c'', more)" "cl_breaker c'' = record_success ?b" by blast
  then show ?thesis using run by (auto simp: healthy_def record_success_def publish_def allow_def Let_def)
qed

text \<open>Three calls during the outage of a provider that then answers: the circuit opened at 900 and cools down for 500,
  so the second one goes through.\<close>

definition down_call :: "go_time \<Rightarrow> call_env \<times> request" where
  "down_call t = (sample_env\<lparr>ce_allow := t, ce_failure := t + 10, ce_http := (\<lambda>_. Inl (new_err ''connection refused''))\<rparr>, sample_request)"

definition back_up :: call_env where
  "back_up = sample_env\<lparr>ce_allow := 2500, ce_token := (ce_token sample_env)\<lparr>te_post :=
     (\<lambda>_. Inr \<lparr>hr_status = 200, hr_body = [], hr_read_err = None, hr_headers = Map.empty\<rparr>)\<rparr>\<rparr>"

theorem outage_paced_then_recovers_witness:
  "int (calls_sent [down_call 1000, down_call 1400, down_call 1500] open_client) * 500 \<le> 610 \<and>
   (\<exists>reply c'' more. provider_do back_up
      (fst (snd (run_do [down_call 1000, down_call 1400, down_call 1500] open_client))) sample_request = (Inr reply, c'', more) \<and> healthy c'')"
proof -
  let ?calls = "[down_call 1000, down_call 1400, down_call 1500]"
  obtain rs c' sent where r: "run_do ?calls open_client = (rs, c', sent)" by (metis surj_pair)
  have o: "br_state (cl_breaker open_client) = CircuitOpen" "opened_at (cl_breaker open_client) = 900"
    "cooldown (cl_breaker open_client) = 500"
    by (simp_all add: open_client_def sample_defs new_circuit_breaker_def breaker_defs)
  have out: "list_all outage_call ?calls"
    by (simp add: outage_call_def down_call_def local_failure_def failing_reply_def sample_defs encode_body_def)
  have ord: "ordered_from (opened_at (cl_breaker open_client)) ?calls" by (simp add: o down_call_def)
  have up: "answering back_up" "\<not> local_failure back_up sample_request"
    by (simp_all add: back_up_def answering_def failing_reply_def sample_defs local_failure_def encode_body_def is_provider_failure_def
        get_token_def read_limited_def Let_def)
  have a: "ce_allow back_up = 2500" by (simp add: back_up_def)
  have "last_reading (opened_at (cl_breaker open_client)) ?calls = 1510" by (simp add: last_reading_def down_call_def)
  then show ?thesis
    using outage_paced_then_recovers [OF o(1) _ _ out ord r up] r by (simp add: o a int64_max_def) blast
qed

end
