(* ===== verification/Provider_Setup.thy ===== *)
theory Provider_Setup
  imports Provider_Client
begin

text \<open>
  \<open>New\<close> of \<open>src/providers/client.go\<close>: an endpoint and the key material become a client and the settings of its
  transport. The packages it hands them to (\<open>net/url\<close>, \<open>crypto/tls\<close>, \<open>crypto/x509\<close>) are the argument \<open>nl\<close>:
  how a URL is read, whether a certificate and a key are a pair, whether a bundle holds a certificate.
\<close>

section \<open>Settings\<close>

record endpoint =
  ep_base_url :: string
  ep_oauth_token_url :: string
  ep_oauth_client_id :: string
  ep_client_secret_arn :: string
  ep_mtls_cert_arn :: string
  ep_mtls_key_arn :: string
  ep_ca_cert_pem_path :: string
  ep_timeout :: duration
  ep_max_retries :: int
  ep_callback_audience :: string
  ep_callback_jwks_url :: string
  ep_shared_callback_secret :: string
  ep_circuit_threshold :: int
  ep_circuit_window :: duration
  ep_circuit_cooldown :: duration
  ep_rate_limit_per_second :: int
  ep_insecure :: bool

definition default_user_agent :: string where
  "default_user_agent = ''moribox/1.0''"

record client_options =
  op_name :: string
  op_endpoint :: endpoint
  op_client_secret :: string
  op_mtls_cert :: string
  op_mtls_key :: string
  op_ca_cert :: string
  op_user_agent :: string

record base_url =
  bu_host :: string
  bu_path :: string

record 'c net_lib =
  nl_parse_url :: "string \<Rightarrow> go_error + base_url"
  nl_key_pair :: "string \<Rightarrow> string \<Rightarrow> go_error + 'c"
  nl_append_certs :: "string \<Rightarrow> bool"

datatype tls_version = TLS10 | TLS11 | TLS12 | TLS13

record 'c tls_settings =
  tc_min_version :: tls_version
  tc_certificates :: "'c list"
  tc_root_cas :: "string option"

text \<open>What \<open>CheckRedirect\<close> answers: follow the redirect, or hand back the reply as it is.\<close>

datatype redirect_policy = FollowRedirects | UseLastResponse

record 'c transport_settings =
  tp_tls :: "'c tls_settings"
  tp_max_idle_conns :: nat
  tp_max_idle_per_host :: nat
  tp_idle_timeout :: duration
  tp_handshake_timeout :: duration
  tp_dial_timeout :: duration
  tp_keep_alive :: duration
  tp_http2 :: bool
  tp_timeout :: duration
  tp_redirects :: redirect_policy

text \<open>The limiter is told its rate and its burst; the time limit of a call and the number of retries are kept.\<close>

record 'c built_client =
  bc_client :: client
  bc_base :: base_url
  bc_transport :: "'c transport_settings"
  bc_limiter :: "int \<times> int"
  bc_call_timeout :: duration
  bc_max_retry :: int

section \<open>Construction\<close>

definition client_certs :: "'c net_lib \<Rightarrow> client_options \<Rightarrow> go_error + 'c list" where
  "client_certs nl opts =
     (if op_mtls_cert opts \<noteq> [] \<and> op_mtls_key opts \<noteq> []
      then (case nl_key_pair nl (op_mtls_cert opts) (op_mtls_key opts) of
              Inl e \<Rightarrow> Inl (wrap_err (op_name opts @ '' mTLS key pair'') e)
            | Inr cert \<Rightarrow> Inr [cert])
      else Inr [])"

definition root_cas :: "'c net_lib \<Rightarrow> client_options \<Rightarrow> go_error + string option" where
  "root_cas nl opts =
     (if op_ca_cert opts \<noteq> []
      then if \<not> nl_append_certs nl (op_ca_cert opts) then Inl (new_err (op_name opts @ '' CA bundle could not be parsed''))
           else Inr (Some (op_ca_cert opts))
      else Inr None)"

definition transport_of :: "client_options \<Rightarrow> 'c tls_settings \<Rightarrow> 'c transport_settings" where
  "transport_of opts tls =
     \<lparr>tp_tls = tls, tp_max_idle_conns = 64, tp_max_idle_per_host = 32, tp_idle_timeout = 60 * second,
      tp_handshake_timeout = 5 * second, tp_dial_timeout = 3 * second, tp_keep_alive = 30 * second, tp_http2 = True,
      tp_timeout = ep_timeout (op_endpoint opts), tp_redirects = UseLastResponse\<rparr>"

definition build_client :: "client_options \<Rightarrow> base_url \<Rightarrow> 'c tls_settings \<Rightarrow> 'c built_client" where
  "build_client opts base tls = (let ep = op_endpoint opts in
     \<lparr>bc_client =
        \<lparr>cl_name = op_name opts, cl_base_path = bu_path base,
         cl_tokens = (if ep_oauth_token_url ep \<noteq> []
           then Some (new_token_source (ep_oauth_token_url ep) (ep_oauth_client_id ep) (op_client_secret opts) (ep_callback_audience ep))
           else None),
         cl_breaker = new_circuit_breaker (op_name opts) (ep_circuit_threshold ep) (ep_circuit_window ep) (ep_circuit_cooldown ep),
         cl_user_agent = (if op_user_agent opts = [] then default_user_agent else op_user_agent opts),
         cl_counted = []\<rparr>,
      bc_base = base, bc_transport = transport_of opts tls,
      bc_limiter = (ep_rate_limit_per_second ep, ep_rate_limit_per_second ep),
      bc_call_timeout = ep_timeout ep, bc_max_retry = ep_max_retries ep\<rparr>)"

definition new_client :: "'c net_lib \<Rightarrow> client_options \<Rightarrow> go_error + 'c built_client" where
  "new_client nl opts = (case nl_parse_url nl (ep_base_url (op_endpoint opts)) of
       Inl e \<Rightarrow> Inl (wrap_err (op_name opts @ '' base URL'') e)
     | Inr base \<Rightarrow>
        if bu_host base = [] then Inl (new_err (op_name opts @ '' base URL has no host''))
        else (case client_certs nl opts of
            Inl e \<Rightarrow> Inl e
          | Inr certs \<Rightarrow> (case root_cas nl opts of
              Inl e \<Rightarrow> Inl e
            | Inr roots \<Rightarrow>
                Inr (build_client opts base \<lparr>tc_min_version = TLS12, tc_certificates = certs, tc_root_cas = roots\<rparr>))))"

definition client_name :: "client \<Rightarrow> string" where
  "client_name c = cl_name c"

definition circuit_state_text :: "client \<Rightarrow> circuit_state" where
  "circuit_state_text c = br_state (cl_breaker c)"

section \<open>Properties\<close>

text \<open>A client that \<open>New\<close> builds is ready and safe: its base URL has a host, its breaker keeps the invariant and is
  closed, so the first call of any instant is let through; it speaks at least TLS 1.2, hands back a redirect instead of
  following it, trusts the given bundle and nothing else when there is one, and presents a client certificate
  exactly when both a certificate and a key were given. So one of the two without the other is dropped
  without an error.\<close>

theorem new_client_ready:
  assumes "new_client nl opts = Inr b"
  shows "bu_host (bc_base b) \<noteq> [] \<and> breaker_inv (cl_breaker (bc_client b)) \<and>
    (\<forall>t. fst (allow t (cl_breaker (bc_client b)))) \<and> healthy (bc_client b) \<and>
    tc_min_version (tp_tls (bc_transport b)) = TLS12 \<and> tp_redirects (bc_transport b) = UseLastResponse \<and>
    tc_root_cas (tp_tls (bc_transport b)) = (if op_ca_cert opts = [] then None else Some (op_ca_cert opts)) \<and>
    (tc_certificates (tp_tls (bc_transport b)) \<noteq> [] \<longleftrightarrow> op_mtls_cert opts \<noteq> [] \<and> op_mtls_key opts \<noteq> []) \<and>
    cl_user_agent (bc_client b) \<noteq> []"
proof -
  obtain base certs roots where h: "bu_host base \<noteq> []" and c: "client_certs nl opts = Inr certs"
    and r: "root_cas nl opts = Inr roots"
    and b: "b = build_client opts base \<lparr>tc_min_version = TLS12, tc_certificates = certs, tc_root_cas = roots\<rparr>"
    using assms by (auto simp: new_client_def split: sum.splits if_splits)
  have "certs \<noteq> [] \<longleftrightarrow> op_mtls_cert opts \<noteq> [] \<and> op_mtls_key opts \<noteq> []"
    using c by (auto simp: client_certs_def split: sum.splits if_splits)
  moreover have "roots = (if op_ca_cert opts = [] then None else Some (op_ca_cert opts))"
    using r by (auto simp: root_cas_def split: if_splits)
  moreover have "fst (allow t (new_circuit_breaker n th w cd))" for t n th w cd
    by (simp add: allow_def new_circuit_breaker_def publish_def)
  ultimately show ?thesis
    using h by (simp add: b build_client_def Let_def transport_of_def new_breaker_inv healthy_def default_user_agent_def)
       (simp add: new_circuit_breaker_def publish_def)
qed

definition sample_net :: "string net_lib" where
  "sample_net = \<lparr>nl_parse_url = (\<lambda>u. Inr \<lparr>bu_host = u, bu_path = []\<rparr>), nl_key_pair = (\<lambda>c k. Inr c), nl_append_certs = (\<lambda>_. True)\<rparr>"

definition sample_options :: client_options where
  "sample_options = \<lparr>op_name = ''psp'',
     op_endpoint = \<lparr>ep_base_url = ''psp'', ep_oauth_token_url = [], ep_oauth_client_id = [], ep_client_secret_arn = [],
       ep_mtls_cert_arn = [], ep_mtls_key_arn = [], ep_ca_cert_pem_path = [], ep_timeout = second, ep_max_retries = 0,
       ep_callback_audience = [], ep_callback_jwks_url = [], ep_shared_callback_secret = [], ep_circuit_threshold = 0,
       ep_circuit_window = 0, ep_circuit_cooldown = 0, ep_rate_limit_per_second = 5, ep_insecure = False\<rparr>,
     op_client_secret = [], op_mtls_cert = ''cert'', op_mtls_key = [], op_ca_cert = [], op_user_agent = []\<rparr>"

lemma sample_client_built: "\<exists>b. new_client sample_net sample_options = Inr b"
  by (simp add: new_client_def sample_net_def sample_options_def client_certs_def root_cas_def)

theorem new_client_ready_witness:
  "\<exists>b. new_client sample_net sample_options = Inr b \<and> op_mtls_cert sample_options \<noteq> [] \<and>
     tc_certificates (tp_tls (bc_transport b)) = []"
  using sample_client_built new_client_ready [of sample_net sample_options] by (fastforce simp: sample_options_def)

end
