(* ===== verification/Database_Pool.thy ===== *)
theory Database_Pool
  imports Database "HOL-Library.Multiset"
begin

text \<open>
  The connection pools of \<open>src/database/database.go\<close>: what \<open>openPool\<close> makes of a DSN, \<open>Open\<close> with every pool it
  opens and closes, and the gauges of the pools. The MySQL driver (\<open>ParseDSN\<close>, \<open>FormatDSN\<close>) and \<open>database/sql\<close>
  (\<open>Open\<close>, \<open>Ping\<close>, \<open>Stats\<close>) are the argument \<open>dl\<close>. The fields of a parsed DSN that the code does not touch are one
  text. A pool is a handle with the settings it got; every \<open>sql.Open\<close> that succeeds and every \<open>Close\<close> is an event.
\<close>

section \<open>Configuration\<close>

record db_config =
  cf_dsn :: string
  cf_dsn_secret_ref :: string
  cf_reader_dsn :: string
  cf_max_open_conns :: int
  cf_max_idle_conns :: int
  cf_conn_max_lifetime :: duration
  cf_conn_max_idle_time :: duration
  cf_query_timeout :: duration
  cf_tx_timeout :: duration
  cf_migrate_on_startup :: bool
  cf_connection_budget :: int
  cf_statement_timeout_s :: int

text \<open>\<open>mysql.Config\<close>; the parameters are a map.\<close>

record dsn_config =
  dn_loc :: string
  dn_parse_time :: bool
  dn_multi_statements :: bool
  dn_interpolate_params :: bool
  dn_check_conn_liveness :: bool
  dn_params :: "string \<rightharpoonup> string"
  dn_rest :: string

record 'h sql_driver =
  dl_parse :: "string \<Rightarrow> go_error + dsn_config"
  dl_format :: "dsn_config \<Rightarrow> string"
  dl_open :: "string \<Rightarrow> go_error + 'h"
  dl_ping :: "'h \<Rightarrow> go_error option"
  dl_stats :: "'h \<Rightarrow> int \<times> int \<times> int"

record 'h pool =
  pl_handle :: 'h
  pl_max_open :: int
  pl_max_idle :: int
  pl_max_lifetime :: duration
  pl_max_idle_time :: duration

datatype 'h pool_event = PoolOpened 'h | PoolClosed 'h

section \<open>Opening\<close>

definition session_params :: "(string \<times> string) list" where
  "session_params =
     [(''time_zone'', [quote_char] @ ''+00:00'' @ [quote_char]),
      (''sql_mode'', [quote_char] @ ''STRICT_ALL_TABLES,NO_ENGINE_SUBSTITUTION,ERROR_FOR_DIVISION_BY_ZERO'' @ [quote_char]),
      (''transaction_isolation'', [quote_char] @ ''READ-COMMITTED'' @ [quote_char]),
      (''charset'', ''utf8mb4'')]"

definition session_config :: "dsn_config \<Rightarrow> dsn_config" where
  "session_config p = p\<lparr>dn_loc := ''UTC'', dn_parse_time := True, dn_multi_statements := False,
     dn_interpolate_params := False, dn_check_conn_liveness := True,
     dn_params := fold (\<lambda>(k, v) m. m(k \<mapsto> v)) session_params (dn_params p)\<rparr>"

definition open_pool :: "'h sql_driver \<Rightarrow> string \<Rightarrow> db_config \<Rightarrow> (go_error + 'h pool) \<times> 'h pool_event list" where
  "open_pool dl dsn cfg = (case dl_parse dl dsn of
       Inl e \<Rightarrow> (Inl (wrap_err ''invalid DSN'' e), [])
     | Inr parsed \<Rightarrow>
        (case dl_open dl (dl_format dl (session_config parsed)) of
           Inl e \<Rightarrow> (Inl e, [])
         | Inr h \<Rightarrow>
            let p = \<lparr>pl_handle = h, pl_max_open = cf_max_open_conns cfg, pl_max_idle = cf_max_idle_conns cfg,
                     pl_max_lifetime = cf_conn_max_lifetime cfg, pl_max_idle_time = cf_conn_max_idle_time cfg\<rparr>
            in case dl_ping dl h of
                 Some e \<Rightarrow> (Inl e, [PoolOpened h, PoolClosed h])
               | None \<Rightarrow> (Inr p, [PoolOpened h])))"

definition open_db :: "'h sql_driver \<Rightarrow> db_config \<Rightarrow> (go_error + 'h pool db_pools) \<times> 'h pool_event list" where
  "open_db dl cfg = (case open_pool dl (cf_dsn cfg) cfg of
       (Inl e, ev) \<Rightarrow> (Inl (wrap_err ''open writer pool'' e), ev)
     | (Inr w, ev) \<Rightarrow>
        if cf_reader_dsn cfg \<noteq> [] then
          (case open_pool dl (cf_reader_dsn cfg) cfg of
             (Inl e, ev') \<Rightarrow> (Inl (wrap_err ''open reader pool'' e), ev @ ev' @ [PoolClosed (pl_handle w)])
           | (Inr r, ev') \<Rightarrow> (Inr \<lparr>db_writer = w, db_reader = Some r\<rparr>, ev @ ev'))
        else (Inr \<lparr>db_writer = w, db_reader = None\<rparr>, ev))"

definition close_db :: "'h pool db_pools \<Rightarrow> 'h pool_event list" where
  "close_db d = map (PoolClosed \<circ> pl_handle) (close_pools d)"

definition db_ping :: "'h sql_driver \<Rightarrow> 'h pool db_pools \<Rightarrow> go_error option" where
  "db_ping dl d = dl_ping dl (pl_handle (db_writer d))"

definition writer_pool :: "'h pool db_pools \<Rightarrow> 'h pool" where
  "writer_pool d = db_writer d"

definition query_timeout :: "db_config \<Rightarrow> duration" where
  "query_timeout cfg = cf_query_timeout cfg"

definition tx_timeout :: "db_config \<Rightarrow> duration" where
  "tx_timeout cfg = cf_tx_timeout cfg"

section \<open>Gauges\<close>

definition role_writer :: string where "role_writer = ''writer''"
definition role_reader :: string where "role_reader = ''reader''"

text \<open>A gauge that is set: the variable, its label values, the value.\<close>

type_synonym gauge_set = "string \<times> string list \<times> int"

definition publish_pool :: "'h sql_driver \<Rightarrow> string \<Rightarrow> string \<Rightarrow> 'h pool option \<Rightarrow> gauge_set list" where
  "publish_pool dl service role pool = (case pool of
       None \<Rightarrow> []
     | Some p \<Rightarrow> (case dl_stats dl (pl_handle p) of (in_use, idle, wait_count) \<Rightarrow>
         [(''DBConnectionsInUse'', [service, role], in_use),
          (''DBConnectionsIdle'', [service, role], idle),
          (''DBWaitCount'', [service, role], wait_count)]))"

definition export_pool_stats :: "'h sql_driver \<Rightarrow> string \<Rightarrow> 'h pool db_pools \<Rightarrow> gauge_set list" where
  "export_pool_stats dl service d =
     publish_pool dl service role_writer (Some (db_writer d)) @ publish_pool dl service role_reader (db_reader d)"

text \<open>What the goroutine of \<open>StartPoolStatsExporter\<close> receives: a tick, with the statistics of the pools at that time,
  or the end of its context.\<close>

datatype 'h exporter_event = ExporterTick "'h \<Rightarrow> int \<times> int \<times> int" | ExporterDone

fun stats_exporter :: "'h sql_driver \<Rightarrow> string \<Rightarrow> 'h pool db_pools \<Rightarrow> 'h exporter_event list \<Rightarrow> gauge_set list" where
  "stats_exporter dl service d [] = []"
| "stats_exporter dl service d (ExporterDone # es) = []"
| "stats_exporter dl service d (ExporterTick stats # es) =
     export_pool_stats (dl\<lparr>dl_stats := stats\<rparr>) service d @ stats_exporter dl service d es"

section \<open>Properties\<close>

text \<open>The exporter stops with its context, and each tick before sets three gauges for each pool.\<close>

theorem exporter_gauges:
  "length (stats_exporter dl service d (map ExporterTick ticks @ ExporterDone # es)) = 3 * length (close_pools d) * length ticks"
proof -
  have "length (export_pool_stats dl' service d) = 3 * length (close_pools d)" for dl'
    by (auto simp: export_pool_stats_def publish_pool_def close_pools_def split: prod.split option.split)
  then show ?thesis by (induction ticks) simp_all
qed

text \<open>The handles still open after some events, in the order they were opened.\<close>

fun still_open :: "'h list \<Rightarrow> 'h pool_event list \<Rightarrow> 'h list" where
  "still_open hs [] = hs"
| "still_open hs (PoolOpened h # es) = still_open (hs @ [h]) es"
| "still_open hs (PoolClosed h # es) = still_open (remove1 h hs) es"

lemma still_open_append: "still_open hs (xs @ ys) = still_open (still_open hs xs) ys"
  by (induction hs xs rule: still_open.induct) auto

lemma open_pool_events:
  "mset (still_open hs (snd (open_pool dl dsn cfg))) =
     mset hs + (case fst (open_pool dl dsn cfg) of Inl e \<Rightarrow> {#} | Inr p \<Rightarrow> {#pl_handle p#})"
  by (auto simp: open_pool_def Let_def split: sum.splits option.splits)

lemma open_pool_ok:
  "open_pool dl dsn cfg = (Inr p, ev) \<Longrightarrow>
     \<exists>c. dl_parse dl dsn = Inr c \<and> dl_open dl (dl_format dl (session_config c)) = Inr (pl_handle p) \<and>
       dl_ping dl (pl_handle p) = None \<and> ev = [PoolOpened (pl_handle p)]"
  by (auto simp: open_pool_def Let_def split: sum.splits option.splits)

text \<open>The simpler model of \<open>Open\<close> in \<open>Database\<close> is this one without its events.\<close>

lemma open_db_pools:
  "fst (open_db dl cfg) = fst (open_pools (\<lambda>dsn. fst (open_pool dl dsn cfg)) (cf_dsn cfg) (cf_reader_dsn cfg))"
  by (auto simp: open_db_def open_pools_def split: prod.splits sum.splits)

lemma session_config_params:
  "map_of session_params k = Some v \<Longrightarrow> dn_params (session_config c) k = Some v"
  "k \<notin> fst ` set session_params \<Longrightarrow> dn_params (session_config c) k = dn_params c k"
  by (auto simp: session_config_def session_params_def split: if_splits)

lemma open_db_events:
  "mset (still_open [] (snd (open_db dl cfg))) =
     (case fst (open_db dl cfg) of Inl e \<Rightarrow> {#} | Inr d \<Rightarrow> mset (map pl_handle (close_pools d)))"
proof -
  obtain r ev where w: "open_pool dl (cf_dsn cfg) cfg = (r, ev)" by (cases "open_pool dl (cf_dsn cfg) cfg")
  obtain r' ev' where rd: "open_pool dl (cf_reader_dsn cfg) cfg = (r', ev')" by (cases "open_pool dl (cf_reader_dsn cfg) cfg")
  note evs = open_pool_events [of "[]" dl "cf_dsn cfg" cfg, unfolded w]
    open_pool_events [of "still_open [] ev" dl "cf_reader_dsn cfg" cfg, unfolded rd]
  show ?thesis
    using evs by (auto simp: open_db_def w rd close_pools_def still_open_append split: sum.splits)
qed

lemma session_config_overrides: "dn_params (session_config c) = dn_params c ++ map_of session_params"
proof
  fix k
  show "dn_params (session_config c) k = (dn_params c ++ map_of session_params) k"
  proof (cases "map_of session_params k")
    case None
    then have "k \<notin> fst ` set session_params" by (simp add: map_of_eq_None_iff)
    with None show ?thesis using session_config_params(2) [of k c] by (simp add: map_add_def)
  next
    case (Some v)
    then show ?thesis using session_config_params(1) [of k v c] by (simp add: map_add_def)
  qed
qed

lemma open_pool_session:
  assumes "open_pool dl dsn cfg = (Inr p, ev)"
  shows "\<exists>c c'. c' = session_config c \<and> dl_open dl (dl_format dl c') = Inr (pl_handle p) \<and>
    dl_ping dl (pl_handle p) = None \<and> dn_multi_statements c' = False \<and> dn_loc c' = ''UTC'' \<and>
    dn_params c' = (dn_params c ++ map_of session_params) \<and> dn_rest c' = dn_rest c"
proof -
  obtain c where "dl_open dl (dl_format dl (session_config c)) = Inr (pl_handle p)" "dl_ping dl (pl_handle p) = None"
    using open_pool_ok [OF assms] by blast
  moreover have "dn_multi_statements (session_config c) = False" "dn_loc (session_config c) = ''UTC''"
    "dn_rest (session_config c) = dn_rest c" by (simp_all add: session_config_def)
  ultimately show ?thesis using session_config_overrides by blast
qed

lemma still_open_closed:
  "mset (still_open hs (map (PoolClosed \<circ> pl_handle) ps)) = mset hs - mset (map pl_handle ps)"
  by (induction ps arbitrary: hs) (auto simp: add_mset_commute)

lemma open_db_sessions:
  assumes "fst (open_db dl cfg) = Inr d" and "p \<in> set (close_pools d)"
  shows "\<exists>c c'. c' = session_config c \<and> dl_open dl (dl_format dl c') = Inr (pl_handle p) \<and>
    dl_ping dl (pl_handle p) = None \<and> dn_multi_statements c' = False \<and> dn_loc c' = ''UTC'' \<and>
    dn_params c' = (dn_params c ++ map_of session_params) \<and> dn_rest c' = dn_rest c"
proof -
  have "\<exists>dsn ev. open_pool dl dsn cfg = (Inr p, ev)"
    using assms by (fastforce simp: open_db_def close_pools_def split: prod.splits sum.splits if_splits)
  then show ?thesis using open_pool_session by blast
qed

lemma close_db_closes:
  assumes "fst (open_db dl cfg) = Inr d"
  shows "still_open [] (snd (open_db dl cfg) @ close_db d) = []"
proof -
  have "mset (still_open [] (snd (open_db dl cfg) @ close_db d)) = {#}"
    unfolding still_open_append close_db_def still_open_closed open_db_events assms by simp
  then show ?thesis by simp
qed

text \<open>C33. \<open>Open\<close> leaks no pool: when it fails every pool it opened is closed again, and when it succeeds exactly the
  pools of the result are open, so \<open>Close\<close> closes all. Every pool of a result was pinged, and its sessions are in
  UTC, strict and read committed with no multiple statements, whatever the DSN asked for; the parameters of the DSN
  that the code does not name are kept.\<close>

theorem open_leaks_nothing:
  shows "mset (still_open [] (snd (open_db dl cfg))) =
      (case fst (open_db dl cfg) of Inl e \<Rightarrow> {#} | Inr d \<Rightarrow> mset (map pl_handle (close_pools d))) \<and>
    (case fst (open_db dl cfg) of Inl e \<Rightarrow> True | Inr d \<Rightarrow>
      still_open [] (snd (open_db dl cfg) @ close_db d) = [] \<and>
      list_all (\<lambda>p. \<exists>c c'. c' = session_config c \<and> dl_open dl (dl_format dl c') = Inr (pl_handle p) \<and>
          dl_ping dl (pl_handle p) = None \<and> dn_multi_statements c' = False \<and> dn_loc c' = ''UTC'' \<and>
          dn_params c' = (dn_params c ++ map_of session_params) \<and> dn_rest c' = dn_rest c)
        (close_pools d))"
proof (cases "fst (open_db dl cfg)")
  case (Inl e)
  then show ?thesis using open_db_events [of dl cfg] by simp
next
  case (Inr d)
  have "list_all (\<lambda>p. \<exists>c c'. c' = session_config c \<and> dl_open dl (dl_format dl c') = Inr (pl_handle p) \<and>
      dl_ping dl (pl_handle p) = None \<and> dn_multi_statements c' = False \<and> dn_loc c' = ''UTC'' \<and>
      dn_params c' = (dn_params c ++ map_of session_params) \<and> dn_rest c' = dn_rest c) (close_pools d)"
    using open_db_sessions [OF Inr] by (simp only: list_all_iff) blast
  with open_db_events [of dl cfg] close_db_closes [OF Inr] show ?thesis unfolding Inr sum.case by blast
qed

text \<open>The gauges of a pool are set with the labels the metrics declare, the reader's only when there is a reader.\<close>

lemma export_labels:
  "(v, ls, x) \<in> set (export_pool_stats dl service d) \<Longrightarrow>
     v \<in> {''DBConnectionsInUse'', ''DBConnectionsIdle'', ''DBWaitCount''} \<and>
     (ls = [service, role_writer] \<or> (ls = [service, role_reader] \<and> db_reader d \<noteq> None))"
  by (auto simp: export_pool_stats_def publish_pool_def split: option.splits prod.splits)

end
