(* ===== verification/Id_Generation.thy ===== *)
theory Id_Generation
  imports Ids
begin

text \<open>
  The generation of identifiers in \<open>src/ids/ids.go\<close> (\<open>New\<close>, \<open>NewAt\<close>, \<open>Time\<close>) and \<open>MustParse\<close>. The ULID library is the
  argument \<open>ug\<close>; \<open>generator_laws\<close> is the documented layout: the first six bytes are the milliseconds since
  the Unix epoch, most significant byte first, and \<open>MustNew\<close> panics when they do not fit. The ten bytes of
  entropy are an input. \<open>None\<close> is a panic.
\<close>

section \<open>Big endian numbers\<close>

fun big_endian :: "nat \<Rightarrow> nat \<Rightarrow> string" where
  "big_endian 0 m = []"
| "big_endian (Suc n) m = char_of (m div 256 ^ n mod 256) # big_endian n (m mod 256 ^ n)"

fun be_val :: "string \<Rightarrow> nat" where
  "be_val [] = 0"
| "be_val (c # s) = byte_val c * 256 ^ length s + be_val s"

lemma big_endian_length [simp]: "length (big_endian n m) = n"
  by (induction n arbitrary: m) auto

lemma be_val_big_endian: "m < 256 ^ n \<Longrightarrow> be_val (big_endian n m) = m"
proof (induction n arbitrary: m)
  case 0
  then show ?case by simp
next
  case (Suc n)
  have "m div 256 ^ n < 256" using Suc.prems by (simp add: less_mult_imp_div_less)
  with Suc.IH [of "m mod 256 ^ n"] show ?case by (simp add: div_mult_mod_eq)
qed

lemma big_endian_less: "a < b \<Longrightarrow> b < 256 ^ n \<Longrightarrow> big_endian n a < big_endian n b"
proof (induction n arbitrary: a b)
  case 0
  then show ?case by simp
next
  case (Suc n)
  let ?k = "256 ^ n :: nat"
  have d: "a div ?k < 256" "b div ?k < 256" using Suc.prems by (auto simp: less_mult_imp_div_less)
  have le: "a div ?k \<le> b div ?k" using Suc.prems(1) by (simp add: div_le_mono)
  show ?case
  proof (cases "a div ?k = b div ?k")
    case True
    have "a mod ?k < b mod ?k"
      using Suc.prems(1) True by (metis div_mult_mod_eq nat_add_left_cancel_less)
    then have "big_endian n (a mod ?k) < big_endian n (b mod ?k)" by (intro Suc.IH) simp_all
    with True show ?thesis by simp
  next
    case False
    with le have "a div ?k < b div ?k" by simp
    with d show ?thesis by (simp add: less_char_def)
  qed
qed

lemma less_append: "length x = length y \<Longrightarrow> x < y \<Longrightarrow> x @ u < y @ (v :: string)"
  by (induction x y rule: list_induct2) auto

section \<open>The model\<close>

record ulid_gen =
  ug_new :: "nat \<Rightarrow> string \<Rightarrow> string option"
  ug_time :: "string \<Rightarrow> nat"

definition generator_laws :: "ulid_gen \<Rightarrow> bool" where
  "generator_laws ug \<longleftrightarrow>
     (\<forall>ms e. length e = 10 \<longrightarrow> ug_new ug ms e = (if ms < 256 ^ 6 then Some (big_endian 6 ms @ e) else None)) \<and>
     (\<forall>b. length b = 16 \<longrightarrow> ug_time ug b = be_val (take 6 b))"

text \<open>1 January 1970, and \<open>ulid.Timestamp\<close>: the milliseconds since, as an unsigned 64 bit number.\<close>

definition unix_epoch :: go_time where
  "unix_epoch = 62135596800 * second"

definition ulid_timestamp :: "go_time \<Rightarrow> nat" where
  "ulid_timestamp t = nat (((t - unix_epoch) div millisecond) mod 2 ^ 64)"

definition new_id_at :: "ulid_gen \<Rightarrow> string \<Rightarrow> go_time \<Rightarrow> ID option" where
  "new_id_at ug entropy t = map_option copy_id (ug_new ug (ulid_timestamp t) entropy)"

definition new_id :: "ulid_gen \<Rightarrow> string \<Rightarrow> go_time \<Rightarrow> ID option" where
  "new_id ug entropy now = map_option copy_id (ug_new ug (ulid_timestamp now) entropy)"

definition id_time :: "ulid_gen \<Rightarrow> ID \<Rightarrow> go_time" where
  "id_time ug i = unix_epoch + int (ug_time ug (id_bytes i)) * millisecond"

definition must_parse :: "ulid_codec \<Rightarrow> string \<Rightarrow> ID option" where
  "must_parse uc s = (case parse_id uc s of Inl e \<Rightarrow> None | Inr i \<Rightarrow> Some i)"

section \<open>Properties\<close>

text \<open>The instants a ULID can carry: from 1970 until the milliseconds fill 48 bits.\<close>

definition ulid_instant :: "go_time \<Rightarrow> bool" where
  "ulid_instant t \<longleftrightarrow> unix_epoch \<le> t \<and> t < unix_epoch + 256 ^ 6 * millisecond"

lemma ulid_timestamp_instant:
  assumes "ulid_instant t"
  shows "int (ulid_timestamp t) = (t - unix_epoch) div millisecond \<and> ulid_timestamp t < 256 ^ 6"
proof -
  let ?m = "(t - unix_epoch) div millisecond"
  have pos: "0 \<le> ?m" using assms by (simp add: ulid_instant_def millisecond_def pos_imp_zdiv_nonneg_iff)
  have "t - unix_epoch < 281474976710656 * 1000000" using assms by (simp add: ulid_instant_def millisecond_def)
  moreover have "?m * 1000000 \<le> t - unix_epoch"
    using div_mult_mod_eq [of "t - unix_epoch" 1000000] pos_mod_sign [of 1000000 "t - unix_epoch"]
    unfolding millisecond_def by linarith
  ultimately have "?m < 281474976710656" by linarith
  then have "?m < 256 ^ 6" by simp
  moreover from this have "?m < 2 ^ 64" by simp
  moreover note pos
  ultimately show ?thesis by (simp add: ulid_timestamp_def)
qed

text \<open>C32. Identifiers sort by their time: for instants from 1970 to the end of the 48 bit range, \<open>NewAt\<close> does not panic,
  \<open>Time\<close> reads back the instant to the millisecond, and an identifier of an earlier millisecond is smaller
  than one of a later, whatever the entropy.\<close>

theorem ids_sort_by_time:
  assumes "generator_laws ug" and "length e = 10" and "length e' = 10" and "ulid_instant t" and "ulid_instant t'"
  shows "\<exists>i j. new_id_at ug e t = Some i \<and> new_id_at ug e' t' = Some j \<and>
    id_time ug i = unix_epoch + time_truncate (t - unix_epoch) millisecond \<and>
    ((t - unix_epoch) div millisecond < (t' - unix_epoch) div millisecond \<longrightarrow> i < j)"
proof -
  let ?a = "ulid_timestamp t" and ?b = "ulid_timestamp t'"
  note a = ulid_timestamp_instant [OF assms(4)] and b = ulid_timestamp_instant [OF assms(5)]
  have new: "new_id_at ug e t = Some (copy_id (big_endian 6 ?a @ e))" "new_id_at ug e' t' = Some (copy_id (big_endian 6 ?b @ e'))"
    using assms(1-3) a b by (simp_all add: generator_laws_def new_id_at_def)
  have bytes: "id_bytes (copy_id (big_endian 6 ?a @ e)) = big_endian 6 ?a @ e"
    "id_bytes (copy_id (big_endian 6 ?b @ e')) = big_endian 6 ?b @ e'"
    using assms(2,3) by simp_all
  have "ug_time ug (big_endian 6 ?a @ e) = ?a"
    using assms(1,2) a be_val_big_endian [of ?a 6] by (simp add: generator_laws_def del: big_endian.simps be_val.simps)
  moreover have "(t - unix_epoch) div millisecond * millisecond = time_truncate (t - unix_epoch) millisecond"
    by (simp add: time_truncate_def millisecond_def minus_mod_eq_div_mult)
  ultimately have "id_time ug (copy_id (big_endian 6 ?a @ e)) = unix_epoch + time_truncate (t - unix_epoch) millisecond"
    using a by (simp add: id_time_def bytes del: id_bytes_copy)
  moreover have "copy_id (big_endian 6 ?a @ e) < copy_id (big_endian 6 ?b @ e')"
    if "(t - unix_epoch) div millisecond < (t' - unix_epoch) div millisecond"
  proof -
    have "?a < ?b" using that a b by linarith
    then have "big_endian 6 ?a < big_endian 6 ?b" using b by (intro big_endian_less) auto
    then have "big_endian 6 ?a @ e < big_endian 6 ?b @ e'" by (rule less_append [rotated]) simp
    then show ?thesis by (simp add: less_ID_def bytes del: id_bytes_copy)
  qed
  ultimately show ?thesis using new by blast
qed

definition layout_gen :: ulid_gen where
  "layout_gen = \<lparr>ug_new = (\<lambda>ms e. if ms < 256 ^ 6 then Some (big_endian 6 ms @ e) else None), ug_time = (\<lambda>b. be_val (take 6 b))\<rparr>"

theorem ids_sort_by_time_witness:
  "\<exists>i j. new_id_at layout_gen (replicate 10 (CHR ''z'')) unix_epoch = Some i \<and>
     new_id_at layout_gen (replicate 10 (CHR ''a'')) (unix_epoch + millisecond) = Some j \<and> i < j"
proof -
  have laws: "generator_laws layout_gen" by (simp add: generator_laws_def layout_gen_def)
  have "ulid_instant unix_epoch" "ulid_instant (unix_epoch + millisecond)"
    by (simp_all add: ulid_instant_def millisecond_def)
  from ids_sort_by_time [OF laws _ _ this, of "replicate 10 (CHR ''z'')" "replicate 10 (CHR ''a'')"] show ?thesis
    by (auto simp: millisecond_def)
qed

end
