(* ===== verification/Cache.thy ===== *)
theory Cache
  imports Go_Prelude
begin

text \<open>
  \<open>src/cache/cache.go\<close>: the cache client. The Redis server is an argument: the functions of \<open>redis\<close> are the
  commands the client sends, and \<open>redis_laws\<close> is their documented behaviour, stated over a view of the
  server's state as a map from keys to a value and an expiry. A command can also fail; each operation
  takes the failure as an input: the error, and for a write whether the server had executed the command before it
  failed (a lost reply). Metrics are not modelled.

  The locale \<open>counter_store\<close> is what the rate limiter relies on; it is interpreted on \<open>increment_window\<close>
  here and on the database fallback in \<open>Ratelimit\<close>.
\<close>

section \<open>The server\<close>

record 's redis =
  rd_get :: "go_time \<Rightarrow> string \<Rightarrow> 's \<Rightarrow> string option"
  rd_set :: "go_time \<Rightarrow> string \<Rightarrow> string \<Rightarrow> duration \<Rightarrow> 's \<Rightarrow> 's"
  rd_setnx :: "go_time \<Rightarrow> string \<Rightarrow> string \<Rightarrow> duration \<Rightarrow> 's \<Rightarrow> bool \<times> 's"
  rd_del :: "string \<Rightarrow> 's \<Rightarrow> 's"
  rd_incr :: "go_time \<Rightarrow> string \<Rightarrow> 's \<Rightarrow> int \<times> 's"
  rd_expire :: "go_time \<Rightarrow> string \<Rightarrow> duration \<Rightarrow> 's \<Rightarrow> 's"
  rd_ttl :: "go_time \<Rightarrow> string \<Rightarrow> 's \<Rightarrow> duration"
  rd_view :: "'s \<Rightarrow> string \<Rightarrow> (string \<times> go_time option) option"

definition entry_live :: "go_time \<Rightarrow> (string \<times> go_time option) option \<Rightarrow> string option" where
  "entry_live now e = (case e of
       None \<Rightarrow> None
     | Some (v, None) \<Rightarrow> Some v
     | Some (v, Some t) \<Rightarrow> if now < t then Some v else None)"

definition live :: "'s redis \<Rightarrow> go_time \<Rightarrow> string \<Rightarrow> 's \<Rightarrow> string option" where
  "live rd now k s = entry_live now (rd_view rd s k)"

definition counter_value :: "string option \<Rightarrow> int" where
  "counter_value v = (case v of None \<Rightarrow> 0 | Some t \<Rightarrow> (case parse_int t of Some n \<Rightarrow> n | None \<Rightarrow> 0))"

definition keep_expiry :: "go_time \<Rightarrow> (string \<times> go_time option) option \<Rightarrow> go_time option" where
  "keep_expiry now e = (case e of Some (v, Some t) \<Rightarrow> if now < t then Some t else None | _ \<Rightarrow> None)"

text \<open>\<open>EXPIRE\<close> and \<open>TTL\<close> count in seconds, the options of \<open>SET\<close> in milliseconds.\<close>

definition whole_seconds :: "duration \<Rightarrow> bool" where "whole_seconds d \<longleftrightarrow> 0 < d \<and> d mod second = 0"
definition whole_millis :: "duration \<Rightarrow> bool" where "whole_millis d \<longleftrightarrow> 0 < d \<and> d mod millisecond = 0"

text \<open>The documented commands, for times to live that are a whole number of their units; \<open>INCR\<close> keeps the expiry of a live key, and
  \<open>EXPIRE\<close> replaces it. \<open>INCR\<close> is for keys that hold a number.\<close>

definition redis_laws :: "'s redis \<Rightarrow> bool" where
  "redis_laws rd \<longleftrightarrow>
     (\<forall>now k s. rd_get rd now k s = live rd now k s) \<and>
     (\<forall>now k v ttl s. whole_millis ttl \<longrightarrow> rd_view rd (rd_set rd now k v ttl s) = (rd_view rd s)(k \<mapsto> (v, Some (now + ttl)))) \<and>
     (\<forall>now k v ttl s. whole_millis ttl \<longrightarrow>
        (live rd now k s = None \<longrightarrow> fst (rd_setnx rd now k v ttl s) \<and>
           rd_view rd (snd (rd_setnx rd now k v ttl s)) = (rd_view rd s)(k \<mapsto> (v, Some (now + ttl)))) \<and>
        (live rd now k s \<noteq> None \<longrightarrow> rd_setnx rd now k v ttl s = (False, s))) \<and>
     (\<forall>k s. rd_view rd (rd_del rd k s) = (rd_view rd s)(k := None)) \<and>
     (\<forall>now k s. fst (rd_incr rd now k s) = counter_value (live rd now k s) + 1 \<and>
        rd_view rd (snd (rd_incr rd now k s)) =
          (rd_view rd s)(k \<mapsto> (show_int (counter_value (live rd now k s) + 1), keep_expiry now (rd_view rd s k)))) \<and>
     (\<forall>now k w s. whole_seconds w \<longrightarrow> rd_view rd (rd_expire rd now k w s) =
        (case live rd now k s of None \<Rightarrow> rd_view rd s | Some v \<Rightarrow> (rd_view rd s)(k \<mapsto> (v, Some (now + w))))) \<and>
     (\<forall>now k s v t. rd_view rd s k = Some (v, Some t) \<longrightarrow> whole_seconds (t - now) \<longrightarrow> rd_ttl rd now k s = t - now)"

lemma redis_lawsD:
  assumes "redis_laws rd"
  shows redis_get: "rd_get rd now k s = live rd now k s"
    and redis_setnx_free: "whole_millis ttl \<Longrightarrow> live rd now k s = None \<Longrightarrow> fst (rd_setnx rd now k v ttl s) \<and>
      rd_view rd (snd (rd_setnx rd now k v ttl s)) = (rd_view rd s)(k \<mapsto> (v, Some (now + ttl)))"
    and redis_setnx_held: "whole_millis ttl \<Longrightarrow> live rd now k s = Some x \<Longrightarrow> rd_setnx rd now k v ttl s = (False, s)"
    and redis_del: "rd_view rd (rd_del rd k s) = (rd_view rd s)(k := None)"
    and redis_incr_result: "fst (rd_incr rd now k s) = counter_value (live rd now k s) + 1"
    and redis_incr_state: "rd_view rd (snd (rd_incr rd now k s)) =
      (rd_view rd s)(k \<mapsto> (show_int (counter_value (live rd now k s) + 1), keep_expiry now (rd_view rd s k)))"
    and redis_expire: "whole_seconds w \<Longrightarrow> live rd now k s = Some x \<Longrightarrow>
      rd_view rd (rd_expire rd now k w s) = (rd_view rd s)(k \<mapsto> (x, Some (now + w)))"
    and redis_ttl: "rd_view rd s k = Some (x, Some t) \<Longrightarrow> whole_seconds (t - now) \<Longrightarrow> rd_ttl rd now k s = t - now"
  using assms unfolding redis_laws_def by simp_all

section \<open>The client\<close>

definition err_disabled :: go_error where "err_disabled = Sentinel ''cache is not configured''"
definition err_miss :: go_error where "err_miss = Sentinel ''cache miss''"

record 's cache_client =
  cc_redis :: "'s redis"
  cc_enabled :: bool

record cache_config =
  cg_endpoint :: string
  cg_tls :: bool
  cg_username :: string
  cg_password :: string
  cg_db :: int
  cg_enabled :: bool
  cg_fail_closed :: bool

text \<open>The options the library is given; \<open>ro_min_tls\<close> is absent when TLS is off.\<close>

record redis_options =
  ro_addr :: string
  ro_username :: string
  ro_password :: string
  ro_db :: int
  ro_dial_timeout :: duration
  ro_read_timeout :: duration
  ro_write_timeout :: duration
  ro_pool_size :: int
  ro_min_idle :: int
  ro_max_retries :: int
  ro_conn_max_idle :: duration
  ro_min_tls :: "string option"

definition redis_options_of :: "cache_config \<Rightarrow> redis_options" where
  "redis_options_of cfg = \<lparr>ro_addr = cg_endpoint cfg, ro_username = cg_username cfg, ro_password = cg_password cfg,
     ro_db = cg_db cfg, ro_dial_timeout = 2 * second, ro_read_timeout = 500 * millisecond,
     ro_write_timeout = 500 * millisecond, ro_pool_size = 32, ro_min_idle = 4, ro_max_retries = 1,
     ro_conn_max_idle = 5 * minute, ro_min_tls = (if cg_tls cfg then Some ''TLS 1.2'' else None)\<rparr>"

text \<open>\<open>New\<close>; \<open>connect\<close> is \<open>redis.NewClient\<close>. A disabled client never looks at its server.\<close>

definition new_cache :: "(redis_options \<Rightarrow> 's redis) \<Rightarrow> 's redis \<Rightarrow> cache_config \<Rightarrow> 's cache_client" where
  "new_cache connect none cfg =
     (if \<not> cg_enabled cfg then \<lparr>cc_redis = none, cc_enabled = False\<rparr>
      else \<lparr>cc_redis = connect (redis_options_of cfg), cc_enabled = True\<rparr>)"

definition cache_enabled :: "'s cache_client \<Rightarrow> bool" where
  "cache_enabled c = cc_enabled c"

definition cache_ping :: "'s cache_client \<Rightarrow> go_error option \<Rightarrow> go_error option" where
  "cache_ping c fault = (if \<not> cc_enabled c then Some err_disabled else fault)"

definition cache_close :: "'s cache_client \<Rightarrow> go_error option \<Rightarrow> go_error option" where
  "cache_close c fault = (if \<not> cc_enabled c then None else fault)"

definition cache_key :: "string \<Rightarrow> string \<Rightarrow> string" where
  "cache_key namespace key = namespace @ '':'' @ key"

definition rl_key :: "string \<Rightarrow> string" where "rl_key key = ''rl:'' @ key"
definition lock_key :: "string \<Rightarrow> string" where "lock_key key = ''lock:'' @ key"

lemma rl_key_inj [simp]: "rl_key a = rl_key b \<longleftrightarrow> a = b"
  by (simp add: rl_key_def)

definition cache_get :: "'s cache_client \<Rightarrow> go_error option \<Rightarrow> go_time \<Rightarrow> string \<Rightarrow> string \<Rightarrow> 's \<Rightarrow> go_error + string" where
  "cache_get c fault now namespace key s =
     (if \<not> cc_enabled c then Inl err_disabled
      else (case fault of
          Some e \<Rightarrow> Inl e
        | None \<Rightarrow> (case rd_get (cc_redis c) now (cache_key namespace key) s of None \<Rightarrow> Inl err_miss | Some v \<Rightarrow> Inr v)))"

text \<open>How a write fails: not executed, or executed (\<open>True\<close>) with its reply lost.\<close>

type_synonym cmd_fault = "(go_error \<times> bool) option"

definition with_fault :: "cmd_fault \<Rightarrow> ('s \<Rightarrow> 's) \<Rightarrow> 's \<Rightarrow> go_error option \<times> 's" where
  "with_fault fault cmd s = (case fault of
       Some (e, executed) \<Rightarrow> (Some e, if executed then cmd s else s)
     | None \<Rightarrow> (None, cmd s))"

definition cache_set :: "'s cache_client \<Rightarrow> cmd_fault \<Rightarrow> go_time \<Rightarrow> string \<Rightarrow> string \<Rightarrow> string \<Rightarrow> duration \<Rightarrow> 's
    \<Rightarrow> go_error option \<times> 's" where
  "cache_set c fault now namespace key value ttl s =
     (if \<not> cc_enabled c then (Some err_disabled, s)
      else with_fault fault (rd_set (cc_redis c) now (cache_key namespace key) value (if ttl \<le> 0 then minute else ttl)) s)"

definition cache_delete :: "'s cache_client \<Rightarrow> cmd_fault \<Rightarrow> string \<Rightarrow> string \<Rightarrow> 's \<Rightarrow> go_error option \<times> 's" where
  "cache_delete c fault namespace key s =
     (if \<not> cc_enabled c then (Some err_disabled, s)
      else with_fault fault (rd_del (cc_redis c) (cache_key namespace key)) s)"

text \<open>The three commands of the transaction pipeline run at one instant.\<close>

definition increment_window :: "'s cache_client \<Rightarrow> cmd_fault \<Rightarrow> go_time \<Rightarrow> string \<Rightarrow> duration \<Rightarrow> 's
    \<Rightarrow> (go_error + int \<times> duration) \<times> 's" where
  "increment_window c fault now key window s =
     (if \<not> cc_enabled c then (Inl err_disabled, s)
      else (let k = rl_key key; (n, s1) = rd_incr (cc_redis c) now k s; s2 = rd_expire (cc_redis c) now k window s1
        in (case fault of
              Some (e, executed) \<Rightarrow> (Inl e, if executed then s2 else s)
            | None \<Rightarrow> (Inr (n, rd_ttl (cc_redis c) now k s2), s2))))"

text \<open>\<open>AcquireLock\<close>; the release function it returns is \<open>release_lock\<close> with the same key and token. The script
  the server runs compares and deletes; its error is ignored.\<close>

definition acquire_lock :: "'s cache_client \<Rightarrow> cmd_fault \<Rightarrow> go_time \<Rightarrow> string \<Rightarrow> string \<Rightarrow> duration \<Rightarrow> 's
    \<Rightarrow> (go_error + bool) \<times> 's" where
  "acquire_lock c fault now key token ttl s =
     (if \<not> cc_enabled c then (Inl err_disabled, s)
      else (case rd_setnx (cc_redis c) now (lock_key key) token ttl s of (ok, s') \<Rightarrow>
          (case fault of
             Some (e, executed) \<Rightarrow> (Inl e, if executed then s' else s)
           | None \<Rightarrow> (Inr ok, s'))))"

definition release_lock :: "'s cache_client \<Rightarrow> cmd_fault \<Rightarrow> go_time \<Rightarrow> string \<Rightarrow> string \<Rightarrow> 's \<Rightarrow> 's" where
  "release_lock c fault now key token s =
     snd (with_fault fault (\<lambda>s. if rd_get (cc_redis c) now (lock_key key) s = Some token
       then rd_del (cc_redis c) (lock_key key) s else s) s)"

section \<open>A server that keeps the laws\<close>

type_synonym redis_state = "string \<Rightarrow> (string \<times> go_time option) option"

definition map_redis :: "redis_state redis" where
  "map_redis = \<lparr>
     rd_get = (\<lambda>now k s. entry_live now (s k)),
     rd_set = (\<lambda>now k v ttl s. s(k \<mapsto> (v, Some (now + ttl)))),
     rd_setnx = (\<lambda>now k v ttl s. if entry_live now (s k) = None then (True, s(k \<mapsto> (v, Some (now + ttl)))) else (False, s)),
     rd_del = (\<lambda>k s. s(k := None)),
     rd_incr = (\<lambda>now k s. let n = counter_value (entry_live now (s k)) + 1
       in (n, s(k \<mapsto> (show_int n, keep_expiry now (s k))))),
     rd_expire = (\<lambda>now k w s. case entry_live now (s k) of None \<Rightarrow> s | Some v \<Rightarrow> s(k \<mapsto> (v, Some (now + w)))),
     rd_ttl = (\<lambda>now k s. case s k of Some (v, Some t) \<Rightarrow> t - now | _ \<Rightarrow> -1),
     rd_view = (\<lambda>s. s)\<rparr>"

lemma map_redis_laws: "redis_laws map_redis"
  unfolding redis_laws_def map_redis_def live_def by (auto simp: Let_def split: option.split)

section \<open>Counters\<close>

text \<open>What a rate limiter expects of a counter: an increment adds one to the count of its own key and leaves
  the other keys alone.\<close>

locale counter_store =
  fixes incr :: "go_time \<Rightarrow> string \<Rightarrow> duration \<Rightarrow> 's \<Rightarrow> int \<times> 's"
    and count :: "go_time \<Rightarrow> duration \<Rightarrow> string \<Rightarrow> 's \<Rightarrow> int"
    and ok :: "'s \<Rightarrow> bool"
    and pos :: "duration \<Rightarrow> bool"
  assumes incr_returns: "ok s \<Longrightarrow> pos w \<Longrightarrow> fst (incr now k w s) = count now w k s + 1"
    and incr_counts: "ok s \<Longrightarrow> pos w \<Longrightarrow> 0 \<le> count now w k s \<Longrightarrow> count now w k s < int64_max \<Longrightarrow>
      count now w k (snd (incr now k w s)) = count now w k s + 1"
    and incr_others: "ok s \<Longrightarrow> pos w \<Longrightarrow> k' \<noteq> k \<Longrightarrow> count now w' k' (snd (incr now k w s)) = count now w' k' s"
    and incr_ok: "ok s \<Longrightarrow> pos w \<Longrightarrow> ok (snd (incr now k w s))"
begin

fun burst :: "nat \<Rightarrow> go_time \<Rightarrow> string \<Rightarrow> duration \<Rightarrow> 's \<Rightarrow> int list \<times> 's" where
  "burst 0 now k w s = ([], s)"
| "burst (Suc n) now k w s = (case incr now k w s of (c, s1) \<Rightarrow> (case burst n now k w s1 of (cs, s2) \<Rightarrow> (c # cs, s2)))"

text \<open>The counts a burst sees are consecutive, so a limit admits exactly as many requests as it has left.\<close>

lemma burst_counts:
  "ok s \<Longrightarrow> pos w \<Longrightarrow> 0 \<le> count now w k s \<Longrightarrow> count now w k s + int n \<le> int64_max \<Longrightarrow>
     fst (burst n now k w s) = map (\<lambda>i. count now w k s + 1 + int i) [0..<n]"
proof (induction n arbitrary: s)
  case (Suc n)
  let ?s1 = "snd (incr now k w s)"
  have c: "count now w k ?s1 = count now w k s + 1" using incr_counts Suc.prems by simp
  have "fst (burst n now k w ?s1) = map (\<lambda>i. count now w k s + 2 + int i) [0..<n]"
    using Suc.IH [of ?s1] Suc.prems c incr_ok by simp
  moreover have "map (\<lambda>i. count now w k s + 1 + int i) [0..<Suc n] =
      (count now w k s + 1) # map (\<lambda>i. count now w k s + 2 + int i) [0..<n]"
    by (simp add: map_upt_Suc del: upt_Suc)
  ultimately show ?case using incr_returns [OF Suc.prems(1,2), of now k]
    by (simp add: split_beta del: upt_Suc)
qed simp

lemma burst_admitted:
  assumes "ok s" and "pos w" and "count now w k s = 0" and "int n \<le> int64_max"
  shows "length (filter (\<lambda>c. c \<le> limit) (fst (burst n now k w s))) = min n (nat limit)"
proof -
  have "fst (burst n now k w s) = map (\<lambda>i. 1 + int i) [0..<n]"
    using burst_counts [OF assms(1,2), of now k n] assms(3,4) by simp
  moreover have "length (filter (\<lambda>c. c \<le> limit) (map (\<lambda>i. 1 + int i) [0..<n])) = min n (nat limit)"
    by (induction n) auto
  ultimately show ?thesis by simp
qed

end

lemma live_update: "rd_view rd s' = (rd_view rd s)(k \<mapsto> (v, Some t)) \<Longrightarrow>
    live rd now j s' = (if j = k then if now < t then Some v else None else live rd now j s)"
  by (simp add: live_def entry_live_def)

text \<open>One increment seen through the view.\<close>

lemma increment_window_view:
  assumes "redis_laws rd" and "whole_seconds w" and "n = counter_value (live rd now (rl_key k) s) + 1"
    and "increment_window \<lparr>cc_redis = rd, cc_enabled = True\<rparr> None now k w s = (r, s')"
  shows "r = Inr (n, w) \<and> rd_view rd s' = (rd_view rd s)(rl_key k \<mapsto> (show_int n, Some (now + w)))"
proof -
  let ?k = "rl_key k"
  let ?s1 = "snd (rd_incr rd now ?k s)"
  let ?s2 = "rd_expire rd now ?k w ?s1"
  have v1: "rd_view rd ?s1 = (rd_view rd s)(?k \<mapsto> (show_int n, keep_expiry now (rd_view rd s ?k)))"
    using redis_incr_state [OF assms(1)] assms(3) by simp
  have n: "fst (rd_incr rd now ?k s) = n" using redis_incr_result [OF assms(1)] assms(3) by simp
  have "live rd now ?k ?s1 = Some (show_int n)"
    by (auto simp: live_def v1 entry_live_def keep_expiry_def split: option.splits prod.splits if_splits)
  then have v2: "rd_view rd ?s2 = (rd_view rd ?s1)(?k \<mapsto> (show_int n, Some (now + w)))"
    by (rule redis_expire [OF assms(1,2)])
  then have "rd_view rd ?s2 ?k = Some (show_int n, Some (now + w))" by simp
  from redis_ttl [OF assms(1) this, of now] have "rd_ttl rd now ?k ?s2 = w" using assms(2) by simp
  then show ?thesis using assms(4) n v1 v2
    by (auto simp: increment_window_def Let_def split_beta)
qed

text \<open>Counters are stored as decimal text, which reads back.\<close>

lemma counter_value_show [simp]: "is_int64 n \<Longrightarrow> counter_value (Some (show_int n)) = n"
  by (simp add: counter_value_def parse_int_show_int)

definition redis_incr :: "'s redis \<Rightarrow> go_time \<Rightarrow> string \<Rightarrow> duration \<Rightarrow> 's \<Rightarrow> int \<times> 's" where
  "redis_incr rd now k w s =
     (case increment_window \<lparr>cc_redis = rd, cc_enabled = True\<rparr> None now k w s of
        (Inr (n, ttl), s') \<Rightarrow> (n, s') | (Inl e, s') \<Rightarrow> (0, s'))"

definition redis_count :: "'s redis \<Rightarrow> go_time \<Rightarrow> duration \<Rightarrow> string \<Rightarrow> 's \<Rightarrow> int" where
  "redis_count rd now w k s = counter_value (live rd now (rl_key k) s)"

lemma redis_incr_view:
  assumes "redis_laws rd" and "whole_seconds w"
  shows "fst (redis_incr rd now k w s) = redis_count rd now w' k s + 1"
    "rd_view rd (snd (redis_incr rd now k w s)) =
       (rd_view rd s)(rl_key k \<mapsto> (show_int (redis_count rd now w' k s + 1), Some (now + w)))"
  using increment_window_view [OF assms refl, of now k s]
  by (auto simp: redis_incr_def redis_count_def split: prod.splits sum.splits)

text \<open>Every server that keeps the laws is a counter store; without the laws nothing is counted.\<close>

interpretation redis_counter: counter_store "redis_incr rd" "redis_count rd" "\<lambda>_. redis_laws rd" whole_seconds for rd
proof unfold_locales
  fix s :: 'a and w w' now k k'
  assume a: "redis_laws rd" "whole_seconds w"
  show "fst (redis_incr rd now k w s) = redis_count rd now w k s + 1" by (rule redis_incr_view(1) [OF a])
  have w: "0 < w" using a(2) by (simp add: whole_seconds_def)
  show "redis_count rd now w k (snd (redis_incr rd now k w s)) = redis_count rd now w k s + 1"
    if "0 \<le> redis_count rd now w k s" "redis_count rd now w k s < int64_max"
  proof -
    have "is_int64 (redis_count rd now w k s + 1)"
      using that by (simp add: is_int64_def int64_min_def int64_max_def)
    then show ?thesis
      using redis_incr_view(2) [OF a, of now k s w] w by (simp add: redis_count_def live_update)
  qed
  show "redis_count rd now w' k' (snd (redis_incr rd now k w s)) = redis_count rd now w' k' s" if "k' \<noteq> k"
    using redis_incr_view(2) [OF a, of now k s w] that by (simp add: redis_count_def live_update)
qed simp

section \<open>Properties\<close>

fun call_times :: "'s cache_client \<Rightarrow> string \<Rightarrow> duration \<Rightarrow> go_time list \<Rightarrow> 's \<Rightarrow> (go_error + int \<times> duration) list" where
  "call_times c k w [] s = []"
| "call_times c k w (t # ts) s = (case increment_window c None t k w s of (r, s') \<Rightarrow> r # call_times c k w ts s')"

lemma window_slides:
  assumes "redis_laws rd" and "whole_seconds w"
  shows "sorted_wrt (\<lambda>a b. a \<le> b) (t # ts) \<Longrightarrow> (\<And>i. Suc i < length (t # ts) \<Longrightarrow> (t # ts) ! Suc i < (t # ts) ! i + w) \<Longrightarrow>
    redis_count rd t w k s = n \<Longrightarrow> 0 \<le> n \<Longrightarrow> n + int (length (t # ts)) \<le> int64_max \<Longrightarrow>
    call_times \<lparr>cc_redis = rd, cc_enabled = True\<rparr> k w (t # ts) s = map (\<lambda>i. Inr (n + 1 + int i, w)) [0..<length (t # ts)]"
proof (induction ts arbitrary: t s n)
  case Nil
  then show ?case using increment_window_view [OF assms refl, of t k s]
    by (auto simp: redis_count_def split: prod.splits)
next
  case (Cons u us)
  let ?c = "\<lparr>cc_redis = rd, cc_enabled = True\<rparr>"
  obtain r s' where i: "increment_window ?c None t k w s = (r, s')" by (cases "increment_window ?c None t k w s")
  have r: "r = Inr (n + 1, w)" and v: "rd_view rd s' = (rd_view rd s)(rl_key k \<mapsto> (show_int (n + 1), Some (t + w)))"
    using increment_window_view [OF assms refl i] Cons.prems(3) by (auto simp: redis_count_def)
  have "u < t + w" using Cons.prems(2) [of 0] by simp
  moreover have "is_int64 (n + 1)" using Cons.prems(4,5) by (simp add: is_int64_def int64_min_def int64_max_def)
  ultimately have c: "redis_count rd u w k s' = n + 1" by (simp add: redis_count_def live_update [OF v])
  have "call_times ?c k w (u # us) s' = map (\<lambda>i. Inr (n + 1 + 1 + int i, w)) [0..<length (u # us)]"
  proof (rule Cons.IH)
    show "(u # us) ! Suc i < (u # us) ! i + w" if "Suc i < length (u # us)" for i
      using Cons.prems(2) [of "Suc i"] that by simp
  qed (use Cons.prems c in simp_all)
  moreover have "map (\<lambda>i. Inr (n + 1 + int i, w)) [0..<length (t # u # us)] =
      (Inr (n + 1, w) :: go_error + int \<times> duration) # map (\<lambda>i. Inr (n + 1 + 1 + int i, w)) [0..<length (u # us)]"
    by (simp add: map_upt_Suc del: upt_Suc)
  ultimately show ?case using i r by (simp del: upt_Suc)
qed

text \<open>The window of a counter is not fixed: \<open>IncrementWindow\<close> sets the expiry anew on every call, so a client
  whose calls are never a whole window apart is counted for ever: its i-th call sees the count i and a
  full window as the remaining time, however long it has been running.\<close>

theorem steady_caller_never_forgotten:
  assumes "redis_laws rd" and "whole_seconds w" and "redis_count rd t0 w k s = 0" and "0 < d" and "d < w"
    and "int n \<le> int64_max"
  shows "call_times \<lparr>cc_redis = rd, cc_enabled = True\<rparr> k w (map (\<lambda>i. t0 + int i * d) [0..<n]) s =
    map (\<lambda>i. Inr (int i + 1, w)) [0..<n]"
proof (cases n)
  case 0
  then show ?thesis by simp
next
  case (Suc m)
  let ?ts = "map (\<lambda>i. t0 + int i * d) [0..<n]"
  have "0 < n" using Suc by simp
  then have u: "[0..<n] = 0 # [Suc 0..<n]" by (rule upt_conv_Cons)
  obtain ts where ts: "?ts = t0 # ts" unfolding u by simp
  have len: "length (t0 # ts) = n" unfolding ts [symmetric] by simp
  have nth: "(t0 # ts) ! i = t0 + int i * d" if "i < n" for i using that unfolding ts [symmetric] by simp
  have sorted: "sorted_wrt (\<lambda>a b. a \<le> b) (t0 # ts)"
    unfolding ts [symmetric] sorted_wrt_map
    by (rule sorted_wrt_mono_rel [OF _ sorted_wrt_upt]) (use assms(4) in \<open>simp add: mult_right_mono\<close>)
  have gap: "(t0 # ts) ! Suc i < (t0 # ts) ! i + w" if "Suc i < length (t0 # ts)" for i
    using nth [of i] nth [of "Suc i"] that len assms(5) by (simp add: distrib_right)
  show ?thesis unfolding ts
    using window_slides [OF assms(1,2) sorted gap assms(3)] len assms(6)
    by (auto simp: add.commute)
qed

theorem steady_caller_never_forgotten_witness:
  "call_times \<lparr>cc_redis = map_redis, cc_enabled = True\<rparr> ''u'' minute (map (\<lambda>i. int i * (50 * second)) [0..<20]) (\<lambda>_. None) =
    map (\<lambda>i. Inr (int i + 1, minute)) [0..<20]"
  using steady_caller_never_forgotten [OF map_redis_laws, of minute 0 "''u''" "\<lambda>_. None" "50 * second" 20]
  by (simp add: whole_seconds_def redis_count_def live_def map_redis_def entry_live_def counter_value_def duration_units int64_max_def)

end
