(* ===== verification/Ratelimit.thy ===== *)
theory Ratelimit
  imports Cache Database
begin

text \<open>
  \<open>src/ratelimit/ratelimit.go\<close>: the limiter over the cache counter and its database fallback. The table of
  the fallback maps a bucket and the start of a window to a counter. A call draws from its surroundings
  what \<open>rl_call\<close> lists: the clock, the failures of the two stores, and what other sessions do to the table
  between the two statements of the fallback. The limits of the caller's context are not modelled.
\<close>

section \<open>The database counter\<close>

type_synonym counter_table = "((string \<times> go_time) \<times> int) list"

fun bump :: "string \<times> go_time \<Rightarrow> counter_table \<Rightarrow> counter_table" where
  "bump k [] = [(k, 1)]"
| "bump k ((j, n) # t) = (if j = k then (j, n + 1) # t else (j, n) # bump k t)"

record rl_call =
  rl_now :: go_time
  rl_cache_fault :: cmd_fault
  rl_insert :: stmt_fault
  rl_between :: "counter_table \<Rightarrow> counter_table"
  rl_select :: "go_error option"
  rl_later :: go_time

text \<open>The two statements of the fallback: the upsert, and the read of the counter.\<close>

definition count_stmt :: "stmt_fault \<Rightarrow> string \<Rightarrow> go_time \<Rightarrow> counter_table \<Rightarrow> go_error option \<times> counter_table" where
  "count_stmt fault bucket start t = exec_stmt fault (\<lambda>d. Inr (bump (bucket, start) d)) t"

definition read_count :: "go_error option \<Rightarrow> string \<Rightarrow> go_time \<Rightarrow> duration \<Rightarrow> go_time \<Rightarrow> counter_table \<Rightarrow> go_error + int \<times> duration" where
  "read_count fault bucket start window later t = (case fault of
       Some e \<Rightarrow> Inl e
     | None \<Rightarrow> (case map_of t (bucket, start) of
         None \<Rightarrow> Inl err_no_rows
       | Some n \<Rightarrow> Inr (n, time_sub (start + window) later)))"

definition increment_db :: "rl_call \<Rightarrow> string \<Rightarrow> duration \<Rightarrow> counter_table \<Rightarrow> (go_error + int \<times> duration) \<times> counter_table" where
  "increment_db c bucket window t =
     (let start = time_truncate (rl_now c) window
      in case count_stmt (rl_insert c) bucket start t of
           (Some e, t1) \<Rightarrow> (Inl e, t1)
         | (None, t1) \<Rightarrow>
             (let t2 = rl_between c t1
              in (read_count (rl_select c) bucket start window (rl_later c) t2, t2)))"

definition rl_cleanup :: "stmt_fault \<Rightarrow> (counter_table \<Rightarrow> counter_table) \<Rightarrow> go_time \<Rightarrow> duration \<Rightarrow> counter_table
    \<Rightarrow> (go_error + nat) \<times> counter_table" where
  "rl_cleanup fault pick now older_than t =
     (let gone = take 5000 (filter (\<lambda>((b, start), n). start < now - older_than) (pick t));
          (res, t') = exec_stmt fault (\<lambda>d. Inr (filter (\<lambda>e. e \<notin> set gone) d)) t
      in (case res of Some e \<Rightarrow> Inl e | None \<Rightarrow> Inr (length gone), t'))"

section \<open>The limiter\<close>

type_synonym dimension = string

text \<open>The common dimensions; any other string is one too.\<close>

abbreviation dim_user :: dimension where "dim_user \<equiv> ''user''"
abbreviation dim_subject :: dimension where "dim_subject \<equiv> ''subject''"
abbreviation dim_device :: dimension where "dim_device \<equiv> ''device''"
abbreviation dim_ip :: dimension where "dim_ip \<equiv> ''ip''"
abbreviation dim_route :: dimension where "dim_route \<equiv> ''route''"

record rule =
  ru_dimension :: dimension
  ru_limit :: int
  ru_window :: duration

record rl_key_value =
  rk_dimension :: dimension
  rk_value :: string

record decision =
  dc_allowed :: bool
  dc_dimension :: dimension
  dc_retry :: duration
  dc_remaining :: int

record 's limiter =
  lm_cache :: "'s cache_client option"
  lm_db :: bool
  lm_fail_closed :: bool

definition new_limiter :: "'s cache_client option \<Rightarrow> bool \<Rightarrow> bool \<Rightarrow> 's limiter" where
  "new_limiter c db fail_closed = \<lparr>lm_cache = c, lm_db = db, lm_fail_closed = fail_closed\<rparr>"

definition err_fail_closed :: go_error where
  "err_fail_closed = Sentinel ''rate limiter unavailable and configured to fail closed''"

definition cache_usable :: "'s limiter \<Rightarrow> 's cache_client option" where
  "cache_usable l = (case lm_cache l of Some c \<Rightarrow> if cc_enabled c then Some c else None | None \<Rightarrow> None)"

definition increment :: "'s limiter \<Rightarrow> rl_call \<Rightarrow> string \<Rightarrow> duration \<Rightarrow> 's \<times> counter_table
    \<Rightarrow> (go_error + int \<times> duration) \<times> 's \<times> counter_table" where
  "increment l c bucket window st =
     (let (s, t) = st;
          (r1, s1) = (case cache_usable l of
              Some cc \<Rightarrow> increment_window cc (rl_cache_fault c) (rl_now c) bucket window s
            | None \<Rightarrow> (Inl err_disabled, s))
      in case r1 of
           Inr x \<Rightarrow> (Inr x, s1, t)
         | Inl _ \<Rightarrow>
             if \<not> lm_db l then (Inl (new_err ''no counter store available''), s1, t)
             else (case increment_db c bucket window t of (r, t') \<Rightarrow> (r, s1, t')))"

definition values_of :: "rl_key_value list \<Rightarrow> dimension \<Rightarrow> string option" where
  "values_of keys = fold (\<lambda>k m. if rk_value k \<noteq> [] then m(rk_dimension k \<mapsto> rk_value k) else m) keys (\<lambda>_. None)"

definition bucket_of :: "string \<Rightarrow> dimension \<Rightarrow> string \<Rightarrow> string" where
  "bucket_of route dim value = route @ ''|'' @ dim @ ''|'' @ value"

definition allow_decision :: decision where
  "allow_decision = \<lparr>dc_allowed = True, dc_dimension = [], dc_retry = 0, dc_remaining = -1\<rparr>"

definition refuse :: "rule \<Rightarrow> duration \<Rightarrow> decision" where
  "refuse r retry = \<lparr>dc_allowed = False, dc_dimension = ru_dimension r, dc_retry = retry, dc_remaining = 0\<rparr>"

text \<open>What the result of one rule's increment means: the answer, or \<open>None\<close> to go on with the next rule.\<close>

definition rule_verdict :: "bool \<Rightarrow> rule \<Rightarrow> go_error + int \<times> duration \<Rightarrow> (decision \<times> go_error option) option" where
  "rule_verdict fail_closed r result = (case result of
       Inl e \<Rightarrow> if fail_closed then Some (refuse r second, Some err_fail_closed) else None
     | Inr (n, ttl) \<Rightarrow> if ru_limit r < n then Some (refuse r (if ttl \<le> 0 then ru_window r else ttl), None) else None)"

text \<open>The loop over the rules; each applicable rule makes one call, with what that call draws.\<close>

fun allow_rules :: "'s limiter \<Rightarrow> string \<Rightarrow> (dimension \<Rightarrow> string option) \<Rightarrow> (nat \<Rightarrow> rl_call) \<Rightarrow> nat \<Rightarrow> rule list \<Rightarrow> 's \<times> counter_table
    \<Rightarrow> (decision \<times> go_error option) \<times> 's \<times> counter_table" where
  "allow_rules l route values calls i [] st = ((allow_decision, None), st)"
| "allow_rules l route values calls i (r # rs) st = (case values (ru_dimension r) of
       None \<Rightarrow> allow_rules l route values calls (i + 1) rs st
     | Some v \<Rightarrow>
         (case increment l (calls i) (bucket_of route (ru_dimension r) v) (ru_window r) st of
            (result, st') \<Rightarrow> (case rule_verdict (lm_fail_closed l) r result of
                Some d \<Rightarrow> (d, st')
              | None \<Rightarrow> allow_rules l route values calls (i + 1) rs st')))"

definition rl_allow :: "'s limiter \<Rightarrow> string \<Rightarrow> rl_key_value list \<Rightarrow> rule list \<Rightarrow> (nat \<Rightarrow> rl_call) \<Rightarrow> 's \<times> counter_table
    \<Rightarrow> (decision \<times> go_error option) \<times> 's \<times> counter_table" where
  "rl_allow l route keys rules calls st = allow_rules l route (values_of keys) calls 0 rules st"

section \<open>The fallback as a counter store\<close>

definition quiet_call :: "go_time \<Rightarrow> rl_call" where
  "quiet_call now = \<lparr>rl_now = now, rl_cache_fault = None, rl_insert = None, rl_between = (\<lambda>t. t), rl_select = None, rl_later = now\<rparr>"

definition db_incr :: "go_time \<Rightarrow> string \<Rightarrow> duration \<Rightarrow> counter_table \<Rightarrow> int \<times> counter_table" where
  "db_incr now k w t = (case increment_db (quiet_call now) k w t of (Inr (n, ttl), t') \<Rightarrow> (n, t') | (Inl e, t') \<Rightarrow> (0, t'))"

definition db_count :: "go_time \<Rightarrow> duration \<Rightarrow> string \<Rightarrow> counter_table \<Rightarrow> int" where
  "db_count now w k t = (case map_of t (k, time_truncate now w) of Some n \<Rightarrow> n | None \<Rightarrow> 0)"

lemma map_of_bump [table_simps]:
  "map_of (bump k t) j = (if j = k then Some ((case map_of t k of Some n \<Rightarrow> n | None \<Rightarrow> 0) + 1) else map_of t j)"
  by (induction k t rule: bump.induct) auto

lemma increment_db_quiet:
  "increment_db (quiet_call now) k w t =
     (Inr (db_count now w k t + 1, time_sub (time_truncate now w + w) now), bump (k, time_truncate now w) t)"
  by (simp add: increment_db_def count_stmt_def read_count_def quiet_call_def Let_def map_of_bump db_count_def)

lemma db_incr_bump: "db_incr now k w t = (db_count now w k t + 1, bump (k, time_truncate now w) t)"
  by (simp add: db_incr_def increment_db_quiet)

interpretation db_counter: counter_store db_incr db_count "\<lambda>_. True" "\<lambda>_. True"
  by unfold_locales (simp_all add: db_incr_bump db_count_def map_of_bump)

section \<open>Properties\<close>

definition redis_limiter :: "'s redis \<Rightarrow> bool \<Rightarrow> 's limiter" where
  "redis_limiter rd closed = \<lparr>lm_cache = Some \<lparr>cc_redis = rd, cc_enabled = True\<rparr>, lm_db = True, lm_fail_closed = closed\<rparr>"

definition db_limiter :: "bool \<Rightarrow> unit limiter" where
  "db_limiter closed = \<lparr>lm_cache = None, lm_db = True, lm_fail_closed = closed\<rparr>"

text \<open>A burst of requests at one instant, against one rule.\<close>

fun allow_burst :: "'s limiter \<Rightarrow> string \<Rightarrow> string \<Rightarrow> rule \<Rightarrow> go_time \<Rightarrow> nat \<Rightarrow> 's \<times> counter_table \<Rightarrow> bool list" where
  "allow_burst l route v r now 0 st = []"
| "allow_burst l route v r now (Suc n) st =
     (case rl_allow l route [\<lparr>rk_dimension = ru_dimension r, rk_value = v\<rparr>] [r] (\<lambda>_. quiet_call now) st of
        ((d, e), st') \<Rightarrow> dc_allowed d # allow_burst l route v r now n st')"

lemma single_rule:
  assumes "v \<noteq> []"
  shows "rl_allow l route [\<lparr>rk_dimension = ru_dimension r, rk_value = v\<rparr>] [r] calls st =
    (case increment l (calls 0) (bucket_of route (ru_dimension r) v) (ru_window r) st of
       (Inl e, st') \<Rightarrow> if lm_fail_closed l then ((refuse r second, Some err_fail_closed), st') else ((allow_decision, None), st')
     | (Inr (n, ttl), st') \<Rightarrow>
         if ru_limit r < n then ((refuse r (if ttl \<le> 0 then ru_window r else ttl), None), st') else ((allow_decision, None), st'))"
  using assms by (auto simp: rl_allow_def values_of_def rule_verdict_def split: sum.splits prod.splits)

lemma increment_redis:
  assumes "redis_laws rd" and "whole_seconds w"
  shows "increment (redis_limiter rd closed) (quiet_call now) k w (s, t) =
    (Inr (fst (redis_incr rd now k w s), w), snd (redis_incr rd now k w s), t)"
proof -
  obtain r s' where i: "increment_window \<lparr>cc_redis = rd, cc_enabled = True\<rparr> None now k w s = (r, s')"
    by (cases "increment_window \<lparr>cc_redis = rd, cc_enabled = True\<rparr> None now k w s")
  with increment_window_view [OF assms refl i] show ?thesis
    by (auto simp: increment_def redis_limiter_def cache_usable_def quiet_call_def redis_incr_def)
qed

lemma increment_fallback:
  "increment (db_limiter closed) (quiet_call now) k w (s, t) =
    (Inr (fst (db_incr now k w t), time_sub (time_truncate now w + w) now), s, snd (db_incr now k w t))"
  by (simp add: increment_def db_limiter_def cache_usable_def increment_db_quiet db_incr_bump)

lemma allow_burst_redis:
  assumes "redis_laws rd" and "whole_seconds (ru_window r)" and "v \<noteq> []"
  shows "allow_burst (redis_limiter rd closed) route v r now n (s, t) =
    map (\<lambda>c. c \<le> ru_limit r) (fst (redis_counter.burst rd n now (bucket_of route (ru_dimension r) v) (ru_window r) s))"
  by (induction n arbitrary: s)
    (auto simp: single_rule [OF assms(3)] increment_redis [OF assms(1,2)] refuse_def allow_decision_def split_beta)

lemma allow_burst_db:
  assumes "v \<noteq> []"
  shows "allow_burst (db_limiter closed) route v r now n (s, t) =
    map (\<lambda>c. c \<le> ru_limit r) (fst (db_counter.burst n now (bucket_of route (ru_dimension r) v) (ru_window r) t))"
  by (induction n arbitrary: t)
    (auto simp: single_rule [OF assms] increment_fallback refuse_def allow_decision_def split_beta)

lemma filter_map_length: "length (filter id (map P xs)) = length (filter P xs)"
  by (induction xs) auto

text \<open>C23. A burst is admitted up to the limit, by either store: of \<open>n\<close> requests at one instant that share a fresh
  bucket, the limiter admits exactly the smaller of \<open>n\<close> and the limit, whether the cache or the database
  fallback counts.\<close>

theorem burst_within_limit:
  assumes "redis_laws rd" and "whole_seconds (ru_window r)" and "v \<noteq> []" and "int n \<le> int64_max"
    and "redis_count rd now (ru_window r) (bucket_of route (ru_dimension r) v) s = 0"
    and "db_count now (ru_window r) (bucket_of route (ru_dimension r) v) t = 0"
  shows "length (filter id (allow_burst (redis_limiter rd closed) route v r now n (s, t'))) = min n (nat (ru_limit r)) \<and>
    length (filter id (allow_burst (db_limiter closed) route v r now n (u, t))) = min n (nat (ru_limit r))"
  using redis_counter.burst_admitted [OF assms(1,2,5,4)] db_counter.burst_admitted [OF _ _ assms(6,4)]
  by (simp add: allow_burst_redis [OF assms(1-3)] allow_burst_db [OF assms(3)] filter_map_length)

definition per_minute :: rule where
  "per_minute = \<lparr>ru_dimension = ''user'', ru_limit = 3, ru_window = minute\<rparr>"

lemma minute_seconds [simp]: "whole_seconds minute" "whole_seconds hour"
  by (simp_all add: whole_seconds_def duration_units)

theorem burst_within_limit_witness:
  "length (filter id (allow_burst (db_limiter True) ''/open'' ''u1'' per_minute 0 5 ((), []))) = 3"
  using burst_within_limit [OF map_redis_laws, of per_minute "''u1''" 5 0 "''/open''" "\<lambda>_. None" "[]" True "[]" "()"]
  by (simp add: per_minute_def int64_max_def redis_count_def live_def map_redis_def entry_live_def counter_value_def db_count_def)

text \<open>Two rules on one dimension share a counter: the bucket names the route, the dimension and the value and
  not the window, so a request that two rules of one dimension admit is counted twice under the same key
  (a limit of ten per minute beside one per hour admits about five requests), and the key expires after
  the second rule's window.\<close>

theorem rules_share_counter:
  assumes "redis_laws rd" and "whole_seconds (ru_window r1)" and "whole_seconds (ru_window r2)"
    and "ru_dimension r1 = d" and "ru_dimension r2 = d" and "v \<noteq> []"
    and "redis_count rd now (ru_window r1) (bucket_of route d v) s = c" and "0 \<le> c" and "c + 2 \<le> int64_max"
    and "c + 1 \<le> ru_limit r1" and "c + 2 \<le> ru_limit r2"
  shows "\<exists>s'. rl_allow (redis_limiter rd closed) route [\<lparr>rk_dimension = d, rk_value = v\<rparr>] [r1, r2] (\<lambda>_. quiet_call now) (s, t)
      = ((allow_decision, None), s', t) \<and>
    rd_view rd s' (rl_key (bucket_of route d v)) = Some (show_int (c + 2), Some (now + ru_window r2))"
proof -
  let ?k = "bucket_of route d v"
  let ?s1 = "snd (redis_incr rd now ?k (ru_window r1) s)"
  let ?s2 = "snd (redis_incr rd now ?k (ru_window r2) ?s1)"
  have c0: "redis_count rd now w ?k s = c" for w using assms(7) by (simp add: redis_count_def)
  have "redis_count rd now (ru_window r1) ?k ?s1 = c + 1"
    using redis_counter.incr_counts [OF assms(1,2), of now ?k s] c0 assms(8,9) by simp
  then have c1: "redis_count rd now w ?k ?s1 = c + 1" for w by (simp add: redis_count_def)
  have i1: "fst (redis_incr rd now ?k (ru_window r1) s) = c + 1"
    using redis_incr_view(1) [OF assms(1,2), of now ?k s] c0 by simp
  have i2: "fst (redis_incr rd now ?k (ru_window r2) ?s1) = c + 2"
    and v2: "rd_view rd ?s2 = (rd_view rd ?s1)(rl_key ?k \<mapsto> (show_int (c + 2), Some (now + ru_window r2)))"
    using redis_incr_view [OF assms(1,3), of now ?k ?s1] c1 by (simp_all add: add.assoc)
  have "rl_allow (redis_limiter rd closed) route [\<lparr>rk_dimension = d, rk_value = v\<rparr>] [r1, r2] (\<lambda>_. quiet_call now) (s, t)
      = ((allow_decision, None), ?s2, t)"
    using assms(4-6,10,11) i1 i2
    by (simp add: rl_allow_def values_of_def rule_verdict_def increment_redis [OF assms(1,2)] increment_redis [OF assms(1,3)])
  then show ?thesis using v2 by simp
qed

theorem rules_share_counter_witness:
  "\<exists>s'. rl_allow (redis_limiter map_redis True) ''/open'' [\<lparr>rk_dimension = ''user'', rk_value = ''u1''\<rparr>]
      [per_minute, per_minute\<lparr>ru_limit := 100, ru_window := hour\<rparr>] (\<lambda>_. quiet_call 0) (\<lambda>_. None, []) = ((allow_decision, None), s', []) \<and>
    rd_view map_redis s' (rl_key (bucket_of ''/open'' ''user'' ''u1'')) = Some (show_int 2, Some hour)"
  using rules_share_counter [OF map_redis_laws, of per_minute "per_minute\<lparr>ru_limit := 100, ru_window := hour\<rparr>" "''user''" "''u1''" 0 "''/open''" "\<lambda>_. None" 0 True "[]"]
  by (simp add: per_minute_def int64_max_def redis_count_def live_def map_redis_def entry_live_def counter_value_def)

definition applies :: "rl_key_value list \<Rightarrow> rule \<Rightarrow> bool" where
  "applies keys r \<longleftrightarrow> values_of keys (ru_dimension r) \<noteq> None"

lemma allow_rules_down:
  assumes "\<And>i k w s t. \<exists>e s' t'. increment l (calls i) k w (s, t) = (Inl e, s', t')"
  shows "fst (allow_rules l route (values_of keys) calls i rules st) =
    (case filter (applies keys) rules of
       r # _ \<Rightarrow> if lm_fail_closed l then (refuse r second, Some err_fail_closed) else (allow_decision, None)
     | [] \<Rightarrow> (allow_decision, None))"
proof (induction rules arbitrary: i st)
  case (Cons r rules)
  show ?case
  proof (cases "values_of keys (ru_dimension r)")
    case None
    then show ?thesis using Cons by (simp add: applies_def)
  next
    case (Some v)
    obtain e s' t' where "increment l (calls i) (bucket_of route (ru_dimension r) v) (ru_window r) st = (Inl e, s', t')"
      using assms [of i _ _ "fst st" "snd st"] by force
    then show ?thesis using Some Cons by (auto simp: applies_def rule_verdict_def split: list.splits)
  qed
qed simp

text \<open>When no store can count, the flag decides: with every increment failing, a limiter that fails closed
  refuses with \<open>ErrFailClosed\<close> and names the first rule that applies, and one that fails open, or a request
  no rule applies to, is allowed.\<close>

theorem stores_down:
  assumes "\<And>i k w s t. \<exists>e s' t'. increment l (calls i) k w (s, t) = (Inl e, s', t')"
  shows "fst (rl_allow l route keys rules calls st) =
    (case filter (applies keys) rules of
       r # _ \<Rightarrow> if lm_fail_closed l then (refuse r second, Some err_fail_closed) else (allow_decision, None)
     | [] \<Rightarrow> (allow_decision, None))"
  unfolding rl_allow_def by (rule allow_rules_down [OF assms])

theorem stores_down_witness:
  "fst (rl_allow \<lparr>lm_cache = None :: unit cache_client option, lm_db = False, lm_fail_closed = True\<rparr> ''/open''
     [\<lparr>rk_dimension = ''user'', rk_value = ''u1''\<rparr>] [per_minute] (\<lambda>_. quiet_call 0) ((), [])) = (refuse per_minute second, Some err_fail_closed)"
  by (subst stores_down) (simp_all add: increment_def cache_usable_def applies_def values_of_def per_minute_def)

end
