(* ===== verification/Ratelimit_Quota.thy ===== *)
theory Ratelimit_Quota
  imports Ratelimit
begin

text \<open>
  The database fallback of \<open>src/ratelimit/ratelimit.go\<close> under concurrency. Any number of requests of any
  number of processes share one bucket and one window; each executes the two statements of \<open>incrementDB\<close>,
  the upsert (\<open>count_stmt\<close>) and the read (\<open>read_count\<close>), the server runs the statements of different requests in any
  order, and \<open>Allow\<close> answers each request by its \<open>rule_verdict\<close>, for a limiter that fails closed or open.
\<close>

section \<open>Interleavings of requests\<close>

text \<open>The requests that have been counted and not yet read the counter, those that were admitted by a count they read,
  and those that were admitted without one, after a failed statement.\<close>

record quota =
  qt_table :: counter_table
  qt_waiting :: "nat set"
  qt_admitted :: "nat set"
  qt_unchecked :: "nat set"

definition stored_count :: "string \<Rightarrow> go_time \<Rightarrow> counter_table \<Rightarrow> int" where
  "stored_count b start t = (case map_of t (b, start) of Some n \<Rightarrow> n | None \<Rightarrow> 0)"

definition quota_answer :: "bool \<Rightarrow> rule \<Rightarrow> nat \<Rightarrow> go_error + int \<times> duration \<Rightarrow> quota \<Rightarrow> quota" where
  "quota_answer fail_closed r i result q = (case rule_verdict fail_closed r result of
       Some d \<Rightarrow> q\<lparr>qt_waiting := qt_waiting q - {i}\<rparr>
     | None \<Rightarrow> (case result of
           Inr x \<Rightarrow> q\<lparr>qt_waiting := qt_waiting q - {i}, qt_admitted := insert i (qt_admitted q)\<rparr>
         | Inl e \<Rightarrow> q\<lparr>qt_waiting := qt_waiting q - {i}, qt_unchecked := insert i (qt_unchecked q)\<rparr>))"

definition quota_new :: "nat \<Rightarrow> quota \<Rightarrow> bool" where
  "quota_new i q \<longleftrightarrow> i \<notin> qt_waiting q \<union> qt_admitted q \<union> qt_unchecked q"

text \<open>\<open>quota_other\<close> is a statement of somebody else that does not take the counter away: an upsert on another
  bucket, or the deletion of other windows.\<close>

inductive quota_step :: "bool \<Rightarrow> string \<Rightarrow> go_time \<Rightarrow> rule \<Rightarrow> quota \<Rightarrow> quota \<Rightarrow> bool" for fail_closed b start r where
  quota_count: "quota_new i q \<Longrightarrow> count_stmt fault b start (qt_table q) = (None, t) \<Longrightarrow>
    quota_step fail_closed b start r q (q\<lparr>qt_table := t, qt_waiting := insert i (qt_waiting q)\<rparr>)"
| quota_lost: "quota_new i q \<Longrightarrow> count_stmt fault b start (qt_table q) = (Some e, t) \<Longrightarrow>
    quota_step fail_closed b start r q (quota_answer fail_closed r i (Inl e) (q\<lparr>qt_table := t\<rparr>))"
| quota_read: "i \<in> qt_waiting q \<Longrightarrow> read_count fault b start (ru_window r) later (qt_table q) = result \<Longrightarrow>
    quota_step fail_closed b start r q (quota_answer fail_closed r i result q)"
| quota_other: "stored_count b start (qt_table q) \<le> stored_count b start t \<Longrightarrow>
    quota_step fail_closed b start r q (q\<lparr>qt_table := t\<rparr>)"

inductive quota_reach :: "bool \<Rightarrow> string \<Rightarrow> go_time \<Rightarrow> rule \<Rightarrow> counter_table \<Rightarrow> quota \<Rightarrow> bool" for fail_closed b start r t0 where
  quota_start: "quota_reach fail_closed b start r t0 \<lparr>qt_table = t0, qt_waiting = {}, qt_admitted = {}, qt_unchecked = {}\<rparr>"
| quota_next: "quota_reach fail_closed b start r t0 q \<Longrightarrow> quota_step fail_closed b start r q q' \<Longrightarrow>
    quota_reach fail_closed b start r t0 q'"

inductive_cases quota_stepE: "quota_step fail_closed b start r q q'"

section \<open>Lemmas\<close>

lemma count_stmt_count:
  "count_stmt fault b start t = (res, t') \<Longrightarrow>
     stored_count b start t \<le> stored_count b start t' \<and> (res = None \<longrightarrow> stored_count b start t' = stored_count b start t + 1)"
  by (auto simp: count_stmt_def exec_stmt_def Let_def stored_count_def map_of_bump split: option.splits if_splits)

lemma read_count_stored: "read_count fault b start w later t = Inr (n, ttl) \<Longrightarrow> n = stored_count b start t"
  by (auto simp: read_count_def stored_count_def split: option.splits)

text \<open>Every request that was admitted by a count or still waits has left its increment in the counter.\<close>

definition quota_ok :: "bool \<Rightarrow> string \<Rightarrow> go_time \<Rightarrow> rule \<Rightarrow> quota \<Rightarrow> bool" where
  "quota_ok fail_closed b start r q \<longleftrightarrow> finite (qt_waiting q) \<and> finite (qt_admitted q) \<and> qt_waiting q \<inter> qt_admitted q = {} \<and>
     int (card (qt_admitted q) + card (qt_waiting q)) \<le> stored_count b start (qt_table q) \<and>
     int (card (qt_admitted q)) \<le> max 0 (ru_limit r) \<and> (fail_closed \<longrightarrow> qt_unchecked q = {})"

lemma quota_admits_ok:
  assumes ok: "quota_ok fc b start r q" and i: "i \<in> qt_waiting q"
    and n: "stored_count b start (qt_table q) = n" "\<not> ru_limit r < n"
  shows "quota_ok fc b start r (q\<lparr>qt_waiting := qt_waiting q - {i}, qt_admitted := insert i (qt_admitted q)\<rparr>)"
proof -
  have sets: "finite (qt_waiting q)" "finite (qt_admitted q)" "qt_waiting q \<inter> qt_admitted q = {}" "i \<notin> qt_admitted q"
    and count: "int (card (qt_admitted q) + card (qt_waiting q)) \<le> n"
    using ok i n(1) by (auto simp: quota_ok_def)
  have w: "card (qt_waiting q) = Suc (card (qt_waiting q - {i}))" and a: "card (insert i (qt_admitted q)) = Suc (card (qt_admitted q))"
    using i sets card_Suc_Diff1 [of "qt_waiting q" i] by simp_all
  have "int (Suc (card (qt_admitted q)) + card (qt_waiting q - {i})) \<le> n"
    "int (Suc (card (qt_admitted q))) \<le> max 0 (ru_limit r)"
    using count w n(2) by linarith+
  moreover have "(qt_waiting q - {i}) \<inter> insert i (qt_admitted q) = {}" using sets(3) by blast
  ultimately show ?thesis using sets(1,2) ok n(1) by (simp add: quota_ok_def a)
qed

lemma quota_answer_ok:
  assumes ok: "quota_ok fc b start r q"
    and read: "\<And>n ttl. result = Inr (n, ttl) \<Longrightarrow> i \<in> qt_waiting q \<and> stored_count b start (qt_table q) = n"
  shows "quota_ok fc b start r (quota_answer fc r i result q)"
proof (cases result)
  case (Inl e)
  have "card (qt_waiting q - {i}) \<le> card (qt_waiting q)" by (rule card_Diff1_le)
  then show ?thesis using ok Inl by (auto simp: quota_ok_def quota_answer_def rule_verdict_def)
next
  case (Inr x)
  obtain n ttl where x: "x = (n, ttl)" by (cases x)
  have "card (qt_waiting q - {i}) \<le> card (qt_waiting q)" by (rule card_Diff1_le)
  then have refused: "quota_ok fc b start r (q\<lparr>qt_waiting := qt_waiting q - {i}\<rparr>)" using ok by (auto simp: quota_ok_def)
  show ?thesis
  proof (cases "ru_limit r < n")
    case True
    then show ?thesis using refused by (simp add: quota_answer_def rule_verdict_def Inr x)
  next
    case False
    then show ?thesis using quota_admits_ok [OF ok] read [of n ttl] by (simp add: quota_answer_def rule_verdict_def Inr x)
  qed
qed

lemma quota_step_ok:
  assumes "quota_step fc b start r q q'" and ok: "quota_ok fc b start r q"
  shows "quota_ok fc b start r q'"
  using assms(1)
proof (rule quota_stepE)
  fix i fault t
  assume q': "q' = q\<lparr>qt_table := t, qt_waiting := insert i (qt_waiting q)\<rparr>"
    and i: "quota_new i q" and c: "count_stmt fault b start (qt_table q) = (None, t)"
  show ?thesis using ok i count_stmt_count [OF c] by (auto simp: quota_ok_def quota_new_def q')
next
  fix i fault e t
  assume q': "q' = quota_answer fc r i (Inl e) (q\<lparr>qt_table := t\<rparr>)" and c: "count_stmt fault b start (qt_table q) = (Some e, t)"
  have "quota_ok fc b start r (q\<lparr>qt_table := t\<rparr>)" using ok count_stmt_count [OF c] by (auto simp: quota_ok_def)
  then show ?thesis unfolding q' by (rule quota_answer_ok) simp
next
  fix i fault later
  assume q': "q' = quota_answer fc r i (read_count fault b start (ru_window r) later (qt_table q)) q" and i: "i \<in> qt_waiting q"
  show ?thesis unfolding q' using ok by (rule quota_answer_ok) (use i read_count_stored in auto)
next
  fix t
  assume "q' = q\<lparr>qt_table := t\<rparr>" "stored_count b start (qt_table q) \<le> stored_count b start t"
  then show ?thesis using ok by (auto simp: quota_ok_def)
qed

lemma quota_reach_ok: "quota_reach fc b start r t0 q \<Longrightarrow> 0 \<le> stored_count b start t0 \<Longrightarrow> quota_ok fc b start r q"
proof (induction rule: quota_reach.induct)
  case quota_start
  then show ?case by (simp add: quota_ok_def)
next
  case (quota_next q q')
  then show ?case using quota_step_ok by blast
qed

text \<open>One call of \<open>Allow\<close> with one rule: the first statement, what others do, the second statement, the verdict.\<close>

lemma quota_answer_allows:
  assumes "quota_new i (q\<lparr>qt_waiting := W\<rparr>)"
  shows "i \<in> qt_admitted (quota_answer fc r i result q) \<union> qt_unchecked (quota_answer fc r i result q) \<longleftrightarrow>
    rule_verdict fc r result = None"
    and "qt_table (quota_answer fc r i result q) = qt_table q"
  using assms by (auto simp: quota_answer_def quota_new_def split: option.splits sum.splits)

lemma rl_allow_fallback:
  assumes "v \<noteq> []"
  shows "rl_allow (db_limiter fc) route [\<lparr>rk_dimension = ru_dimension r, rk_value = v\<rparr>] [r] (\<lambda>_. call) (u, t) =
    (case increment_db call (bucket_of route (ru_dimension r) v) (ru_window r) t of
       (result, t') \<Rightarrow> ((case rule_verdict fc r result of Some d \<Rightarrow> d | None \<Rightarrow> (allow_decision, None)), u, t'))"
  using assms by (auto simp: rl_allow_def values_of_def increment_def db_limiter_def cache_usable_def split: prod.splits option.splits)

lemma verdict_refuses: "rule_verdict fc r result = Some (d, e) \<Longrightarrow> \<not> dc_allowed d"
  by (auto simp: rule_verdict_def refuse_def split: sum.splits if_splits prod.splits)

lemma rl_allow_steps:
  assumes "v \<noteq> []" and b: "b = bucket_of route (ru_dimension r) v" and start: "start = time_truncate (rl_now call) (ru_window r)"
    and new: "quota_new i q" and others: "\<And>t. stored_count b start t \<le> stored_count b start (rl_between call t)"
    and run: "rl_allow (db_limiter fc) route [\<lparr>rk_dimension = ru_dimension r, rk_value = v\<rparr>] [r] (\<lambda>_. call) (u, qt_table q) = ((d, e), u', t)"
  shows "\<exists>q'. rtranclp (quota_step fc b start r) q q' \<and> qt_table q' = t \<and>
    (dc_allowed d \<longleftrightarrow> i \<in> qt_admitted q' \<union> qt_unchecked q')"
proof -
  obtain result where inc: "increment_db call b (ru_window r) (qt_table q) = (result, t)"
    and d: "(case rule_verdict fc r result of Some d \<Rightarrow> d | None \<Rightarrow> (allow_decision, None)) = (d, e)"
    using run by (auto simp: rl_allow_fallback [OF assms(1)] b split: prod.splits)
  have allowed: "dc_allowed d \<longleftrightarrow> rule_verdict fc r result = None"
    using d verdict_refuses [of fc r result d e] by (auto simp: allow_decision_def split: option.splits)
  obtain res t1 where c: "count_stmt (rl_insert call) b start (qt_table q) = (res, t1)" by force
  show ?thesis
  proof (cases res)
    case (Some err)
    then have "result = Inl err" "t = t1" using inc c by (simp_all add: increment_db_def Let_def start)
    moreover have "quota_step fc b start r q (quota_answer fc r i (Inl err) (q\<lparr>qt_table := t1\<rparr>))"
      by (rule quota_lost [OF new c [unfolded Some]])
    moreover have "quota_new i (q\<lparr>qt_table := t1\<rparr>\<lparr>qt_waiting := qt_waiting q\<rparr>)" using new by (simp add: quota_new_def)
    ultimately show ?thesis using allowed quota_answer_allows [of i "qt_waiting q" "q\<lparr>qt_table := t1\<rparr>" fc r "Inl err"]
      by (intro exI [of _ "quota_answer fc r i (Inl err) (q\<lparr>qt_table := t1\<rparr>)"]) auto
  next
    case None
    let ?q1 = "q\<lparr>qt_table := t1, qt_waiting := insert i (qt_waiting q)\<rparr>"
    let ?q2 = "?q1\<lparr>qt_table := rl_between call t1\<rparr>"
    have r: "result = read_count (rl_select call) b start (ru_window r) (rl_later call) (rl_between call t1)" "t = rl_between call t1"
      using inc c None by (auto simp: increment_db_def Let_def start)
    have "quota_step fc b start r q ?q1" by (rule quota_count [OF new c [unfolded None]])
    moreover have "quota_step fc b start r ?q1 ?q2" using quota_other [of b start ?q1 "rl_between call t1"] others by simp
    moreover have "quota_step fc b start r ?q2 (quota_answer fc r i result ?q2)"
      by (rule quota_read [of i ?q2 "rl_select call" b start r "rl_later call"]) (simp_all add: r(1))
    ultimately have "rtranclp (quota_step fc b start r) q (quota_answer fc r i result ?q2)"
      by (meson converse_rtranclp_into_rtranclp rtranclp.rtrancl_refl)
    moreover have "quota_new i (?q2\<lparr>qt_waiting := qt_waiting q\<rparr>)" using new by (simp add: quota_new_def)
    ultimately show ?thesis using allowed r(2) quota_answer_allows [of i "qt_waiting q" ?q2 fc r result]
      by (intro exI [of _ "quota_answer fc r i result ?q2"]) simp
  qed
qed

section \<open>Property\<close>

text \<open>C10. The fallback never admits more than its limit by a count: however many requests of however many processes
  share a bucket and a window, however the server interleaves their statements, and whichever statements it fails,
  loses or applies without acknowledgement, at most \<open>Limit\<close> requests are admitted by a count they read; and a
  limiter that fails closed admits no others. (One that fails open also admits those that met a failed statement.)
  A call of \<open>Allow\<close> with one rule is such a run of statements, whatever fails in it and whatever others do between
  its statements without taking the counter away, and allows its request exactly when the run admits it.\<close>

theorem quota_holds:
  assumes "quota_reach fail_closed b start r t0 q" and "0 \<le> stored_count b start t0"
  shows "int (card (qt_admitted q)) \<le> max 0 (ru_limit r) \<and> (fail_closed \<longrightarrow> qt_unchecked q = {}) \<and>
    (\<forall>route v call i u d e u' t. v \<noteq> [] \<and> b = bucket_of route (ru_dimension r) v \<and> start = time_truncate (rl_now call) (ru_window r) \<and>
       quota_new i q \<and> (\<forall>t. stored_count b start t \<le> stored_count b start (rl_between call t)) \<and>
       rl_allow (db_limiter fail_closed) route [\<lparr>rk_dimension = ru_dimension r, rk_value = v\<rparr>] [r] (\<lambda>_. call) (u, qt_table q) = ((d, e), u', t) \<longrightarrow>
       (\<exists>q'. rtranclp (quota_step fail_closed b start r) q q' \<and> qt_table q' = t \<and>
          (dc_allowed d \<longleftrightarrow> i \<in> qt_admitted q' \<union> qt_unchecked q')))"
  using quota_reach_ok [OF assms] rl_allow_steps [of _ b _ r start _ _ q fail_closed]
  unfolding quota_ok_def by blast

text \<open>Two requests race for the last place of the window: the first is admitted before the second is counted.\<close>

theorem quota_holds_witness:
  "\<exists>q. quota_reach True ''/open|user|u1'' 0 (per_minute\<lparr>ru_limit := 1\<rparr>) [] q \<and> qt_admitted q = {7} \<and>
     card (qt_admitted q) \<le> 1 \<and> qt_unchecked q = {}"
proof -
  let ?b = "''/open|user|u1''" and ?r = "per_minute\<lparr>ru_limit := 1\<rparr>"
  let ?q0 = "\<lparr>qt_table = [], qt_waiting = {}, qt_admitted = {}, qt_unchecked = {}\<rparr>"
  let ?q1 = "?q0\<lparr>qt_table := [((?b, 0), 1)], qt_waiting := {7}\<rparr>"
  have new: "quota_new 7 ?q0" by (simp add: quota_new_def)
  have c: "count_stmt None ?b 0 (qt_table ?q0) = (None, [((?b, 0), 1)])" by (simp add: count_stmt_def)
  have r1: "quota_reach True ?b 0 ?r [] ?q1" using quota_next [OF quota_start quota_count [OF new c]] by simp
  have "read_count None ?b 0 (ru_window ?r) 0 (qt_table ?q1) = Inr (1, time_sub (0 + ru_window ?r) 0)"
    by (simp add: read_count_def)
  from quota_next [OF r1 quota_read [of 7 ?q1, OF _ this]]
  have r2: "quota_reach True ?b 0 ?r [] (?q1\<lparr>qt_waiting := {}, qt_admitted := {7}\<rparr>)"
    by (simp add: quota_answer_def rule_verdict_def per_minute_def)
  have "0 \<le> stored_count ?b 0 []" by (simp add: stored_count_def)
  from quota_holds [OF r2 this] r2 show ?thesis by (intro exI [of _ "?q1\<lparr>qt_waiting := {}, qt_admitted := {7}\<rparr>"]) simp
qed

end
