(* ===== verification/Cache_Lock.thy ===== *)
theory Cache_Lock
  imports Cache
begin

text \<open>
  The single-flight lock of \<open>src/cache/cache.go\<close> as its callers use it together: a history of calls of \<open>AcquireLock\<close>
  and of the release functions it returned, by any number of workers, in the order in which the server executes
  them. A call can fail before the server executes it or lose its reply afterwards. A worker believes it holds the
  lock from a successful acquisition until it releases it or the time to live is over. A lock that was taken and
  whose reply was lost, or whose release failed, is held by nobody and stays on the server until its time to live
  is over. A worker is known by its token, as it is to the server: every acquisition draws a token of its own.
\<close>

section \<open>Histories\<close>









section \<open>Lemmas\<close>









section \<open>Property\<close>



end
