(* ===== verification/Json_Struct.thy ===== *)
theory Json_Struct
  imports Json_Value
begin

text \<open>
  \<open>json.Unmarshal\<close> into a struct of scalar fields. The members of the document are visited in the order of the
  text, so a repeated member overwrites; a member is matched to a field by its exact name, then by case
  folding (\<open>fold_eq\<close>); \<open>null\<close> leaves a field alone; a member of another type is an error, and so is a
  document that is no object. The setter of a struct says how a field takes a value.

  Number literals are kept as they are written (the parser runs with \<open>Some\<close> for \<open>num\<close>), because an integer
  field is converted from the literal.
\<close>

section \<open>The document\<close>

text \<open>The members of the top level object with their repetitions, or the value of any other document.\<close>

definition raw_document :: "string \<Rightarrow> (json + (string \<times> json) list) option" where
  "raw_document s = (case unmarshal Some s of
       None \<Rightarrow> None
     | Some (JObj _) \<Rightarrow>
         (case skip_ws (tl (skip_ws s)) of
            [] \<Rightarrow> None
          | d # r \<Rightarrow> if d = CHR ''}'' then Some (Inr [])
              else map_option (\<lambda>(ms, t). Inr ms) (pmembers Some (parse_fuel s) (d # r)))
     | Some v \<Rightarrow> Some (Inl v))"

section \<open>Fields\<close>

definition match_field :: "(string \<Rightarrow> string \<Rightarrow> bool) \<Rightarrow> string list \<Rightarrow> string \<Rightarrow> string option" where
  "match_field fold_eq names key =
     (if key \<in> set names then Some key else List.find (\<lambda>n. fold_eq n key) names)"

fun set_members :: "(string \<Rightarrow> string \<Rightarrow> bool) \<Rightarrow> string list \<Rightarrow> (string \<Rightarrow> json \<Rightarrow> 's \<Rightarrow> 's option) \<Rightarrow> (string \<times> json) list
    \<Rightarrow> 's \<Rightarrow> 's option" where
  "set_members fold_eq names put [] x = Some x"
| "set_members fold_eq names put ((k, v) # ms) x = (case match_field fold_eq names k of
       None \<Rightarrow> set_members fold_eq names put ms x
     | Some n \<Rightarrow> (case put n v x of None \<Rightarrow> None | Some y \<Rightarrow> set_members fold_eq names put ms y))"

text \<open>The result is \<open>None\<close> on an error of syntax or type; what the struct holds then is not used by the callers.\<close>

definition unmarshal_struct :: "(string \<Rightarrow> string \<Rightarrow> bool) \<Rightarrow> string list \<Rightarrow> (string \<Rightarrow> json \<Rightarrow> 's \<Rightarrow> 's option) \<Rightarrow> 's \<Rightarrow> string \<Rightarrow> 's option" where
  "unmarshal_struct fold_eq names put x s = (case raw_document s of
       None \<Rightarrow> None
     | Some (Inl v) \<Rightarrow> if v = JNull then Some x else None
     | Some (Inr ms) \<Rightarrow> set_members fold_eq names put ms x)"

text \<open>How the scalar fields take a value: the new value, or \<open>None\<close> for a mismatch.\<close>

definition take_string :: "json \<Rightarrow> string \<Rightarrow> string option" where
  "take_string v old = (case v of JStr s \<Rightarrow> Some s | JNull \<Rightarrow> Some old | _ \<Rightarrow> None)"

definition take_bool :: "json \<Rightarrow> bool \<Rightarrow> bool option" where
  "take_bool v old = (case v of JBool b \<Rightarrow> Some b | JNull \<Rightarrow> Some old | _ \<Rightarrow> None)"

definition take_int64 :: "json \<Rightarrow> int \<Rightarrow> int option" where
  "take_int64 v old = (case v of JNum l \<Rightarrow> parse_int l | JNull \<Rightarrow> Some old | _ \<Rightarrow> None)"

section \<open>Lemmas\<close>

lemma take_int64_range: "take_int64 v old = Some n \<Longrightarrow> is_int64 old \<Longrightarrow> is_int64 n"
  by (auto simp: take_int64_def dest: parse_int_range split: json.splits)

text \<open>What a setter keeps, the document keeps.\<close>

lemma set_members_keeps:
  assumes "\<And>n v x y. put n v x = Some y \<Longrightarrow> P x \<Longrightarrow> P y"
  shows "set_members fold_eq names put ms x = Some y \<Longrightarrow> P x \<Longrightarrow> P y"
proof (induction ms arbitrary: x)
  case (Cons m ms)
  obtain k v where m: "m = (k, v)" by (cases m)
  show ?case
  proof (cases "match_field fold_eq names k")
    case None
    then show ?thesis using Cons m by simp
  next
    case (Some n)
    with Cons.prems m obtain z where "put n v x = Some z" "set_members fold_eq names put ms z = Some y"
      by (auto split: option.splits)
    then show ?thesis using Cons.IH Cons.prems(2) assms by blast
  qed
qed simp

lemma unmarshal_struct_keeps:
  assumes "\<And>n v x y. put n v x = Some y \<Longrightarrow> P x \<Longrightarrow> P y" and "unmarshal_struct fold_eq names put x s = Some y" and "P x"
  shows "P y"
  using assms(2,3) set_members_keeps [where P = P and put = put, OF assms(1)]
  by (auto simp: unmarshal_struct_def split: option.splits sum.splits if_splits)

end
