(* ===== verification/Telegram.thy ===== *)
theory Telegram
  imports Json_Struct
begin

text \<open>
  \<open>src/telegram/initdata.go\<close>: the verifier of the launch parameters of a Telegram Mini App. HMAC-SHA256, the
  bound on the number of query pieces and the case folding of JSON member names are the components of
  \<open>telegram_lib\<close>; the clock is an argument. A \<open>url.Values\<close> is an association list (see \<open>Go_Url\<close>).

  The lemmas: the check string determines every field of plain parameters (\<open>check_string_inj\<close>), and what follows the
  comparison of the signature in closed form (\<open>read_launch_exact\<close>).
\<close>

section \<open>The model\<close>

record telegram_lib =
  tl_hmac :: "string \<Rightarrow> string \<Rightarrow> string"
  tl_max_params :: nat
  tl_fold :: "string \<Rightarrow> string \<Rightarrow> bool"

definition err_missing_hash :: go_error where
  "err_missing_hash = Sentinel ''the launch parameters carry no hash''"
definition err_bad_signature :: go_error where
  "err_bad_signature = Sentinel ''the launch parameters are not signed by this bot''"
definition err_expired :: go_error where
  "err_expired = Sentinel ''the launch parameters are too old to exchange''"
definition err_from_the_future :: go_error where
  "err_from_the_future = Sentinel ''the launch parameters are dated in the future''"
definition err_no_user :: go_error where
  "err_no_user = Sentinel ''the launch parameters name no user''"
definition err_not_configured :: go_error where
  "err_not_configured = Sentinel ''no telegram bot token is configured''"

record tg_user =
  tu_id :: int
  tu_first_name :: string
  tu_last_name :: string
  tu_username :: string
  tu_language_code :: string
  tu_is_premium :: bool
  tu_photo_url :: string

definition zero_user :: tg_user where
  "zero_user = \<lparr>tu_id = 0, tu_first_name = [], tu_last_name = [], tu_username = [], tu_language_code = [],
     tu_is_premium = False, tu_photo_url = []\<rparr>"

definition user_subject :: "tg_user \<Rightarrow> string" where
  "user_subject u = ''telegram:'' @ show_int (tu_id u)"

definition display_name :: "tg_user \<Rightarrow> string" where
  "display_name u =
     (let full = trim_space (join_with '' '' [tu_first_name u, tu_last_name u])
      in if full \<noteq> [] then full else if tu_username u \<noteq> [] then tu_username u
         else ''telegram:'' @ show_int (tu_id u))"

definition user_fields :: "string list" where
  "user_fields = [''id'', ''first_name'', ''last_name'', ''username'', ''language_code'', ''is_premium'', ''photo_url'']"

definition put_user :: "string \<Rightarrow> json \<Rightarrow> tg_user \<Rightarrow> tg_user option" where
  "put_user n v u =
     (if n = ''id'' then map_option (\<lambda>i. u\<lparr>tu_id := i\<rparr>) (take_int64 v (tu_id u))
      else if n = ''first_name'' then map_option (\<lambda>s. u\<lparr>tu_first_name := s\<rparr>) (take_string v (tu_first_name u))
      else if n = ''last_name'' then map_option (\<lambda>s. u\<lparr>tu_last_name := s\<rparr>) (take_string v (tu_last_name u))
      else if n = ''username'' then map_option (\<lambda>s. u\<lparr>tu_username := s\<rparr>) (take_string v (tu_username u))
      else if n = ''language_code'' then map_option (\<lambda>s. u\<lparr>tu_language_code := s\<rparr>) (take_string v (tu_language_code u))
      else if n = ''is_premium'' then map_option (\<lambda>b. u\<lparr>tu_is_premium := b\<rparr>) (take_bool v (tu_is_premium u))
      else map_option (\<lambda>s. u\<lparr>tu_photo_url := s\<rparr>) (take_string v (tu_photo_url u)))"

definition decode_user :: "telegram_lib \<Rightarrow> string \<Rightarrow> tg_user option" where
  "decode_user lib = unmarshal_struct (tl_fold lib) user_fields put_user zero_user"

record launch_data =
  ld_user :: tg_user
  ld_auth_date :: go_time
  ld_query_id :: string
  ld_start_param :: string
  ld_chat_type :: string
  ld_chat_id :: int

record tg_verifier =
  tv_secret :: string
  tv_max_age :: duration
  tv_clock_skew :: duration

definition new_verifier :: "telegram_lib \<Rightarrow> string \<Rightarrow> duration \<Rightarrow> go_error + tg_verifier" where
  "new_verifier lib token max_age =
     (let t = trim_space token
      in if t = [] then Inl err_not_configured
         else Inr \<lparr>tv_secret = tl_hmac lib ''WebAppData'' t,
                tv_max_age = (if max_age \<le> 0 then 24 * hour else max_age), tv_clock_skew = 30 * second\<rparr>)"

definition line_feed :: string where "line_feed = [CHR 0x0A]"

definition check_line :: "url_values \<Rightarrow> string \<Rightarrow> string" where
  "check_line m k = k @ ''='' @ values_get m k"

definition signed_keys :: "url_values \<Rightarrow> string list" where
  "signed_keys m = sort (filter (\<lambda>k. k \<noteq> ''hash'') (map fst m))"

definition check_string :: "url_values \<Rightarrow> string" where
  "check_string m = join_with line_feed (map (check_line m) (signed_keys m))"

definition tg_sign :: "telegram_lib \<Rightarrow> tg_verifier \<Rightarrow> url_values \<Rightarrow> string" where
  "tg_sign lib v m = hex_encode (tl_hmac lib (tv_secret v) (check_string m))"

text \<open>\<open>time.Unix\<close> counts the seconds from the zero time in an \<open>int64\<close>.\<close>

definition unix_time :: "int \<Rightarrow> go_time" where
  "unix_time s = wrap64 (s + 62135596800) * second"

definition int_syntax :: "string \<Rightarrow> bool" where
  "int_syntax s = (case s of [] \<Rightarrow> False
     | c # r \<Rightarrow> parse_digits (if c = CHR ''-'' \<or> c = CHR ''+'' then r else s) \<noteq> None)"

text \<open>\<open>ParseInt\<close> returns the nearest bound with its range error, which the code drops.\<close>

definition parse_chat :: "string \<Rightarrow> int" where
  "parse_chat s =
     (if s = [] then 0
      else (case parse_int s of
          Some n \<Rightarrow> n
        | None \<Rightarrow> if int_syntax s then (if hd s = CHR ''-'' then int64_min else int64_max) else 0))"

text \<open>What follows the comparison of the signature: the age, the user, the rest.\<close>

definition read_launch :: "telegram_lib \<Rightarrow> tg_verifier \<Rightarrow> go_time \<Rightarrow> url_values \<Rightarrow> go_error + launch_data" where
  "read_launch lib v now m = (case parse_int (values_get m ''auth_date'') of
       None \<Rightarrow> Inl (new_err ''auth_date is not a unix timestamp'')
     | Some seconds \<Rightarrow>
         (let auth = unix_time seconds; raw = values_get m ''user''
          in if now + tv_clock_skew v < auth then Inl (wrap_err ''dated'' err_from_the_future)
             else if tv_max_age v < time_sub now auth then Inl (wrap_err ''dated'' err_expired)
             else if raw = [] then Inl err_no_user
             else (case decode_user lib raw of
                 None \<Rightarrow> Inl (new_err ''user payload is not valid json'')
               | Some u \<Rightarrow>
                   if tu_id u = 0 then Inl err_no_user
                   else Inr \<lparr>ld_user = u, ld_auth_date = auth, ld_query_id = values_get m ''query_id'',
                          ld_start_param = values_get m ''start_param'', ld_chat_type = values_get m ''chat_type'',
                          ld_chat_id = parse_chat (values_get m ''chat_instance'')\<rparr>)))"

definition tg_verify :: "telegram_lib \<Rightarrow> tg_verifier \<Rightarrow> go_time \<Rightarrow> string \<Rightarrow> go_error + launch_data" where
  "tg_verify lib v now init = (case parse_query (tl_max_params lib) init of
       None \<Rightarrow> Inl (new_err ''launch parameters are not a query string'')
     | Some m \<Rightarrow>
         (let provided = values_get m ''hash''
          in if provided = [] then Inl err_missing_hash
             else if tg_sign lib v m \<noteq> provided then Inl err_bad_signature
             else read_launch lib v now m))"

section \<open>Lemmas\<close>

text \<open>The launch data depends on the values of the signed keys only.\<close>

lemma read_launch_values:
  assumes "\<And>k. k \<noteq> ''hash'' \<Longrightarrow> values_get m' k = values_get m k"
  shows "read_launch lib v now m' = read_launch lib v now m"
proof -
  have "values_get m' ''auth_date'' = values_get m ''auth_date''" "values_get m' ''user'' = values_get m ''user''"
    "values_get m' ''query_id'' = values_get m ''query_id''" "values_get m' ''start_param'' = values_get m ''start_param''"
    "values_get m' ''chat_type'' = values_get m ''chat_type''" "values_get m' ''chat_instance'' = values_get m ''chat_instance''"
    by (simp_all add: assms)
  then show ?thesis by (simp only: read_launch_def)
qed

definition plain_fields :: "url_values \<Rightarrow> bool" where
  "plain_fields m \<longleftrightarrow> list_all (\<lambda>k. CHR ''='' \<notin> set k \<and> CHR 0x0A \<notin> set k \<and> CHR 0x0A \<notin> set (values_get m k)) (signed_keys m)"

lemma split_check_string:
  assumes "plain_fields m" and "signed_keys m \<noteq> []"
  shows "split_on (CHR 0x0A) (check_string m) = map (check_line m) (signed_keys m)"
  unfolding check_string_def line_feed_def
  using assms by (intro split_join) (auto simp: plain_fields_def check_line_def list_all_iff)

lemma cut_check_line: "CHR ''='' \<notin> set k \<Longrightarrow> cut_at (CHR ''='') (check_line m k) = (k, values_get m k)"
  by (simp add: check_line_def cut_at_append)

lemma check_string_Nil: "check_string m = [] \<longleftrightarrow> signed_keys m = []"
  by (cases "signed_keys m" rule: remdups_adj.cases) (auto simp: check_string_def check_line_def)

lemma check_string_inj:
  assumes "plain_fields m" and "plain_fields m'" and "check_string m = check_string m'" and "k \<noteq> ''hash''"
  shows "values_get m k = values_get m' k"
proof -
  have pairs: "map (\<lambda>l. cut_at (CHR ''='') l) (map (check_line x) (signed_keys x)) = map (\<lambda>k. (k, values_get x k)) (signed_keys x)"
    if "plain_fields x" for x
    using that by (auto simp: plain_fields_def list_all_iff cut_check_line)
  have lines: "map (check_line m) (signed_keys m) = map (check_line m') (signed_keys m')"
  proof (cases "signed_keys m = []")
    case True
    moreover have "signed_keys m' = []"
      using True assms(3) check_string_Nil [of m] check_string_Nil [of m'] by simp
    ultimately show ?thesis by simp
  next
    case False
    then have "signed_keys m' \<noteq> []" using assms(3) check_string_Nil [of m] check_string_Nil [of m'] by simp
    then show ?thesis
      using split_check_string [OF assms(1) False] split_check_string [OF assms(2)] assms(3) by simp
  qed
  have eq: "map (\<lambda>k. (k, values_get m k)) (signed_keys m) = map (\<lambda>k. (k, values_get m' k)) (signed_keys m')"
    using pairs [OF assms(1)] pairs [OF assms(2)] lines by metis
  have keys: "signed_keys m = signed_keys m'" using arg_cong [OF eq, of "map fst"] by (simp add: comp_def)
  show ?thesis
  proof (cases "k \<in> set (signed_keys m)")
    case True
    then show ?thesis using eq keys by (simp add: map_eq_conv)
  next
    case False
    moreover from this have "k \<notin> set (signed_keys m')" by (simp add: keys)
    ultimately have "k \<notin> fst ` set m" "k \<notin> fst ` set m'" using assms(4) by (simp_all add: signed_keys_def)
    then have "map_of m k = None" "map_of m' k = None"
      by (simp_all add: map_of_eq_None_iff)
    then show ?thesis by (simp add: values_get_def)
  qed
qed

section \<open>Properties\<close>

lemma decode_user_Nil: "decode_user lib [] = None"
  by (simp add: decode_user_def unmarshal_struct_def raw_document_def unmarshal_Nil)

lemma decode_user_int64: "decode_user lib raw = Some u \<Longrightarrow> is_int64 (tu_id u)"
  unfolding decode_user_def
  by (erule unmarshal_struct_keeps [where P = "\<lambda>u. is_int64 (tu_id u)", rotated])
    (auto simp: put_user_def zero_user_def is_int64_def int64_min_def int64_max_def
      dest: take_int64_range [unfolded is_int64_def int64_min_def int64_max_def] split: if_splits)

lemma new_verifier_fields:
  "new_verifier lib token age = Inr v \<Longrightarrow> v = \<lparr>tv_secret = tl_hmac lib ''WebAppData'' (trim_space token),
     tv_max_age = (if age \<le> 0 then 24 * hour else age), tv_clock_skew = 30 * second\<rparr>"
  by (auto simp: new_verifier_def Let_def split: if_splits)

lemma read_launch_exact:
  assumes "is_int64 (tv_max_age v)" and "tv_max_age v < int64_max"
  shows "read_launch lib v now m = Inr d \<longleftrightarrow> (\<exists>s u. parse_int (values_get m ''auth_date'') = Some s \<and>
    unix_time s \<le> now + tv_clock_skew v \<and> now \<le> unix_time s + tv_max_age v \<and>
    decode_user lib (values_get m ''user'') = Some u \<and> tu_id u \<noteq> 0 \<and>
    d = \<lparr>ld_user = u, ld_auth_date = unix_time s, ld_query_id = values_get m ''query_id'',
          ld_start_param = values_get m ''start_param'', ld_chat_type = values_get m ''chat_type'',
          ld_chat_id = parse_chat (values_get m ''chat_instance'')\<rparr>)"
  using time_sub_gt [OF assms]
  by (auto simp: read_launch_def Let_def decode_user_Nil not_less split: option.splits)

text \<open>C26. What \<open>Verify\<close> accepts, for every string and whatever made it: exactly a query string (with repeated names the
  first value counts) whose \<open>hash\<close> is the HMAC of its check string under the key derived from the trimmed bot
  token, whose \<open>auth_date\<close> is a whole number of seconds at most the age limit (24 hours if the limit is not
  positive) before the clock and at most 30 seconds after it, and whose \<open>user\<close> is a JSON object with a non zero
  \<open>int64\<close> identifier; and what it returns are these fields.\<close>

theorem launch_accepted_exact:
  assumes "new_verifier lib token age = Inr v" and "is_int64 age" and "age < int64_max"
  shows "tg_verify lib v now init = Inr d \<longleftrightarrow> (\<exists>m s u. parse_query (tl_max_params lib) init = Some m \<and>
    values_get m ''hash'' \<noteq> [] \<and>
    values_get m ''hash'' = hex_encode (tl_hmac lib (tl_hmac lib ''WebAppData'' (trim_space token)) (check_string m)) \<and>
    parse_int (values_get m ''auth_date'') = Some s \<and>
    unix_time s \<le> now + 30 * second \<and> now \<le> unix_time s + (if age \<le> 0 then 24 * hour else age) \<and>
    decode_user lib (values_get m ''user'') = Some u \<and> tu_id u \<noteq> 0 \<and> is_int64 (tu_id u) \<and>
    d = \<lparr>ld_user = u, ld_auth_date = unix_time s, ld_query_id = values_get m ''query_id'',
          ld_start_param = values_get m ''start_param'', ld_chat_type = values_get m ''chat_type'',
          ld_chat_id = parse_chat (values_get m ''chat_instance'')\<rparr>)"
proof -
  note v = new_verifier_fields [OF assms(1)]
  have "is_int64 (tv_max_age v)" "tv_max_age v < int64_max"
    using assms(2,3) by (auto simp: v is_int64_def int64_min_def int64_max_def duration_units)
  note r = read_launch_exact [OF this, of lib now _ d]
  have "tg_verify lib v now init = Inr d \<longleftrightarrow> (\<exists>m. parse_query (tl_max_params lib) init = Some m \<and>
      values_get m ''hash'' \<noteq> [] \<and> tg_sign lib v m = values_get m ''hash'' \<and> read_launch lib v now m = Inr d)"
    by (auto simp: tg_verify_def Let_def split: option.splits)
  also have "\<dots> \<longleftrightarrow> (\<exists>m. parse_query (tl_max_params lib) init = Some m \<and> values_get m ''hash'' \<noteq> [] \<and>
      values_get m ''hash'' = hex_encode (tl_hmac lib (tl_hmac lib ''WebAppData'' (trim_space token)) (check_string m)) \<and>
      read_launch lib v now m = Inr d)"
    by (auto simp: tg_sign_def v)
  finally show ?thesis unfolding r using decode_user_int64 by (simp add: v) blast
qed

text \<open>A digest that is the length of what it covers, for the examples.\<close>

definition plain_lib :: telegram_lib where
  "plain_lib = \<lparr>tl_hmac = (\<lambda>k m. [char_of (length k + length m)]), tl_max_params = 10000, tl_fold = (\<lambda>a b. a = b)\<rparr>"

definition plain_verifier :: tg_verifier where
  "plain_verifier = \<lparr>tv_secret = [char_of (11 :: nat)], tv_max_age = 24 * hour, tv_clock_skew = 30 * second\<rparr>"

definition sample_fields :: url_values where
  "sample_fields = [(''user'', [''{'' @ [dquote] @ ''id'' @ [dquote] @ '':7}'']), (''auth_date'', [''1000''])]"

definition sample_launch :: launch_data where
  "sample_launch = \<lparr>ld_user = zero_user\<lparr>tu_id := 7\<rparr>, ld_auth_date = unix_time 1000, ld_query_id = [],
     ld_start_param = [], ld_chat_type = [], ld_chat_id = 0\<rparr>"

lemma read_sample: "read_launch plain_lib plain_verifier (unix_time 1000) sample_fields = Inr sample_launch"
  by code_simp

lemma plain_verifier_new: "new_verifier plain_lib ''s'' 0 = Inr plain_verifier"
proof -
  have "trim_space ''s'' = ''s''" by (rule trim_space_visible(1)) (simp_all add: visible_def byte_val_def)
  then show ?thesis by (simp add: new_verifier_def plain_lib_def plain_verifier_def)
qed

text \<open>C13. A hash commits to the launch when the fields are plain, that is no name holds \<open>=\<close> or a line break and no value
  a line break (\<open>field_boundaries_unsigned\<close> is what happens otherwise): two launches of one bot that are accepted
  with the same hash, at any two instants, carry the same data, or the two check strings are a collision of the
  HMAC.\<close>

theorem hash_binds_launch:
  assumes "tg_verify lib v n1 i1 = Inr d1" and "tg_verify lib v n2 i2 = Inr d2"
    and "parse_query (tl_max_params lib) i1 = Some m1" and "parse_query (tl_max_params lib) i2 = Some m2"
    and "values_get m1 ''hash'' = values_get m2 ''hash''" and "plain_fields m1" and "plain_fields m2"
  shows "d1 = d2 \<or> (check_string m1 \<noteq> check_string m2 \<and>
    tl_hmac lib (tv_secret v) (check_string m1) = tl_hmac lib (tv_secret v) (check_string m2))"
proof (cases "check_string m1 = check_string m2")
  case True
  have r: "read_launch lib v n1 m1 = Inr d1" "read_launch lib v n2 m2 = Inr d2"
    using assms(1-4) by (auto simp: tg_verify_def Let_def split: if_splits)
  have "read_launch lib v n2 m2 = read_launch lib v n2 m1"
    by (rule read_launch_values [symmetric]) (rule check_string_inj [OF assms(6,7) True])
  then have "d1 = d2" using r
    by (auto simp: read_launch_def Let_def split: option.splits if_splits)
  then show ?thesis by blast
next
  case False
  moreover have "tg_sign lib v m1 = tg_sign lib v m2"
    using assms(1-5) by (auto simp: tg_verify_def Let_def split: if_splits)
  ultimately show ?thesis by (auto simp: tg_sign_def dest: hex_encode_inj)
qed

definition sample_hash_text :: string where
  "sample_hash_text = tg_sign plain_lib plain_verifier sample_fields"

definition sample_inits :: "string \<times> string" where
  "sample_inits = (''auth_date=1000&user=%7B%22id%22%3A7%7D&hash='' @ sample_hash_text,
     ''user=%7B%22id%22%3a7%7d&hash='' @ sample_hash_text @ ''&auth_date=1000'')"

definition sample_parsed :: "url_values \<times> url_values" where
  "sample_parsed = ([(''auth_date'', [''1000'']), (''user'', [''{'' @ [dquote] @ ''id'' @ [dquote] @ '':7}'']), (''hash'', [sample_hash_text])],
     [(''user'', [''{'' @ [dquote] @ ''id'' @ [dquote] @ '':7}'']), (''hash'', [sample_hash_text]), (''auth_date'', [''1000''])])"

lemma sample_inits_parsed:
  "parse_query (tl_max_params plain_lib) (fst sample_inits) = Some (fst sample_parsed)"
  "parse_query (tl_max_params plain_lib) (snd sample_inits) = Some (snd sample_parsed)"
  by code_simp+

lemma sample_parsed_plain: "plain_fields (fst sample_parsed)" "plain_fields (snd sample_parsed)"
  by code_simp+

lemma sample_parsed_get:
  "values_get (fst sample_parsed) = values_get ((''hash'', [sample_hash_text]) # sample_fields)"
  "values_get (snd sample_parsed) = values_get ((''hash'', [sample_hash_text]) # sample_fields)"
  by (auto simp: sample_parsed_def sample_fields_def values_get_def fun_eq_iff)

lemma sample_parsed_check:
  "check_string (fst sample_parsed) = check_string sample_fields" "check_string (snd sample_parsed) = check_string sample_fields"
  by code_simp+

lemma sample_inits_accepted:
  "tg_verify plain_lib plain_verifier (unix_time 1000) (fst sample_inits) = Inr sample_launch"
  "tg_verify plain_lib plain_verifier (unix_time 1000) (snd sample_inits) = Inr sample_launch"
proof -
  have r: "read_launch plain_lib plain_verifier (unix_time 1000) m = Inr sample_launch"
    if "values_get m = values_get ((''hash'', [sample_hash_text]) # sample_fields)" for m
    using read_launch_values [of m sample_fields] that read_sample by (simp add: values_get_def)
  have "sample_hash_text \<noteq> []" by (simp add: sample_hash_text_def tg_sign_def plain_lib_def plain_verifier_def)
  moreover have "tg_sign plain_lib plain_verifier (fst sample_parsed) = sample_hash_text"
    "tg_sign plain_lib plain_verifier (snd sample_parsed) = sample_hash_text"
    by (simp_all only: tg_sign_def sample_parsed_check sample_hash_text_def)
  moreover have "values_get (fst sample_parsed) ''hash'' = sample_hash_text" "values_get (snd sample_parsed) ''hash'' = sample_hash_text"
    by (simp_all add: sample_parsed_get) (simp_all add: values_get_def)
  ultimately show "tg_verify plain_lib plain_verifier (unix_time 1000) (fst sample_inits) = Inr sample_launch"
    "tg_verify plain_lib plain_verifier (unix_time 1000) (snd sample_inits) = Inr sample_launch"
    using r [OF sample_parsed_get(1)] r [OF sample_parsed_get(2)]
    by (simp_all add: tg_verify_def sample_inits_parsed)
qed

text \<open>The sample is accepted, so it has the properties of accepted launches.\<close>

theorem launch_accepted_exact_witness:
  "\<exists>m u. parse_query (tl_max_params plain_lib) (fst sample_inits) = Some m \<and> decode_user plain_lib (values_get m ''user'') = Some u \<and>
     tu_id u \<noteq> 0 \<and> ld_user sample_launch = u"
proof -
  have "is_int64 0" "(0 :: int) < int64_max" by (simp_all add: is_int64_def int64_min_def int64_max_def)
  note exact = launch_accepted_exact [OF plain_verifier_new this, of "unix_time 1000" "fst sample_inits" sample_launch]
  obtain m s u where "parse_query (tl_max_params plain_lib) (fst sample_inits) = Some m"
    "decode_user plain_lib (values_get m ''user'') = Some u" "tu_id u \<noteq> 0"
    and d: "sample_launch = \<lparr>ld_user = u, ld_auth_date = unix_time s, ld_query_id = values_get m ''query_id'',
      ld_start_param = values_get m ''start_param'', ld_chat_type = values_get m ''chat_type'',
      ld_chat_id = parse_chat (values_get m ''chat_instance'')\<rparr>"
    using exact [THEN iffD1, OF sample_inits_accepted(1)] by blast
  moreover have "ld_user sample_launch = u" by (subst d) simp
  ultimately show ?thesis by blast
qed

theorem hash_binds_launch_witness:
  "sample_launch = sample_launch \<and> check_string (fst sample_parsed) = check_string (snd sample_parsed)"
  using hash_binds_launch [OF sample_inits_accepted sample_inits_parsed _ sample_parsed_plain]
  by (simp add: sample_parsed_get sample_parsed_check)

text \<open>The signature does not cover where a field begins: the launch whose \<open>start_param\<close> holds a line break and
  the text of a \<open>user\<close> field has the hash of the launch that carries that user as a field of its own, so
  parameters the bot's key signed for nobody are accepted as those of a user.\<close>

theorem field_boundaries_unsigned:
  fixes a x u :: string
  defines "m \<equiv> [(''auth_date'', [a]), (''start_param'', [x @ line_feed @ ''user='' @ u])]"
    and "m' \<equiv> [(''auth_date'', [a]), (''start_param'', [x]), (''user'', [u])]"
  shows "tg_sign lib v m = tg_sign lib v m' \<and> values_get m ''user'' = [] \<and> values_get m' ''user'' = u"
  unfolding m_def m'_def
  by (simp add: tg_sign_def check_string_def signed_keys_def check_line_def values_get_def line_feed_def)

end
