(* ===== verification/Go_Base64.thy ===== *)
theory Go_Base64
  imports Go_Prelude
begin

text \<open>
  The part of \<open>encoding/base64\<close> the module calls: \<open>RawURLEncoding\<close> and \<open>StdEncoding\<close>. The flag \<open>url\<close> selects
  the alphabet. The decoder drops carriage returns and line feeds, wants the padding, and does not look at
  the unused bits of the last character, like the library's.
\<close>

section \<open>Encoding\<close>

definition b64_char :: "bool \<Rightarrow> nat \<Rightarrow> char" where
  "b64_char url n =
     (if n < 26 then char_of (65 + n) else if n < 52 then char_of (71 + n) else if n < 62 then char_of (n - 4)
      else if n = 62 then (if url then CHR ''-'' else CHR ''+'') else (if url then CHR ''_'' else CHR ''/''))"

fun b64_encode :: "bool \<Rightarrow> bool \<Rightarrow> string \<Rightarrow> string" where
  "b64_encode url pad [] = []"
| "b64_encode url pad [a] = (let x = byte_val a
     in [b64_char url (x div 4), b64_char url (x mod 4 * 16)] @ (if pad then ''=='' else []))"
| "b64_encode url pad [a, b] = (let x = byte_val a; y = byte_val b
     in [b64_char url (x div 4), b64_char url (x mod 4 * 16 + y div 16), b64_char url (y mod 16 * 4)] @ (if pad then ''='' else []))"
| "b64_encode url pad (a # b # c # s) = (let x = byte_val a; y = byte_val b; z = byte_val c
     in [b64_char url (x div 4), b64_char url (x mod 4 * 16 + y div 16), b64_char url (y mod 16 * 4 + z div 64),
         b64_char url (z mod 64)] @ b64_encode url pad s)"

abbreviation raw_url_encode :: "string \<Rightarrow> string" where "raw_url_encode \<equiv> b64_encode True False"
abbreviation std_encode :: "string \<Rightarrow> string" where "std_encode \<equiv> b64_encode False True"

section \<open>Decoding\<close>

definition b64_value :: "bool \<Rightarrow> char \<Rightarrow> nat option" where
  "b64_value url c = (let n = byte_val c in
     if 65 \<le> n \<and> n \<le> 90 then Some (n - 65)
     else if 97 \<le> n \<and> n \<le> 122 then Some (n - 71)
     else if 48 \<le> n \<and> n \<le> 57 then Some (n + 4)
     else if c = (if url then CHR ''-'' else CHR ''+'') then Some 62
     else if c = (if url then CHR ''_'' else CHR ''/'') then Some 63 else None)"

fun b64_values :: "bool \<Rightarrow> string \<Rightarrow> nat list option" where
  "b64_values url [] = Some []"
| "b64_values url (c # s) = (case b64_value url c of
       None \<Rightarrow> None | Some n \<Rightarrow> map_option (Cons n) (b64_values url s))"

fun b64_quanta :: "string \<Rightarrow> string option" where
  "b64_quanta [] = Some []"
| "b64_quanta (a # b # c # d # s) =
     (if d = CHR ''='' \<and> s = [] then
        (if c = CHR ''='' then
           (case b64_values False [a, b] of Some [p, q] \<Rightarrow> Some [char_of (p * 4 + q div 16)] | _ \<Rightarrow> None)
         else (case b64_values False [a, b, c] of
             Some [p, q, r] \<Rightarrow> Some [char_of (p * 4 + q div 16), char_of (q mod 16 * 16 + r div 4)] | _ \<Rightarrow> None))
      else (case b64_values False [a, b, c, d] of
          Some [p, q, r, t] \<Rightarrow> map_option (\<lambda>u. char_of (p * 4 + q div 16) # char_of (q mod 16 * 16 + r div 4)
              # char_of (r mod 4 * 64 + t) # u) (b64_quanta s)
        | _ \<Rightarrow> None))"
| "b64_quanta s = None"

definition std_decode :: "string \<Rightarrow> string option" where
  "std_decode s = b64_quanta (filter (\<lambda>c. c \<noteq> CHR 0x0A \<and> c \<noteq> CHR 0x0D) s)"

section \<open>Round trip\<close>

lemma b64_value_char [simp]: "n < 64 \<Longrightarrow> b64_value url (b64_char url n) = Some n"
  by (cases url) (auto simp: b64_value_def b64_char_def Let_def, auto simp: byte_val_def)

lemma byte_val_b64_char: "n < 64 \<Longrightarrow> byte_val (b64_char url n) \<notin> {61, 10, 13, 46}"
  by (cases url) (auto simp: b64_char_def, auto simp: byte_val_def)

lemma b64_char_plain: "n < 64 \<Longrightarrow> b64_char url n \<notin> {CHR ''='', CHR 0x0A, CHR 0x0D, CHR ''.''}"
  using byte_val_b64_char [of n url] by (auto simp: byte_val_def)

lemma six_bits [simp]:
  "byte_val a div 4 < 64" "byte_val a mod 4 * 16 < 64" "byte_val a mod 4 * 16 + byte_val b div 16 < 64"
  "byte_val a mod 16 * 4 < 64" "byte_val a mod 16 * 4 + byte_val b div 64 < 64" "byte_val a mod 64 < 64"
  using byte_val_less [of a] byte_val_less [of b] by linarith+

lemma b64_char_not [simp]:
  "n < 64 \<Longrightarrow> b64_char url n \<noteq> CHR ''=''" "n < 64 \<Longrightarrow> b64_char url n \<noteq> CHR 0x0A" "n < 64 \<Longrightarrow> b64_char url n \<noteq> CHR 0x0D"
  "n < 64 \<Longrightarrow> b64_char url n \<noteq> CHR ''.''"
  using b64_char_plain [of n url] by blast+

lemma byte_parts [simp]:
  "byte_val a div 16 div 16 = 0" "byte_val a div 16 mod 16 = byte_val a div 16"
  "byte_val a div 64 div 4 = 0" "byte_val a div 64 mod 4 = byte_val a div 64"
  using byte_val_less [of a] by (simp_all add: div_mult2_eq [symmetric] less_mult_imp_div_less)

lemma char_of_byte_val [simp]: "char_of (byte_val a) = a"
  by (simp add: byte_val_def)

lemma filter_encode: "filter (\<lambda>c. c \<noteq> CHR 0x0A \<and> c \<noteq> CHR 0x0D) (b64_encode url pad s) = b64_encode url pad s"
  by (induction url pad s rule: b64_encode.induct) (auto simp: Let_def)

lemma std_decode_encode: "std_decode (std_encode s) = Some s"
proof -
  have "b64_quanta (std_encode s) = Some s"
    by (induction False True s rule: b64_encode.induct) (simp_all add: Let_def add.assoc [symmetric])
  then show ?thesis by (simp add: std_decode_def filter_encode)
qed

lemma b64_encode_plain: "CHR ''.'' \<notin> set (b64_encode url pad s)"
  by (induction url pad s rule: b64_encode.induct) (auto simp: Let_def dest!: sym [of "CHR ''.''"])

text \<open>The encoding without padding is injective: its characters are read back in groups.\<close>

fun b64_join :: "nat list \<Rightarrow> string" where
  "b64_join (p # q # r # t # ns) = char_of (p * 4 + q div 16) # char_of (q mod 16 * 16 + r div 4) # char_of (r mod 4 * 64 + t) # b64_join ns"
| "b64_join [p, q, r] = [char_of (p * 4 + q div 16), char_of (q mod 16 * 16 + r div 4)]"
| "b64_join [p, q] = [char_of (p * 4 + q div 16)]"
| "b64_join ns = []"

lemma raw_encode_read: "map_option b64_join (b64_values True (raw_url_encode s)) = Some s"
proof (induction True False s rule: b64_encode.induct)
  case (4 a b c s)
  obtain ns where "b64_values True (raw_url_encode s) = Some ns" "b64_join ns = s" using 4 [OF refl refl refl] by auto
  then show ?case by (simp add: Let_def add.assoc [symmetric])
qed (simp_all add: Let_def add.assoc [symmetric])

lemma raw_url_encode_inj: "raw_url_encode s = raw_url_encode t \<Longrightarrow> s = t"
  using raw_encode_read [of s] raw_encode_read [of t] by (metis option.inject)

end
