(* ===== verification/Callback.thy ===== *)
theory Callback
  imports Go_Base64 Json_Struct
begin

text \<open>
  \<open>src/providers/callback.go\<close>: the verifier of inbound provider callbacks. SHA-256, HMAC, the RFC 3339
  parser, the Unicode case tables and the verification of a compact JWS against the provider's key set are
  arguments (\<open>callback_lib\<close> and \<open>cv_jwks\<close>); the clock is an argument of the operation. What the key set
  promises is \<open>jwks_laws\<close>: it returns the payload that the middle segment encodes. Metrics are not modelled.
\<close>

section \<open>The model\<close>

record callback_lib =
  cl_sha :: "string \<Rightarrow> string"
  cl_hmac :: "string \<Rightarrow> string \<Rightarrow> string"
  cl_parse_time :: "string \<Rightarrow> go_time option"
  cl_uni :: "string \<Rightarrow> string"
  cl_fold :: "string \<Rightarrow> string \<Rightarrow> bool"

definition err_signature_invalid :: go_error where
  "err_signature_invalid = Sentinel ''callback signature is invalid''"
definition err_timestamp_skew :: go_error where
  "err_timestamp_skew = Sentinel ''callback timestamp is outside the replay window''"
definition err_payload_mismatch :: go_error where
  "err_payload_mismatch = Sentinel ''callback signature does not cover this payload''"

definition replay_window :: duration where "replay_window = 5 * minute"

record callback_verifier =
  cv_name :: string
  cv_jwks :: "(string \<Rightarrow> go_error + string) option"
  cv_shared_secret :: string
  cv_audience :: string

definition new_callback_verifier :: "string \<Rightarrow> (string \<Rightarrow> string \<Rightarrow> go_error + string) \<Rightarrow> string \<Rightarrow> string \<Rightarrow> string \<Rightarrow> callback_verifier" where
  "new_callback_verifier name remote_key_set jwks_url secret audience =
     \<lparr>cv_name = name, cv_jwks = (if jwks_url \<noteq> [] then Some (remote_key_set jwks_url) else None),
      cv_shared_secret = secret, cv_audience = audience\<rparr>"

definition configured :: "callback_verifier \<Rightarrow> bool" where
  "configured v \<longleftrightarrow> cv_jwks v \<noteq> None \<or> cv_shared_secret v \<noteq> []"

text \<open>The drift is negated in an \<open>int64\<close>.\<close>

definition check_timestamp :: "callback_lib \<Rightarrow> go_time \<Rightarrow> string \<Rightarrow> go_error option" where
  "check_timestamp lib now raw =
     (if raw = [] then Some (wrap_err ''missing timestamp'' err_timestamp_skew)
      else (case cl_parse_time lib raw of
          None \<Rightarrow> Some (wrap_err ''unparseable timestamp'' err_timestamp_skew)
        | Some t \<Rightarrow>
            (let drift = time_sub now t; drift = (if drift < 0 then wrap64 (- drift) else drift)
             in if replay_window < drift then Some (wrap_err raw err_timestamp_skew) else None)))"

text \<open>\<open>json.Marshal\<close> of the map of claims, its keys sorted.\<close>

definition claims_json :: "string \<Rightarrow> string \<Rightarrow> string" where
  "claims_json audience digest =
     ''{'' @ json_quote ''aud'' @ '':'' @ json_quote audience @ '','' @ json_quote ''payload_sha256'' @ '':'' @ json_quote digest @ ''}''"

record jws_payload =
  jp_digest :: string
  jp_audience :: string

definition put_payload :: "string \<Rightarrow> json \<Rightarrow> jws_payload \<Rightarrow> jws_payload option" where
  "put_payload n v p = (if n = ''payload_sha256'' then map_option (\<lambda>s. p\<lparr>jp_digest := s\<rparr>) (take_string v (jp_digest p))
     else map_option (\<lambda>s. p\<lparr>jp_audience := s\<rparr>) (take_string v (jp_audience p)))"

definition decode_payload :: "callback_lib \<Rightarrow> string \<Rightarrow> jws_payload option" where
  "decode_payload lib = unmarshal_struct (cl_fold lib) [''payload_sha256'', ''aud''] put_payload \<lparr>jp_digest = [], jp_audience = []\<rparr>"

definition encoded_digest :: "callback_lib \<Rightarrow> string \<Rightarrow> string" where
  "encoded_digest lib body = raw_url_encode (cl_sha lib body)"

definition reattached :: "callback_lib \<Rightarrow> callback_verifier \<Rightarrow> string \<Rightarrow> string \<Rightarrow> string \<Rightarrow> string" where
  "reattached lib v header body sig =
     header @ ''.'' @ raw_url_encode (claims_json (cv_audience v) (encoded_digest lib body)) @ ''.'' @ sig"

definition verify_detached_jws :: "callback_lib \<Rightarrow> callback_verifier \<Rightarrow> (string \<Rightarrow> go_error + string) \<Rightarrow> string \<Rightarrow> string \<Rightarrow> go_error option" where
  "verify_detached_jws lib v jwks signature body = (case split_on (CHR ''.'') signature of
       [header, middle, sig] \<Rightarrow>
         (case jwks (reattached lib v header body sig) of
            Inl e \<Rightarrow> Some (Wrapped ''%w: %w'' [err_signature_invalid, e])
          | Inr verified \<Rightarrow>
              (case decode_payload lib verified of
                 None \<Rightarrow> Some (wrap_err ''json'' err_signature_invalid)
               | Some p \<Rightarrow>
                   if jp_digest p \<noteq> encoded_digest lib body then Some err_payload_mismatch
                   else if cv_audience v \<noteq> [] \<and> jp_audience p \<noteq> cv_audience v
                   then Some (wrap_err ''audience mismatch'' err_signature_invalid)
                   else None))
     | _ \<Rightarrow> Some (wrap_err ''detached JWS must have three segments'' err_signature_invalid))"

definition callback_mac :: "callback_lib \<Rightarrow> string \<Rightarrow> string \<Rightarrow> string \<Rightarrow> string" where
  "callback_mac lib secret timestamp body = hex_encode (cl_hmac lib secret (timestamp @ ''.'' @ body))"

definition verify_hmac :: "callback_lib \<Rightarrow> callback_verifier \<Rightarrow> string \<Rightarrow> string \<Rightarrow> string \<Rightarrow> go_error option" where
  "verify_hmac lib v signature timestamp body =
     (if to_lower (cl_uni lib) (trim_prefix signature ''sha256='') \<noteq> callback_mac lib (cv_shared_secret v) timestamp body
      then Some err_signature_invalid else None)"

definition verify_callback :: "callback_lib \<Rightarrow> callback_verifier \<Rightarrow> go_time \<Rightarrow> string \<Rightarrow> string \<Rightarrow> string \<Rightarrow> go_error option" where
  "verify_callback lib v now signature timestamp body =
     (if \<not> configured v then Some (wrap_err (''no verification material configured for '' @ cv_name v) err_signature_invalid)
      else (case check_timestamp lib now timestamp of
          Some e \<Rightarrow> Some e
        | None \<Rightarrow>
            (case cv_jwks v of
               None \<Rightarrow> verify_hmac lib v signature timestamp body
             | Some jwks \<Rightarrow>
                 (case verify_detached_jws lib v jwks signature body of
                    None \<Rightarrow> None
                  | Some e \<Rightarrow> if cv_shared_secret v = [] then Some e
                              else verify_hmac lib v signature timestamp body))))"

definition sign_hmac :: "callback_lib \<Rightarrow> string \<Rightarrow> string \<Rightarrow> string \<Rightarrow> string" where
  "sign_hmac lib secret timestamp body = ''sha256='' @ callback_mac lib secret timestamp body"

section \<open>Lemmas\<close>

text \<open>The timestamps the check lets through: five minutes around the clock, and everything so far in the future
  that the difference does not fit a duration.\<close>

definition fresh_stamp :: "go_time \<Rightarrow> go_time \<Rightarrow> bool" where
  "fresh_stamp now t \<longleftrightarrow> \<bar>now - t\<bar> \<le> replay_window \<or> 2 ^ 63 \<le> t - now"

lemma replay_window_value: "replay_window = 300000000000"
  by (simp add: replay_window_def duration_units)

lemma wrap64_min: "wrap64 (2 ^ 63) = - (2 ^ 63)"
  by (simp add: wrap64_mod)

lemma drift_window:
  "(let drift = time_sub now t in (if drift < 0 then wrap64 (- drift) else drift)) \<le> replay_window \<longleftrightarrow> fresh_stamp now t"
proof (cases "now - t \<le> int64_min")
  case True
  then have "time_sub now t = int64_min" by (simp add: time_sub_def int64_min_def int64_max_def)
  then show ?thesis using True wrap64_min
    by (simp add: Let_def fresh_stamp_def int64_min_def replay_window_value)
next
  case False
  then have "\<not> 2 ^ 63 \<le> t - now" by (simp add: int64_min_def)
  moreover have "time_sub now t = min int64_max (now - t)" using False by (simp add: time_sub_def int64_min_def int64_max_def)
  moreover have "wrap64 (- min int64_max (now - t)) = - min int64_max (now - t)" if "now < t"
    using False that by (intro wrap64_id) (simp add: is_int64_def int64_min_def int64_max_def)
  ultimately show ?thesis
    by (auto simp: Let_def fresh_stamp_def replay_window_value int64_max_def min_def split: if_splits)
qed

lemma check_timestamp_None:
  "check_timestamp lib now raw = None \<longleftrightarrow> raw \<noteq> [] \<and> (\<exists>t. cl_parse_time lib raw = Some t \<and> fresh_stamp now t)"
  by (auto simp: check_timestamp_def drift_window [symmetric] Let_def not_less split: option.splits if_splits)

lemma hex_lower: "list_all is_ascii (hex_encode s) \<and> map ascii_lower (hex_encode s) = hex_encode s"
proof (induction s)
  case (Cons c s)
  have "byte_val c div 16 < 16" using byte_val_less [of c] by linarith
  moreover have "is_ascii (hex_digit d) \<and> ascii_lower (hex_digit d) = hex_digit d" if "d < 16" for d
    using that by (auto simp: is_ascii_def ascii_lower_def hex_digit_def)
  ultimately show ?case using Cons by simp
qed simp

lemma to_lower_mac [simp]: "to_lower uni (callback_mac lib k ts b) = callback_mac lib k ts b"
  using hex_lower by (simp add: to_lower_def callback_mac_def)

text \<open>The claims are read back as they were written.\<close>

lemma json_quote_Cons: "json_quote s @ r = dquote # escape_body s @ dquote # r"
  by (simp add: json_quote_def)

lemma skip_ws_quote [simp]: "skip_ws (dquote # r) = dquote # r" "skip_ws (CHR ''{'' # r) = CHR ''{'' # r"
  "skip_ws (CHR '':'' # r) = CHR '':'' # r" "skip_ws (CHR '','' # r) = CHR '','' # r" "skip_ws (CHR ''}'' # r) = CHR ''}'' # r"
  by (simp_all add: skip_ws_def json_ws_def dquote_def byte_val_def)

lemma dquote_neq [simp]: "dquote \<noteq> CHR ''{''" "dquote \<noteq> CHR ''}''" "dquote \<noteq> CHR ''[''" "CHR ''{'' \<noteq> dquote" "CHR ''}'' \<noteq> dquote"
  by (simp_all add: dquote_def)

lemma pval_quote: "utf8_ok s \<Longrightarrow> pval num (Suc n) (dquote # escape_body s @ dquote # r) = Some (JStr s, r)"
  by (simp add: pstr_escape)

lemma pmembers_quote:
  assumes "utf8_ok k" and "utf8_ok v"
  shows "pmembers num (Suc (Suc n)) (dquote # escape_body k @ dquote # CHR '':'' # dquote # escape_body v @ dquote # CHR '','' # r)
      = map_option (\<lambda>(ms, t). ((k, JStr v) # ms, t)) (pmembers num (Suc n) r)"
    and "pmembers num (Suc (Suc n)) (dquote # escape_body k @ dquote # CHR '':'' # dquote # escape_body v @ dquote # CHR ''}'' # r)
      = Some ([(k, JStr v)], r)"
  using assms by (simp_all add: pstr_escape pval_quote del: pval.simps)

definition claims_members :: "string \<Rightarrow> string \<Rightarrow> (string \<times> json) list" where
  "claims_members audience digest = [(''aud'', JStr audience), (''payload_sha256'', JStr digest)]"

lemma ascii_utf8: "utf8_ok ''aud''" "utf8_ok ''payload_sha256''"
  by (simp_all add: byte_val_def)

lemma claims_json_Cons:
  "claims_json a d = CHR ''{'' # dquote # escape_body ''aud'' @ dquote # CHR '':'' # dquote # escape_body a @ dquote # CHR '','' #
     dquote # escape_body ''payload_sha256'' @ dquote # CHR '':'' # dquote # escape_body d @ dquote # CHR ''}'' # []"
  by (simp add: claims_json_def json_quote_def)

lemma pmembers_claims:
  assumes "utf8_ok a" and "utf8_ok d"
  shows "pmembers num (Suc (Suc (Suc n))) (tl (claims_json a d)) = Some (claims_members a d, [])"
  unfolding claims_json_Cons list.sel(3) pmembers_quote(1) [OF ascii_utf8(1) assms(1)] pmembers_quote(2) [OF ascii_utf8(2) assms(2)]
  by (simp add: claims_members_def)

lemma fuel_claims: obtains n where "parse_fuel (claims_json a d) = Suc (Suc (Suc (Suc n)))"
proof
  show "parse_fuel (claims_json a d) = Suc (Suc (Suc (Suc (2 * (length (claims_json a d) - 1)))))"
    by (simp add: parse_fuel_def claims_json_Cons)
qed

lemma raw_claims:
  assumes "utf8_ok a" and "utf8_ok d"
  shows "raw_document (claims_json a d) = Some (Inr (claims_members a d))"
proof -
  obtain n where n: "parse_fuel (claims_json a d) = Suc (Suc (Suc (Suc n)))" by (rule fuel_claims)
  obtain r where r: "claims_json a d = CHR ''{'' # dquote # r" "tl (claims_json a d) = dquote # r"
    by (simp add: claims_json_Cons)
  have "pval Some (Suc (Suc (Suc (Suc n)))) (claims_json a d) = Some (JObj (obj_of (claims_members a d)), [])"
    using pmembers_claims [OF assms, of Some n] unfolding r(1) r(2)
    by (simp del: pmembers.simps)
  moreover have "skip_ws [] = []" by (simp add: skip_ws_def)
  ultimately have "unmarshal Some (claims_json a d) = Some (JObj (obj_of (claims_members a d)))"
    by (simp add: unmarshal_def n del: pval.simps)
  moreover have "pmembers Some (parse_fuel (claims_json a d)) (dquote # r) = Some (claims_members a d, [])"
    using pmembers_claims [OF assms, of Some "Suc n"] unfolding r(2) n .
  moreover have "skip_ws (tl (skip_ws (claims_json a d))) = dquote # r" by (simp add: r(1))
  ultimately show ?thesis by (simp add: raw_document_def del: pmembers.simps)
qed

lemma decode_claims:
  assumes "utf8_ok a" and "utf8_ok d"
  shows "decode_payload lib (claims_json a d) = Some \<lparr>jp_digest = d, jp_audience = a\<rparr>"
  by (simp add: decode_payload_def unmarshal_struct_def raw_claims [OF assms] claims_members_def match_field_def
      put_payload_def take_string_def)

lemma ascii_utf8_ok: "list_all (\<lambda>c. byte_val c < 128) s \<Longrightarrow> utf8_ok s"
  by (induction s) auto

lemma b64_ascii: "list_all (\<lambda>c. byte_val c < 128) (b64_encode url pad s)"
proof -
  have "byte_val (b64_char url n) < 128" if "n < 64" for n
    using that by (cases url) (auto simp: b64_char_def, auto simp: byte_val_def)
  then show ?thesis by (induction url pad s rule: b64_encode.induct) (auto simp: Let_def, auto simp: byte_val_def)
qed

lemma utf8_encoded_digest [simp]: "utf8_ok (encoded_digest lib body)"
  unfolding encoded_digest_def by (rule ascii_utf8_ok) (rule b64_ascii)

text \<open>The key set answers a token that carries a valid signature with the payload its middle segment encodes.\<close>

definition jwks_laws :: "(string \<Rightarrow> go_error + string) \<Rightarrow> bool" where
  "jwks_laws jwks \<longleftrightarrow> (\<forall>h p s. (\<exists>e. jwks (h @ ''.'' @ raw_url_encode p @ ''.'' @ s) = Inl e) \<or>
     jwks (h @ ''.'' @ raw_url_encode p @ ''.'' @ s) = Inr p)"

lemma jwks_payload: "jwks_laws jwks \<Longrightarrow> jwks (h @ ''.'' @ raw_url_encode p @ ''.'' @ s) = Inr q \<Longrightarrow> q = p"
  unfolding jwks_laws_def by (metis sum.distinct(1) sum.inject(2))

lemma detached_jws_None:
  assumes "jwks_laws jwks" and "utf8_ok (cv_audience v)"
  shows "verify_detached_jws lib v jwks signature body = None \<longleftrightarrow>
    (\<exists>h x s p. split_on (CHR ''.'') signature = [h, x, s] \<and> jwks (reattached lib v h body s) = Inr p)"
proof -
  have p: "p = claims_json (cv_audience v) (encoded_digest lib body)" if "jwks (reattached lib v h body s) = Inr p" for h s p
    using jwks_payload [OF assms(1) that [unfolded reattached_def]] .
  show ?thesis
    by (auto simp: verify_detached_jws_def decode_claims [OF assms(2) utf8_encoded_digest] dest!: p
        split: list.splits sum.splits)
qed

section \<open>Properties\<close>

lemma sign_hmac_trim: "trim_prefix (sign_hmac lib k ts body) ''sha256='' = callback_mac lib k ts body"
  unfolding sign_hmac_def by (rule trim_prefix_append)

lemma verify_secret:
  assumes "cv_jwks v = None" and "cv_shared_secret v \<noteq> []"
  shows "verify_callback lib v now signature ts body =
    (case check_timestamp lib now ts of Some e \<Rightarrow> Some e | None \<Rightarrow> verify_hmac lib v signature ts body)"
  using assms by (simp add: verify_callback_def configured_def split: option.split)

lemma verify_sign_hmac:
  "cv_jwks v = None \<Longrightarrow> cv_shared_secret v \<noteq> [] \<Longrightarrow>
     verify_callback lib v now (sign_hmac lib (cv_shared_secret v) ts body) ts body = check_timestamp lib now ts"
  by (simp add: verify_secret verify_hmac_def sign_hmac_trim split: option.split)

text \<open>C27. With a shared secret, a callback is accepted exactly when its timestamp is in the window and its
  signature is the MAC of timestamp and body, in any letter case and with or without the prefix \<open>sha256=\<close>, so
  what \<open>SignHMAC\<close> signs is accepted in the window; and the window is five minutes to both sides of the clock, and
  open again from \<open>2 ^ 63\<close> nanoseconds (292 years) into the future, where the negated drift overflows.\<close>

theorem hmac_callback_exact:
  assumes "cv_jwks v = None" and "cv_shared_secret v \<noteq> []"
  shows "(verify_callback lib v now signature ts body = None \<longleftrightarrow>
      ts \<noteq> [] \<and> (\<exists>t. cl_parse_time lib ts = Some t \<and> (\<bar>now - t\<bar> \<le> replay_window \<or> 2 ^ 63 \<le> t - now)) \<and>
      to_lower (cl_uni lib) (trim_prefix signature ''sha256='') = callback_mac lib (cv_shared_secret v) ts body) \<and>
    verify_callback lib v now (sign_hmac lib (cv_shared_secret v) ts body) ts body = check_timestamp lib now ts"
  using check_timestamp_None [of lib now ts, unfolded fresh_stamp_def]
  by (auto simp: verify_sign_hmac [OF assms] verify_secret [OF assms] verify_hmac_def sign_hmac_trim split: option.splits)

definition zulu_lib :: callback_lib where
  "zulu_lib = \<lparr>cl_sha = (\<lambda>s. s), cl_hmac = (\<lambda>k m. k @ m), cl_parse_time = [''7Z'' \<mapsto> 7, ''9Z'' \<mapsto> 2 ^ 63 - 1],
     cl_uni = (\<lambda>s. s), cl_fold = (\<lambda>a b. a = b)\<rparr>"

definition secret_verifier :: callback_verifier where
  "secret_verifier = new_callback_verifier ''payments'' (\<lambda>u s. Inl err_signature_invalid) [] ''k'' []"

theorem hmac_callback_exact_witness:
  "verify_callback zulu_lib secret_verifier 0 (sign_hmac zulu_lib ''k'' ''9Z'' ''{}'') ''9Z'' ''{}''
     \<noteq> None \<and>
   verify_callback zulu_lib secret_verifier (-1) (sign_hmac zulu_lib ''k'' ''9Z'' ''{}'') ''9Z'' ''{}'' = None"
proof -
  have s: "cv_jwks secret_verifier = None" "cv_shared_secret secret_verifier = ''k''"
    by (simp_all add: secret_verifier_def new_callback_verifier_def)
  have v: "verify_callback zulu_lib secret_verifier now (sign_hmac zulu_lib ''k'' ts b) ts b = check_timestamp zulu_lib now ts" for now ts b
    using hmac_callback_exact [of secret_verifier zulu_lib now _ ts b] s by simp
  have t: "cl_parse_time zulu_lib ''9Z'' = Some (2 ^ 63 - 1)" by (simp add: zulu_lib_def)
  have "check_timestamp zulu_lib 0 ''9Z'' \<noteq> None" "check_timestamp zulu_lib (-1) ''9Z'' = None"
    by (simp_all only: check_timestamp_None t) (simp_all add: fresh_stamp_def replay_window_value)
  then show ?thesis by (simp only: v simp_thms)
qed

text \<open>C28. A MAC binds timestamp and body: two callbacks that one secret accepts with the same signature carry the same
  timestamp and the same body, or their signed texts are a collision of the HMAC; provided no timestamp the parser
  takes goes on, after a dot, to another one (an RFC 3339 text ends with its zone).\<close>

theorem hmac_callback_binds:
  assumes "cv_jwks v = None" and "cv_shared_secret v \<noteq> []"
    and "\<And>ts r. cl_parse_time lib ts \<noteq> None \<Longrightarrow> cl_parse_time lib (ts @ ''.'' @ r) = None"
    and "verify_callback lib v n1 sig ts1 b1 = None" and "verify_callback lib v n2 sig ts2 b2 = None"
  shows "(ts1 = ts2 \<and> b1 = b2) \<or>
    (ts1 @ ''.'' @ b1 \<noteq> ts2 @ ''.'' @ b2 \<and>
     cl_hmac lib (cv_shared_secret v) (ts1 @ ''.'' @ b1) = cl_hmac lib (cv_shared_secret v) (ts2 @ ''.'' @ b2))"
proof (cases "ts1 @ ''.'' @ b1 = ts2 @ ''.'' @ b2")
  case True
  have p: "cl_parse_time lib ts1 \<noteq> None" "cl_parse_time lib ts2 \<noteq> None"
    using assms(4,5) check_timestamp_None by (auto simp: verify_secret [OF assms(1,2)] split: option.splits)
  from True obtain u where "(ts1 = ts2 @ u \<and> u @ ''.'' @ b1 = ''.'' @ b2) \<or> (ts1 @ u = ts2 \<and> ''.'' @ b1 = u @ ''.'' @ b2)"
    unfolding append_eq_append_conv2 by blast
  then consider "ts1 = ts2 @ u" "u @ ''.'' @ b1 = ''.'' @ b2" | "ts1 @ u = ts2" "''.'' @ b1 = u @ ''.'' @ b2" by blast
  then have "ts1 = ts2"
  proof cases
    case 1
    then show ?thesis using p assms(3) [of ts2 "tl u"] by (cases u) auto
  next
    case 2
    then show ?thesis using p assms(3) [of ts1 "tl u"] by (cases u) auto
  qed
  with True show ?thesis by simp
next
  case False
  have "callback_mac lib (cv_shared_secret v) ts1 b1 = callback_mac lib (cv_shared_secret v) ts2 b2"
    using assms(4,5) by (auto simp: verify_secret [OF assms(1,2)] verify_hmac_def split: option.splits if_splits)
  with False show ?thesis by (auto simp: callback_mac_def dest: hex_encode_inj)
qed

theorem hmac_callback_binds_witness:
  "\<exists>sig. verify_callback zulu_lib secret_verifier 0 sig ''7Z'' ''{}'' = None \<and>
     verify_callback zulu_lib secret_verifier 1 sig ''7Z'' ''{}'' = None \<and> (''7Z'', ''{}'') = (''7Z'', ''{}'')"
proof -
  have s: "cv_jwks secret_verifier = None" "cv_shared_secret secret_verifier \<noteq> []"
    by (simp_all add: secret_verifier_def new_callback_verifier_def)
  have ext: "cl_parse_time zulu_lib (ts @ ''.'' @ r) = None" if "cl_parse_time zulu_lib ts \<noteq> None" for ts r
    using that by (auto simp: zulu_lib_def split: if_splits)
  have t: "cl_parse_time zulu_lib ''7Z'' = Some 7" by (simp add: zulu_lib_def)
  have c: "check_timestamp zulu_lib now ''7Z'' = None" if "now \<in> {0, 1}" for now
    using that unfolding check_timestamp_None t by (auto simp: fresh_stamp_def replay_window_value)
  have a: "verify_callback zulu_lib secret_verifier now (sign_hmac zulu_lib (cv_shared_secret secret_verifier) ''7Z'' ''{}'') ''7Z'' ''{}'' = None"
    if "now \<in> {0, 1}" for now
    by (simp only: verify_sign_hmac [OF s] c [OF that])
  have "''7Z'' = ''7Z'' \<and> ''{}'' = ''{}''"
    using hmac_callback_binds [OF s ext a [of 0] a [of 1]] by blast
  with a [of 0] a [of 1] show ?thesis by blast
qed

text \<open>C29. With a key set, which answers a token it verified with the payload of the token, no shared secret and an audience
  that is UTF-8: a detached JWS is accepted exactly when it has three segments, the key set accepts its signature over
  its header and the claims built from the received body and the audience, and the timestamp is in the window;
  neither its middle segment nor the timestamp has any part in what is signed.\<close>

theorem jws_callback_exact:
  assumes "cv_jwks v = Some jwks" and "cv_shared_secret v = []" and "jwks_laws jwks" and "utf8_ok (cv_audience v)"
  shows "verify_callback lib v now signature ts body = None \<longleftrightarrow>
    check_timestamp lib now ts = None \<and>
    (\<exists>h x s p. split_on (CHR ''.'') signature = [h, x, s] \<and> jwks (reattached lib v h body s) = Inr p)"
  using assms(1,2) detached_jws_None [OF assms(3,4), of lib signature body]
  by (auto simp: verify_callback_def configured_def split: option.splits)

text \<open>A captured JWS callback can be replayed at any time: a signature that was accepted once for a body is
  accepted for it under every timestamp that is in the window when it arrives.\<close>

theorem jws_callback_replay:
  assumes "cv_shared_secret v = []" and "verify_callback lib v now signature ts body = None"
    and "check_timestamp lib now' ts' = None"
  shows "verify_callback lib v now' signature ts' body = None"
  using assms by (auto simp: verify_callback_def verify_hmac_def configured_def split: option.splits if_splits)

definition toy_jwks :: "string \<Rightarrow> go_error + string" where
  "toy_jwks t = (if t = ''h.'' @ raw_url_encode (claims_json [] (raw_url_encode ''{}'')) @ ''.s''
     then Inr (claims_json [] (raw_url_encode ''{}'')) else Inl err_signature_invalid)"

definition jws_verifier :: callback_verifier where
  "jws_verifier = new_callback_verifier ''payments'' (\<lambda>u. toy_jwks) ''https://idp'' [] []"

lemma jws_verifier_sels [simp]: "cv_jwks jws_verifier = Some toy_jwks" "cv_shared_secret jws_verifier = []" "cv_audience jws_verifier = []"
  by (simp_all add: jws_verifier_def new_callback_verifier_def)

lemma cut_two_dots:
  assumes "h @ ''.'' @ x @ ''.'' @ s = ''h.'' @ y @ ''.s''" and "CHR ''.'' \<notin> set x" and "CHR ''.'' \<notin> set y"
  shows "x = y"
proof -
  have n: "count_list (h @ ''.'' @ x @ ''.'' @ s) (CHR ''.'') = 2"
    unfolding assms(1) using assms(3) by (simp add: count_notin)
  then have "CHR ''.'' \<notin> set h" "CHR ''.'' \<notin> set s" using assms(2) by (simp_all add: count_notin count_list_0_iff)
  then have "split_on (CHR ''.'') (h @ CHR ''.'' # x @ CHR ''.'' # s) = [h, x, s]"
    using assms(2) by (simp add: split_on_append split_on_plain)
  moreover have "split_on (CHR ''.'') (''h'' @ CHR ''.'' # y @ CHR ''.'' # ''s'') = [''h'', y, ''s'']"
    using assms(3) split_on_append [of "CHR ''.''" "''h''"] split_on_append [OF assms(3), of "''s''"] by simp
  ultimately show ?thesis using assms(1) by simp
qed

lemma toy_jwks_laws: "jwks_laws toy_jwks"
  unfolding jwks_laws_def
proof (intro allI)
  fix h p s
  let ?t = "h @ ''.'' @ raw_url_encode p @ ''.'' @ s" and ?c = "claims_json [] (raw_url_encode ''{}'')"
  show "(\<exists>e. toy_jwks ?t = Inl e) \<or> toy_jwks ?t = Inr p"
  proof (cases "?t = ''h.'' @ raw_url_encode ?c @ ''.s''")
    case True
    then have "p = ?c" using cut_two_dots [OF True b64_encode_plain b64_encode_plain] raw_url_encode_inj by blast
    then show ?thesis using True by (simp only: toy_jwks_def if_True simp_thms)
  next
    case False
    then show ?thesis by (simp only: toy_jwks_def if_False) blast
  qed
qed

lemma toy_token: "split_on (CHR ''.'') ''h..s'' = [''h'', [], ''s'']" "toy_jwks (reattached zulu_lib jws_verifier ''h'' ''{}'' ''s'') = Inr (claims_json [] (raw_url_encode ''{}''))"
  by (simp_all add: reattached_def toy_jwks_def encoded_digest_def zulu_lib_def)

lemma zulu_times [simp]: "check_timestamp zulu_lib 0 ''7Z'' = None" "check_timestamp zulu_lib (2 ^ 63 - 1) ''9Z'' = None"
proof -
  have "cl_parse_time zulu_lib ''7Z'' = Some 7" "cl_parse_time zulu_lib ''9Z'' = Some (2 ^ 63 - 1)" by (simp_all add: zulu_lib_def)
  then show "check_timestamp zulu_lib 0 ''7Z'' = None" "check_timestamp zulu_lib (2 ^ 63 - 1) ''9Z'' = None"
    by (simp_all only: check_timestamp_None) (simp_all add: fresh_stamp_def replay_window_value)
qed

lemma jws_verifier_exact:
  "verify_callback lib jws_verifier now signature ts body = None \<longleftrightarrow>
    check_timestamp lib now ts = None \<and>
    (\<exists>h x s p. split_on (CHR ''.'') signature = [h, x, s] \<and> toy_jwks (reattached lib jws_verifier h body s) = Inr p)"
  using detached_jws_None [OF toy_jwks_laws, of jws_verifier lib signature body]
  by (auto simp: verify_callback_def configured_def split: option.splits)

theorem jws_callback_exact_witness:
  "verify_callback zulu_lib jws_verifier 0 ''h..s'' ''7Z'' ''{}'' = None \<and>
   verify_callback zulu_lib jws_verifier 0 ''h.ignored.s'' ''7Z'' ''{}'' = None"
proof -
  have "split_on (CHR ''.'') ''h.ignored.s'' = [''h'', ''ignored'', ''s'']" by simp
  moreover note jws_callback_exact [OF jws_verifier_sels(1,2) toy_jwks_laws, of zulu_lib 0 _ "''7Z''" "''{}''"] toy_token
  ultimately show ?thesis by (metis jws_verifier_sels(3) utf8_ok_Nil zulu_times(1))
qed

theorem jws_callback_replay_witness:
  "verify_callback zulu_lib jws_verifier (2 ^ 63 - 1) ''h..s'' ''9Z'' ''{}'' = None"
proof (rule jws_callback_replay)
  show "verify_callback zulu_lib jws_verifier 0 ''h..s'' ''7Z'' ''{}'' = None"
    unfolding jws_verifier_exact using toy_token zulu_times(1) by blast
qed (simp_all only: jws_verifier_sels zulu_times)

end
