(* ===== verification/Oci.thy ===== *)
theory Oci
  imports Go_Prelude
begin

text \<open>
  \<open>src/oci/oci.go\<close>: how a process resolves its identity. The constructors of the SDK's configuration
  providers and the region a provider knows are the components of \<open>oci_sdk\<close>; a provider is a value of the
  type \<open>'p\<close>. The resolver is the definition \<open>resolve\<close>, its loop over the candidates \<open>resolve_auto\<close>.
\<close>

section \<open>The model\<close>

definition auth_auto :: string where "auth_auto = ''auto''"
definition auth_workload :: string where "auth_workload = ''workload''"
definition auth_instance :: string where "auth_instance = ''instance''"
definition auth_config_file :: string where "auth_config_file = ''config_file''"
definition auth_env :: string where "auth_env = ''env''"

lemmas auth_methods = auth_auto_def auth_workload_def auth_instance_def auth_config_file_def auth_env_def

record oci_config =
  oc_auth_method :: string
  oc_region :: string
  oc_config_file :: string
  oc_profile :: string

record 'p oci_sdk =
  sdk_workload :: "go_error + 'p"
  sdk_instance :: "go_error + 'p"
  sdk_default_config :: 'p
  sdk_profile_config :: "string \<Rightarrow> string \<Rightarrow> 'p"
  sdk_environment :: "string \<Rightarrow> string \<Rightarrow> 'p"
  sdk_region :: "'p \<Rightarrow> go_error + string"

definition err_no_principal :: go_error where
  "err_no_principal = Sentinel ''no OCI principal was resolved; an OCI backed adapter cannot be built''"

record 'p principal =
  pr_provider :: 'p
  pr_method :: string
  pr_region :: string

definition principal_string :: "'p principal option \<Rightarrow> string" where
  "principal_string p = (case p of
       None \<Rightarrow> ''oci principal: none''
     | Some q \<Rightarrow> ''oci principal: method='' @ pr_method q @ '' region='' @ pr_region q)"

record retry_policy =
  rp_attempts :: nat
  rp_backoff :: duration

definition client_configuration :: retry_policy where
  "client_configuration = \<lparr>rp_attempts = 3, rp_backoff = 250 * millisecond\<rparr>"

definition config_file_provider :: "'p oci_sdk \<Rightarrow> oci_config \<Rightarrow> go_error + 'p" where
  "config_file_provider sdk cfg =
     (if oc_config_file cfg = [] \<and> oc_profile cfg = [] then Inr (sdk_default_config sdk)
      else Inr (sdk_profile_config sdk
          (if oc_config_file cfg = [] then ''~/.oci/config'' else oc_config_file cfg)
          (if oc_profile cfg = [] then ''DEFAULT'' else oc_profile cfg)))"

text \<open>\<open>workload\<close>, \<open>instance\<close> and \<open>environment\<close>.\<close>

definition workload_provider :: "'p oci_sdk \<Rightarrow> oci_config \<Rightarrow> go_error + 'p" where
  "workload_provider sdk cfg = (case sdk_workload sdk of Inl e \<Rightarrow> Inl e | Inr p \<Rightarrow> Inr p)"

definition instance_provider :: "'p oci_sdk \<Rightarrow> oci_config \<Rightarrow> go_error + 'p" where
  "instance_provider sdk cfg = sdk_instance sdk"

definition environment_provider :: "'p oci_sdk \<Rightarrow> oci_config \<Rightarrow> go_error + 'p" where
  "environment_provider sdk cfg = Inr (sdk_environment sdk ''OCI'' [])"

lemmas provider_constructors = workload_provider_def instance_provider_def environment_provider_def

definition builder_for :: "'p oci_sdk \<Rightarrow> string \<Rightarrow> go_error + (oci_config \<Rightarrow> go_error + 'p)" where
  "builder_for sdk method =
     (if method = auth_workload then Inr (workload_provider sdk)
      else if method = auth_instance then Inr (instance_provider sdk)
      else if method = auth_config_file then Inr (config_file_provider sdk)
      else if method = auth_env then Inr (environment_provider sdk)
      else Inl (new_err (''OCI_AUTH_METHOD '' @ method @ '' is not supported'')))"

definition auto_order :: "string list" where
  "auto_order = [auth_workload, auth_instance, auth_config_file]"

definition principal_for :: "'p oci_sdk \<Rightarrow> oci_config \<Rightarrow> string \<Rightarrow> 'p \<Rightarrow> go_error + 'p principal" where
  "principal_for sdk cfg method provider =
     (let region = (if oc_region cfg \<noteq> [] then oc_region cfg
            else (case sdk_region sdk provider of Inl _ \<Rightarrow> [] | Inr r \<Rightarrow> r))
      in if region = [] then Inl (new_err (''oci '' @ method @ '' authentication succeeded but no region is known; set OCI_REGION''))
         else Inr \<lparr>pr_provider = provider, pr_method = method, pr_region = region\<rparr>)"

text \<open>One turn of the loop of \<open>auto\<close>: the error it appends, or the principal it returns.\<close>

definition try_candidate :: "'p oci_sdk \<Rightarrow> oci_config \<Rightarrow> string \<Rightarrow> go_error + 'p principal" where
  "try_candidate sdk cfg candidate = (case builder_for sdk candidate of
       Inl e \<Rightarrow> Inl e
     | Inr build \<Rightarrow>
         (case build cfg of
            Inl e \<Rightarrow> Inl (wrap_err candidate e)
          | Inr provider \<Rightarrow>
              (case principal_for sdk cfg candidate provider of
                 Inl e \<Rightarrow> Inl (wrap_err candidate e)
               | Inr p \<Rightarrow> Inr p)))"

fun resolve_auto :: "'p oci_sdk \<Rightarrow> oci_config \<Rightarrow> go_error list \<Rightarrow> string list \<Rightarrow> go_error + 'p principal" where
  "resolve_auto sdk cfg errs [] = Inl (wrap_err ''no OCI authentication method succeeded'' (Wrapped ''join'' errs))"
| "resolve_auto sdk cfg errs (c # cs) = (case try_candidate sdk cfg c of
       Inl e \<Rightarrow> resolve_auto sdk cfg (errs @ [e]) cs
     | Inr p \<Rightarrow> Inr p)"

definition resolve :: "'p oci_sdk \<Rightarrow> oci_config \<Rightarrow> go_error + 'p principal" where
  "resolve sdk cfg =
     (let method = (if oc_auth_method cfg = [] then auth_auto else oc_auth_method cfg)
      in if method \<noteq> auth_auto
         then (case builder_for sdk method of
             Inl e \<Rightarrow> Inl e
           | Inr build \<Rightarrow> (case build cfg of
                 Inl e \<Rightarrow> Inl (wrap_err (''oci '' @ method @ '' authentication'') e)
               | Inr provider \<Rightarrow> principal_for sdk cfg method provider))
         else resolve_auto sdk cfg [] auto_order)"

section \<open>Lemmas\<close>

lemma principal_for_region:
  "principal_for sdk cfg m pv = Inr p \<Longrightarrow>
     pr_method p = m \<and> pr_region p \<noteq> [] \<and> (pr_region p = oc_region cfg \<or> oc_region cfg = [])"
  by (auto simp: principal_for_def Let_def split: if_splits sum.splits)

lemma try_candidate_region:
  "try_candidate sdk cfg m = Inr p \<Longrightarrow>
     pr_method p = m \<and> pr_region p \<noteq> [] \<and> (pr_region p = oc_region cfg \<or> oc_region cfg = [])"
  using principal_for_region [of sdk cfg m] by (auto simp: try_candidate_def split: sum.splits)

lemma resolve_auto_first:
  "resolve_auto sdk cfg errs cs = Inr p \<longleftrightarrow>
     (\<exists>pre c post. cs = pre @ c # post \<and> list_all (\<lambda>c. isl (try_candidate sdk cfg c)) pre \<and> try_candidate sdk cfg c = Inr p)"
proof (induction cs arbitrary: errs)
  case (Cons c cs)
  show ?case
  proof (cases "try_candidate sdk cfg c")
    case (Inl e)
    have "(\<exists>pre d post. c # cs = pre @ d # post \<and> list_all (\<lambda>c. isl (try_candidate sdk cfg c)) pre \<and> try_candidate sdk cfg d = Inr p)
        \<longleftrightarrow> (\<exists>pre d post. cs = pre @ d # post \<and> list_all (\<lambda>c. isl (try_candidate sdk cfg c)) pre \<and> try_candidate sdk cfg d = Inr p)"
      (is "?l \<longleftrightarrow> ?r")
    proof
      assume ?l
      then obtain pre d post where p: "c # cs = pre @ d # post" "list_all (\<lambda>c. isl (try_candidate sdk cfg c)) pre" "try_candidate sdk cfg d = Inr p" by blast
      then show ?r using Inl by (cases pre) auto
    next
      assume ?r
      then obtain pre d post where "cs = pre @ d # post" "list_all (\<lambda>c. isl (try_candidate sdk cfg c)) pre" "try_candidate sdk cfg d = Inr p" by blast
      then show ?l using Inl by (intro exI [of _ "c # pre"]) auto
    qed
    with Inl Cons show ?thesis by simp
  next
    case (Inr q)
    have "d = c" if "c # cs = pre @ d # post" "list_all (\<lambda>c. isl (try_candidate sdk cfg c)) pre" for pre d post
      using that Inr by (cases pre) auto
    with Inr show ?thesis by (simp, metis Inr_inject append_Nil list.pred_inject(1))
  qed
qed simp

section \<open>Properties\<close>

text \<open>C31. The principal of a resolved configuration has a region, the configured one when there is one; a method that
  was asked for by name is the one that is used; and \<open>auto\<close> takes the first of workload, instance and
  configuration file that yields a principal.\<close>

theorem resolve_exact:
  assumes "resolve sdk cfg = Inr p"
  shows "pr_region p \<noteq> [] \<and> (oc_region cfg = [] \<or> pr_region p = oc_region cfg) \<and>
    (if oc_auth_method cfg \<in> {[], auth_auto}
     then \<exists>pre post. auto_order = pre @ pr_method p # post \<and> list_all (\<lambda>c. isl (try_candidate sdk cfg c)) pre \<and>
            try_candidate sdk cfg (pr_method p) = Inr p
     else pr_method p = oc_auth_method cfg)"
proof (cases "oc_auth_method cfg \<in> {[], auth_auto}")
  case True
  then have "resolve_auto sdk cfg [] auto_order = Inr p" using assms by (auto simp: resolve_def Let_def split: if_splits)
  then obtain pre c post where "auto_order = pre @ c # post" "list_all (\<lambda>c. isl (try_candidate sdk cfg c)) pre" "try_candidate sdk cfg c = Inr p"
    unfolding resolve_auto_first by blast
  moreover from this(3) have "pr_method p = c \<and> pr_region p \<noteq> [] \<and> (pr_region p = oc_region cfg \<or> oc_region cfg = [])"
    by (rule try_candidate_region)
  ultimately show ?thesis using True by auto
next
  case False
  then obtain pv where "principal_for sdk cfg (oc_auth_method cfg) pv = Inr p"
    using assms by (auto simp: resolve_def Let_def split: if_splits sum.splits)
  from principal_for_region [OF this] False show ?thesis by auto
qed

text \<open>A machine with no workload identity, no instance certificate and no configuration file.\<close>

definition bare_sdk :: "string oci_sdk" where
  "bare_sdk = \<lparr>sdk_workload = Inl (new_err ''no service account token''), sdk_instance = Inl (new_err ''metadata timeout''),
     sdk_default_config = ''empty'', sdk_profile_config = (\<lambda>f p. f @ p), sdk_environment = (\<lambda>a b. a),
     sdk_region = (\<lambda>p. Inl (new_err ''no region''))\<rparr>"

definition region_config :: oci_config where
  "region_config = \<lparr>oc_auth_method = auth_auto, oc_region = ''eu-frankfurt-1'', oc_config_file = [], oc_profile = []\<rparr>"

theorem resolve_exact_witness:
  "resolve bare_sdk region_config = Inr \<lparr>pr_provider = ''empty'', pr_method = auth_config_file, pr_region = ''eu-frankfurt-1''\<rparr> \<and>
   isl (try_candidate bare_sdk region_config auth_workload)"
proof -
  have r: "resolve bare_sdk region_config = Inr \<lparr>pr_provider = ''empty'', pr_method = auth_config_file, pr_region = ''eu-frankfurt-1''\<rparr>"
    by (simp add: resolve_def region_config_def auto_order_def try_candidate_def builder_for_def provider_constructors bare_sdk_def auth_methods
        config_file_provider_def principal_for_def)
  from resolve_exact [OF r] show ?thesis using r
    by (auto simp: region_config_def auto_order_def auth_methods Cons_eq_append_conv)
qed

text \<open>With a configured region \<open>auto\<close> never fails: the provider of a configuration file is built without
  reading the file, so on a machine that has no identity at all the process starts with a principal of the
  method \<open>config_file\<close>; without one it fails exactly when no candidate knows its region.\<close>

theorem auto_never_fails_with_region:
  assumes "oc_auth_method cfg \<in> {[], auth_auto}" and "oc_region cfg \<noteq> []"
  shows "\<exists>p. resolve sdk cfg = Inr p \<and>
    (isl (sdk_workload sdk) \<and> isl (sdk_instance sdk) \<longrightarrow> pr_method p = auth_config_file)"
proof -
  have r: "resolve sdk cfg = resolve_auto sdk cfg [] auto_order"
    using assms(1) by (auto simp: resolve_def Let_def)
  show ?thesis unfolding r auto_order_def using assms(2)
    by (auto simp: try_candidate_def builder_for_def provider_constructors auth_methods config_file_provider_def principal_for_def split: sum.split)
qed

theorem auto_never_fails_with_region_witness:
  "\<exists>p. resolve bare_sdk region_config = Inr p \<and> pr_method p = auth_config_file"
  using auto_never_fails_with_region [of region_config bare_sdk] by (auto simp: region_config_def bare_sdk_def)

end
