(* ===== verification/Secrets.thy ===== *)
theory Secrets
  imports Oci Go_Base64
begin

text \<open>
  \<open>src/secrets/secrets.go\<close> and \<open>src/secrets/ocivault.go\<close>: the three providers of secrets and the cache the
  remote ones share. What a call meets is \<open>secret_call\<close>: the clock when the cache is read and when it is
  written, the process environment, and the answers of the two stores. Calls are sequential.

  The locale \<open>cached_source\<close> is the contract of a remote provider: the development escape hatch, the cache,
  and a fetch. It is interpreted on both providers; a run of calls serves only values that were fetched less
  than the time to live ago.
\<close>

section \<open>The model\<close>

definition err_secret_not_found :: go_error where "err_secret_not_found = Sentinel ''secret not found''"

abbreviation provider_aws :: string where "provider_aws \<equiv> ''aws''"
abbreviation provider_oci_vault :: string where "provider_oci_vault \<equiv> ''oci-vault''"
abbreviation provider_env :: string where "provider_env \<equiv> ''env''"

definition env_prefix :: string where "env_prefix = ''env:''"

record aws_secret =
  as_string :: "string option"
  as_binary :: string

datatype bundle_content = Base64Content "string option" | NoContent | OtherContent string

record secret_call =
  sc_now :: go_time
  sc_stored :: go_time
  sc_env :: "string \<Rightarrow> string option"
  sc_aws :: "string \<Rightarrow> go_error + aws_secret"
  sc_bundle :: "string \<Rightarrow> go_error + bundle_content"
  sc_by_name :: "string \<Rightarrow> string \<Rightarrow> go_error + bundle_content"

definition env_get :: "secret_call \<Rightarrow> string \<Rightarrow> go_error + string" where
  "env_get c reference =
     (let name = trim_prefix reference env_prefix
      in case sc_env c name of
           Some v \<Rightarrow> if v \<noteq> [] then Inr v else Inl (wrap_err name err_secret_not_found)
         | None \<Rightarrow> Inl (wrap_err name err_secret_not_found))"

record ttl_cache =
  tc_ttl :: duration
  tc_entries :: "string \<rightharpoonup> string \<times> go_time"

definition new_ttl_cache :: "duration \<Rightarrow> ttl_cache" where
  "new_ttl_cache ttl = \<lparr>tc_ttl = ttl, tc_entries = Map.empty\<rparr>"

definition ttl_get :: "go_time \<Rightarrow> string \<Rightarrow> ttl_cache \<Rightarrow> string option" where
  "ttl_get now key tc = (case tc_entries tc key of
       Some (value, expires) \<Rightarrow> if now < expires then Some value else None
     | None \<Rightarrow> None)"

definition ttl_put :: "go_time \<Rightarrow> string \<Rightarrow> string \<Rightarrow> ttl_cache \<Rightarrow> ttl_cache" where
  "ttl_put now key value tc = tc\<lparr>tc_entries := (tc_entries tc)(key \<mapsto> (value, now + tc_ttl tc))\<rparr>"

text \<open>The value of an answer of Secrets Manager: the text, or else the binary.\<close>

definition aws_value :: "aws_secret \<Rightarrow> string" where
  "aws_value out =
     (let value = (case as_string out of Some s \<Rightarrow> s | None \<Rightarrow> [])
      in if value = [] \<and> 0 < length (as_binary out) then as_binary out else value)"

definition aws_get :: "secret_call \<Rightarrow> string \<Rightarrow> ttl_cache \<Rightarrow> (go_error + string) \<times> ttl_cache" where
  "aws_get c reference tc =
     (if has_prefix reference env_prefix then (env_get c reference, tc)
      else (case ttl_get (sc_now c) reference tc of
          Some value \<Rightarrow> (Inr value, tc)
        | None \<Rightarrow>
            (case sc_aws c reference of
               Inl e \<Rightarrow> (Inl (wrap_err ''get secret'' e), tc)
             | Inr out \<Rightarrow>
                 (let value = aws_value out
                  in if value = [] then (Inl (wrap_err reference err_secret_not_found), tc)
                     else (Inr value, ttl_put (sc_stored c) reference value tc)))))"

definition is_secret_ocid :: "string \<Rightarrow> bool" where
  "is_secret_ocid reference = has_prefix reference ''ocid1.vaultsecret''"

definition secret_value :: "bundle_content \<Rightarrow> go_error + string" where
  "secret_value b = (case b of
       Base64Content None \<Rightarrow> Inr []
     | Base64Content (Some t) \<Rightarrow> (case std_decode t of
           None \<Rightarrow> Inl (new_err ''secret content is not valid base64'')
         | Some s \<Rightarrow> Inr s)
     | NoContent \<Rightarrow> Inr []
     | OtherContent t \<Rightarrow> Inl (new_err (''unsupported OCI secret content type '' @ t)))"

definition fetch_bundle :: "string \<Rightarrow> secret_call \<Rightarrow> string \<Rightarrow> go_error + bundle_content" where
  "fetch_bundle vault c reference =
     (if is_secret_ocid reference
      then (case sc_bundle c reference of Inl e \<Rightarrow> Inl (wrap_err ''get secret bundle'' e) | Inr b \<Rightarrow> Inr b)
      else if vault = []
      then Inl (wrap_err (reference @ '' is a secret name and OCI_VAULT_OCID is not configured'') err_secret_not_found)
      else (case sc_by_name c reference vault of Inl e \<Rightarrow> Inl (wrap_err ''get secret bundle by name'' e) | Inr b \<Rightarrow> Inr b))"

definition oci_get :: "string \<Rightarrow> secret_call \<Rightarrow> string \<Rightarrow> ttl_cache \<Rightarrow> (go_error + string) \<times> ttl_cache" where
  "oci_get vault c reference tc =
     (if has_prefix reference env_prefix then (env_get c reference, tc)
      else (case ttl_get (sc_now c) reference tc of
          Some value \<Rightarrow> (Inr value, tc)
        | None \<Rightarrow>
            (case fetch_bundle vault c reference of
               Inl e \<Rightarrow> (Inl e, tc)
             | Inr b \<Rightarrow>
                 (case secret_value b of
                    Inl e \<Rightarrow> (Inl (wrap_err reference e), tc)
                  | Inr value \<Rightarrow>
                      if value = [] then (Inl (wrap_err reference err_secret_not_found), tc)
                      else (Inr value, ttl_put (sc_stored c) reference value tc)))))"

text \<open>The interface value a process holds. The pointer of an OCI provider that could not be built is nil, but the
  interface that holds it is not.\<close>

record 'p oci_provider =
  op_principal :: "'p principal"
  op_endpoint :: string
  op_retry :: retry_policy
  op_vault :: string
  op_cache :: ttl_cache

datatype 'p secret_provider = EnvProvider | AWSProvider string ttl_cache | OCIProvider "'p oci_provider option"

record secrets_config =
  sf_provider :: string
  sf_endpoint :: string
  sf_vault_ocid :: string

definition new_aws_provider :: "string \<Rightarrow> duration \<Rightarrow> 'p secret_provider" where
  "new_aws_provider endpoint ttl = AWSProvider endpoint (new_ttl_cache ttl)"

text \<open>The options of \<open>New\<close>, applied in order.\<close>

type_synonym 'p secret_option = "'p principal option \<Rightarrow> 'p principal option"

definition with_oci :: "'p principal option \<Rightarrow> 'p secret_option" where
  "with_oci p = (\<lambda>_. p)"

definition apply_options :: "'p secret_option list \<Rightarrow> 'p principal option" where
  "apply_options opts = fold (\<lambda>f x. f x) opts None"

definition new_oci_provider :: "go_error option \<Rightarrow> 'p principal option \<Rightarrow> string \<Rightarrow> string \<Rightarrow> duration
    \<Rightarrow> 'p oci_provider option \<times> go_error option" where
  "new_oci_provider client_err pr vault endpoint ttl = (case pr of
       None \<Rightarrow> (None, Some err_no_principal)
     | Some p \<Rightarrow> (case client_err of
           Some e \<Rightarrow> (None, Some (wrap_err ''oci vault secrets client'' e))
         | None \<Rightarrow> (Some \<lparr>op_principal = p, op_endpoint = endpoint, op_retry = client_configuration, op_vault = vault,
               op_cache = new_ttl_cache ttl\<rparr>, None)))"

definition new_secrets :: "go_error option \<Rightarrow> secrets_config \<Rightarrow> 'p principal option \<Rightarrow> 'p secret_provider \<times> go_error option" where
  "new_secrets client_err cfg pr =
     (if sf_provider cfg = provider_aws then (new_aws_provider (sf_endpoint cfg) (5 * minute), None)
      else if sf_provider cfg = provider_oci_vault
      then (case new_oci_provider client_err pr (sf_vault_ocid cfg) (sf_endpoint cfg) (5 * minute) of
          (p, e) \<Rightarrow> (OCIProvider p, e))
      else (EnvProvider, None))"

text \<open>\<open>Get\<close> through the interface; \<open>None\<close> is the panic of a nil provider whose cache is read.\<close>

definition provider_get :: "secret_call \<Rightarrow> string \<Rightarrow> 'p secret_provider \<Rightarrow> ((go_error + string) \<times> 'p secret_provider) option" where
  "provider_get c reference p = (case p of
       EnvProvider \<Rightarrow> Some (env_get c reference, EnvProvider)
     | AWSProvider e tc \<Rightarrow> (case aws_get c reference tc of (r, tc') \<Rightarrow> Some (r, AWSProvider e tc'))
     | OCIProvider None \<Rightarrow> if has_prefix reference env_prefix then Some (env_get c reference, p) else None
     | OCIProvider (Some q) \<Rightarrow> (case oci_get (op_vault q) c reference (op_cache q) of
           (r, tc') \<Rightarrow> Some (r, OCIProvider (Some (q\<lparr>op_cache := tc'\<rparr>)))))"

definition resolve_secret :: "secret_call \<Rightarrow> 'p secret_provider \<Rightarrow> string \<Rightarrow> string \<Rightarrow> ((go_error + string) \<times> 'p secret_provider) option" where
  "resolve_secret c p reference fallback =
     (if reference = []
      then Some (if fallback = [] then Inl (wrap_err ''no reference and no fallback'' err_secret_not_found) else Inr fallback, p)
      else provider_get c reference p)"

section \<open>Cached sources\<close>

locale cached_source =
  fixes fetch :: "secret_call \<Rightarrow> string \<Rightarrow> go_error + string"
    and get :: "secret_call \<Rightarrow> string \<Rightarrow> ttl_cache \<Rightarrow> (go_error + string) \<times> ttl_cache"
  assumes get_env: "has_prefix r env_prefix \<Longrightarrow> get c r tc = (env_get c r, tc)"
    and get_hit: "\<not> has_prefix r env_prefix \<Longrightarrow> ttl_get (sc_now c) r tc = Some v \<Longrightarrow> get c r tc = (Inr v, tc)"
    and get_miss: "\<not> has_prefix r env_prefix \<Longrightarrow> ttl_get (sc_now c) r tc = None \<Longrightarrow>
      get c r tc = (case fetch c r of Inl e \<Rightarrow> (Inl e, tc) | Inr v \<Rightarrow> (Inr v, ttl_put (sc_stored c) r v tc))"
begin

fun get_all :: "(secret_call \<times> string) list \<Rightarrow> ttl_cache \<Rightarrow> (go_error + string) list \<times> ttl_cache" where
  "get_all [] tc = ([], tc)"
| "get_all ((c, r) # cs) tc = (case get c r tc of (x, tc1) \<Rightarrow> (case get_all cs tc1 of (xs, tc2) \<Rightarrow> (x # xs, tc2)))"

text \<open>A cache that holds only values that some call of \<open>past\<close> fetched.\<close>

definition earned :: "(secret_call \<times> string) list \<Rightarrow> ttl_cache \<Rightarrow> bool" where
  "earned past tc \<longleftrightarrow> (\<forall>r v t. tc_entries tc r = Some (v, t) \<longrightarrow>
     (\<exists>c. (c, r) \<in> set past \<and> fetch c r = Inr v \<and> t = sc_stored c + tc_ttl tc))"

lemma earned_get:
  assumes "earned past tc" and "get c r tc = (x, tc')"
  shows "earned ((c, r) # past) tc' \<and> tc_ttl tc' = tc_ttl tc \<and>
    (\<not> has_prefix r env_prefix \<longrightarrow> (case x of
        Inr v \<Rightarrow> fetch c r = Inr v \<or> (\<exists>d. (d, r) \<in> set past \<and> fetch d r = Inr v \<and> sc_now c < sc_stored d + tc_ttl tc)
      | Inl e \<Rightarrow> fetch c r = Inl e))"
proof -
  have keep: "earned ((c, r) # past) tc" using assms(1) unfolding earned_def by (metis list.set_intros(2))
  consider "has_prefix r env_prefix" | v where "\<not> has_prefix r env_prefix" "ttl_get (sc_now c) r tc = Some v"
    | "\<not> has_prefix r env_prefix" "ttl_get (sc_now c) r tc = None" by (cases "ttl_get (sc_now c) r tc") auto
  then show ?thesis
  proof cases
    case 1
    then show ?thesis using get_env assms(2) keep by auto
  next
    case 2
    then obtain t where "tc_entries tc r = Some (v, t)" "sc_now c < t"
      by (auto simp: ttl_get_def split: option.splits if_splits)
    moreover from this(1) obtain d where "(d, r) \<in> set past" "fetch d r = Inr v" "t = sc_stored d + tc_ttl tc"
      using assms(1) unfolding earned_def by blast
    ultimately show ?thesis using get_hit [OF 2] assms(2) keep by auto
  next
    case 3
    then show ?thesis using get_miss [OF 3] assms keep
      by (auto simp: earned_def ttl_put_def split: sum.splits)
  qed
qed

text \<open>What a run serves for a remote reference: the value of this call's own fetch, or one that an earlier call
  fetched and that has not expired; an error is always this call's own.\<close>

lemma run_served:
  assumes "get_all (calls @ [(c, r)]) (new_ttl_cache ttl) = (xs, tc)" and "\<not> has_prefix r env_prefix"
  shows "case last xs of
      Inr v \<Rightarrow> fetch c r = Inr v \<or> (\<exists>d. (d, r) \<in> set calls \<and> fetch d r = Inr v \<and> sc_now c < sc_stored d + ttl)
    | Inl e \<Rightarrow> fetch c r = Inl e"
proof -
  have run: "\<exists>ys tc1. get_all (calls @ [(c, r)]) tc0 = (ys @ [fst (get c r tc1)], snd (get c r tc1)) \<and>
      earned (rev calls @ past) tc1 \<and> tc_ttl tc1 = tc_ttl tc0" if "earned past tc0" for past tc0
    using that
  proof (induction calls arbitrary: past tc0)
    case Nil
    then show ?case by (auto simp: split_beta)
  next
    case (Cons p calls)
    obtain d q where p: "p = (d, q)" by (cases p)
    obtain x tc1 where g: "get d q tc0 = (x, tc1)" by (cases "get d q tc0")
    from earned_get [OF Cons.prems g] have "earned ((d, q) # past) tc1" "tc_ttl tc1 = tc_ttl tc0" by auto
    from Cons.IH [OF this(1)] this(2) show ?case by (auto simp: p g)
  qed
  obtain ys tc1 where r: "get_all (calls @ [(c, r)]) (new_ttl_cache ttl) = (ys @ [fst (get c r tc1)], snd (get c r tc1))"
    and e: "earned (rev calls) tc1" and t: "tc_ttl tc1 = ttl"
    using run [of "[]" "new_ttl_cache ttl"] by (auto simp: earned_def new_ttl_cache_def)
  obtain x tc' where g: "get c r tc1 = (x, tc')" by (cases "get c r tc1")
  have "last xs = x" using assms(1) r g by auto
  then show ?thesis using earned_get [OF e g] assms(2) t by (simp split: sum.splits)
qed

end

text \<open>The fetch of each provider: the answer of its store, decoded.\<close>

definition aws_fetch :: "secret_call \<Rightarrow> string \<Rightarrow> go_error + string" where
  "aws_fetch c r = (case sc_aws c r of
       Inl e \<Rightarrow> Inl (wrap_err ''get secret'' e)
     | Inr out \<Rightarrow> if aws_value out = [] then Inl (wrap_err r err_secret_not_found) else Inr (aws_value out))"

definition oci_fetch :: "string \<Rightarrow> secret_call \<Rightarrow> string \<Rightarrow> go_error + string" where
  "oci_fetch vault c r = (case fetch_bundle vault c r of
       Inl e \<Rightarrow> Inl e
     | Inr b \<Rightarrow> (case secret_value b of
         Inl e \<Rightarrow> Inl (wrap_err r e)
       | Inr v \<Rightarrow> if v = [] then Inl (wrap_err r err_secret_not_found) else Inr v))"

interpretation aws_source: cached_source aws_fetch aws_get
  by unfold_locales (auto simp: aws_get_def aws_fetch_def Let_def split: sum.split)

interpretation oci_source: cached_source "oci_fetch vault" "oci_get vault" for vault
  by unfold_locales (auto simp: oci_get_def oci_fetch_def split: sum.split)

section \<open>Properties\<close>

text \<open>C30. A rotation is seen within the time to live: in any run of either remote provider, what a call serves for a
  remote reference is the value the store has for it now, or one that an earlier call fetched less than the
  time to live ago; an error is the store's answer to this very call and is never cached.\<close>

theorem secrets_served_fresh:
  assumes "\<not> has_prefix r env_prefix"
    and "aws_source.get_all (calls @ [(c, r)]) (new_ttl_cache ttl) = (xs, tc)"
    and "oci_source.get_all vault (calls' @ [(c, r)]) (new_ttl_cache ttl) = (ys, tc')"
  shows "(case last xs of
      Inr v \<Rightarrow> aws_fetch c r = Inr v \<or> (\<exists>d. (d, r) \<in> set calls \<and> aws_fetch d r = Inr v \<and> sc_now c < sc_stored d + ttl)
    | Inl e \<Rightarrow> aws_fetch c r = Inl e) \<and>
    (case last ys of
      Inr v \<Rightarrow> oci_fetch vault c r = Inr v \<or> (\<exists>d. (d, r) \<in> set calls' \<and> oci_fetch vault d r = Inr v \<and> sc_now c < sc_stored d + ttl)
    | Inl e \<Rightarrow> oci_fetch vault c r = Inl e)"
  using aws_source.run_served [OF assms(2,1)] oci_source.run_served [OF assms(3,1)] by blast

definition secret_at :: "go_time \<Rightarrow> string \<Rightarrow> secret_call" where
  "secret_at t v = \<lparr>sc_now = t, sc_stored = t, sc_env = (\<lambda>n. None), sc_aws = (\<lambda>r. Inr \<lparr>as_string = Some v, as_binary = []\<rparr>),
     sc_bundle = (\<lambda>r. Inr (Base64Content (Some (std_encode v)))), sc_by_name = (\<lambda>r vault. Inr (Base64Content (Some (std_encode v))))\<rparr>"

definition rotated_calls :: "(secret_call \<times> string) list" where
  "rotated_calls = [(secret_at 0 ''old'', ''arn''), (secret_at 100 ''new'', ''arn'')]"

theorem secrets_served_fresh_witness:
  "fst (aws_source.get_all (rotated_calls @ [(secret_at 400 ''new'', ''arn'')]) (new_ttl_cache 300)) = [Inr ''old'', Inr ''old'', Inr ''new''] \<and>
   aws_fetch (secret_at 400 ''new'') ''arn'' = Inr ''new''"
proof -
  have r: "aws_source.get_all (rotated_calls @ [(secret_at 400 ''new'', ''arn'')]) (new_ttl_cache 300) =
      ([Inr ''old'', Inr ''old'', Inr ''new''], new_ttl_cache 300\<lparr>tc_entries := [''arn'' \<mapsto> (''new'', 700)]\<rparr>)"
    by (simp add: rotated_calls_def secret_at_def aws_get_def env_prefix_def ttl_get_def ttl_put_def new_ttl_cache_def aws_value_def Let_def)
  obtain ys tc where o: "oci_source.get_all [] ([] @ [(secret_at 400 ''new'', ''arn'')]) (new_ttl_cache 300) = (ys, tc)"
    by fastforce
  have "aws_fetch (secret_at 400 ''new'') ''arn'' = Inr ''new''"
    using secrets_served_fresh [OF _ r o]
    by (auto simp: env_prefix_def rotated_calls_def secret_at_def aws_fetch_def aws_value_def)
  then show ?thesis using r by simp
qed

text \<open>A vault secret comes back as it was stored: for every value that is not empty, the base64 content OCI
  keeps for it resolves to the value, by its OCID or, with a vault, by its name; an OCID needs no vault, and a
  name without a vault is not found.\<close>

theorem vault_round_trip:
  assumes "value \<noteq> []" and "\<not> has_prefix r env_prefix" and "ttl_get (sc_now c) r tc = None"
    and "sc_bundle c r = Inr (Base64Content (Some (std_encode value)))"
    and "sc_by_name c r vault = Inr (Base64Content (Some (std_encode value)))"
  shows "fst (oci_get vault c r tc) =
    (if is_secret_ocid r \<or> vault \<noteq> [] then Inr value
     else Inl (wrap_err (r @ '' is a secret name and OCI_VAULT_OCID is not configured'') err_secret_not_found))"
  using assms by (simp add: oci_get_def fetch_bundle_def secret_value_def std_decode_encode)

theorem vault_round_trip_witness:
  "fst (oci_get [] (secret_at 0 ''dsn'') ''ocid1.vaultsecret.oc1'' (new_ttl_cache 300)) = Inr ''dsn''"
  by (subst vault_round_trip [of "''dsn''"])
    (simp_all add: secret_at_def env_prefix_def ttl_get_def new_ttl_cache_def is_secret_ocid_def del: b64_encode.simps)

text \<open>A provider that could not be built is not nil: without an identity, \<open>New\<close> for the vault returns its error with an
  interface that holds a nil pointer, and the first \<open>Get\<close> of a remote reference on it panics.\<close>

theorem failed_provider_panics:
  assumes "sf_provider cfg = ''oci-vault''" and "new_secrets client_err cfg None = (p, e)" and "\<not> has_prefix r env_prefix"
  shows "e = Some err_no_principal \<and> p \<noteq> EnvProvider \<and> provider_get c r p = None"
  using assms by (auto simp: new_secrets_def new_oci_provider_def provider_get_def)

theorem failed_provider_panics_witness:
  "provider_get (secret_at 0 []) ''arn''
     (fst (new_secrets None \<lparr>sf_provider = ''oci-vault'', sf_endpoint = [], sf_vault_ocid = []\<rparr> (None :: string principal option))) = None"
proof -
  let ?cfg = "\<lparr>sf_provider = ''oci-vault'', sf_endpoint = [], sf_vault_ocid = []\<rparr>"
  obtain p e where n: "new_secrets None ?cfg (None :: string principal option) = (p, e)" by fastforce
  have "sf_provider ?cfg = ''oci-vault''" "\<not> has_prefix ''arn'' env_prefix" by (simp_all add: env_prefix_def)
  from failed_provider_panics [OF this(1) n this(2)] show ?thesis by (simp only: n fst_conv)
qed

end
