(* ===== verification/Health.thy ===== *)
theory Health
  imports Httpx_Problem "HOL-Library.AList" "HOL-Library.Sublist"
begin

text \<open>
  \<open>src/health/health.go\<close>: the registry of dependency checks. Its locks make each of the following one step:
  a registration, the copy of the list of checks an evaluation begins with, the table it ends with, the end
  of \<open>Start\<close>, the beginning of draining. \<open>hstep\<close> is the relation between registries, labelled with the
  step; one evaluation runs at a time. What a probe answers is part of the label. The order in which Go
  iterates over a map is an argument (\<open>perm\<close>), and so is the text of a time.
\<close>

section \<open>The model\<close>

record check =
  ck_name :: string
  ck_critical :: bool

record check_status =
  hs_name :: string
  hs_healthy :: bool
  hs_critical :: bool
  hs_error :: string
  hs_checked_at :: go_time

type_synonym status_table = "(string \<times> check_status) list"

text \<open>Where the evaluation stands: \<open>Start\<close> was not called, the copied checks are being probed, or the table is
  stored and the ticker is awaited.\<close>

datatype loop_state = LoopIdle | LoopProbing "check list" | LoopWaiting

record registry =
  rg_service :: string
  rg_version :: string
  rg_checks :: "check list"
  rg_status :: status_table
  rg_started :: bool
  rg_draining :: bool
  rg_interval :: duration
  rg_loop :: loop_state

definition new_registry :: "string \<Rightarrow> string \<Rightarrow> duration \<Rightarrow> registry" where
  "new_registry service version interval =
     \<lparr>rg_service = service, rg_version = version, rg_checks = [], rg_status = [], rg_started = False, rg_draining = False,
      rg_interval = (if interval \<le> 0 then 5 * second else interval), rg_loop = LoopIdle\<rparr>"

definition register_check :: "check \<Rightarrow> registry \<Rightarrow> registry" where
  "register_check c r = r\<lparr>rg_checks := rg_checks r @ [c]\<rparr>"

definition begin_draining :: "registry \<Rightarrow> registry" where
  "begin_draining r = r\<lparr>rg_draining := True\<rparr>"

text \<open>The answer of a probe: its error text, if any, and the clock after it.\<close>

type_synonym probe_answer = "string option \<times> go_time"

definition probe_status :: "check \<Rightarrow> probe_answer \<Rightarrow> check_status" where
  "probe_status c a = \<lparr>hs_name = ck_name c, hs_healthy = (fst a = None), hs_critical = ck_critical c,
     hs_error = (case fst a of Some e \<Rightarrow> e | None \<Rightarrow> []), hs_checked_at = snd a\<rparr>"

fun eval_results :: "(check \<times> probe_answer) list \<Rightarrow> status_table \<Rightarrow> status_table" where
  "eval_results [] results = results"
| "eval_results ((c, a) # cs) results = eval_results cs (AList.update (ck_name c) (probe_status c a) results)"

definition evaluate_begin :: "registry \<Rightarrow> registry" where
  "evaluate_begin r = r\<lparr>rg_loop := LoopProbing (rg_checks r)\<rparr>"

definition evaluate_end :: "(check \<times> probe_answer) list \<Rightarrow> registry \<Rightarrow> registry" where
  "evaluate_end answers r = r\<lparr>rg_status := eval_results answers [], rg_loop := LoopWaiting\<rparr>"

definition snapshot :: "(check_status list \<Rightarrow> check_status list) \<Rightarrow> registry \<Rightarrow> check_status list" where
  "snapshot perm r = perm (map snd (rg_status r))"

definition ready :: "registry \<Rightarrow> bool" where
  "ready r = (if rg_draining r \<or> \<not> rg_started r then False
     else list_all (\<lambda>s. \<not> (hs_critical s \<and> \<not> hs_healthy s)) (map snd (rg_status r)))"

section \<open>The probes\<close>

definition status_json :: "(go_time \<Rightarrow> string) \<Rightarrow> check_status \<Rightarrow> string" where
  "status_json fmt s = ''{'' @ join_with '',''
     ([str_member ''name'' (hs_name s),
       json_quote ''healthy'' @ '':'' @ (if hs_healthy s then ''true'' else ''false''),
       json_quote ''critical'' @ '':'' @ (if hs_critical s then ''true'' else ''false'')] @
      opt_member ''error'' (hs_error s) @ [json_quote ''checked_at'' @ '':'' @ json_quote (fmt (hs_checked_at s))]) @ ''}''"

definition probe_response :: "(go_time \<Rightarrow> string) \<Rightarrow> registry \<Rightarrow> string \<Rightarrow> check_status list \<Rightarrow> string" where
  "probe_response fmt r status checks = ''{'' @ join_with '',''
     ([str_member ''service'' (rg_service r), str_member ''version'' (rg_version r), str_member ''status'' status] @
      (if checks = [] then [] else [json_quote ''checks'' @ '':'' @ ''['' @ join_with '','' (map (status_json fmt) checks) @ '']''])) @ ''}''"

definition health_json :: "int \<Rightarrow> string \<Rightarrow> wop list" where
  "health_json status body = [SetHeader ''Content-Type'' ''application/json'', SetHeader ''Cache-Control'' ''no-store'',
     WriteHeader status, WriteBody (body @ [CHR 0x0A])]"

definition liveness_handler :: "(go_time \<Rightarrow> string) \<Rightarrow> registry \<Rightarrow> wop list" where
  "liveness_handler fmt r = health_json 200 (probe_response fmt r ''alive'' [])"

text \<open>\<open>Ready\<close> and \<open>Snapshot\<close> take the lock one after the other, so they can see two registries.\<close>

definition readiness_handler :: "(go_time \<Rightarrow> string) \<Rightarrow> (check_status list \<Rightarrow> check_status list) \<Rightarrow> registry \<Rightarrow> registry \<Rightarrow> wop list" where
  "readiness_handler fmt perm r r' =
     (if ready r then health_json 200 (probe_response fmt r ''ready'' (snapshot perm r'))
      else health_json 503 (probe_response fmt r ''not_ready'' (snapshot perm r')))"

definition startup_handler :: "(go_time \<Rightarrow> string) \<Rightarrow> registry \<Rightarrow> wop list" where
  "startup_handler fmt r =
     (if rg_started r then health_json 200 (probe_response fmt r ''started'' [])
      else health_json 503 (probe_response fmt r ''starting'' []))"

section \<open>Steps\<close>

datatype health_event = Registered check | Copied | Evaluated "(check \<times> probe_answer) list" | StartReturned | Drained

inductive hstep :: "registry \<Rightarrow> health_event \<Rightarrow> registry \<Rightarrow> bool" where
  step_register: "hstep r (Registered c) (register_check c r)"
| step_copy: "rg_loop r = LoopIdle \<or> (rg_loop r = LoopWaiting \<and> rg_started r) \<Longrightarrow> hstep r Copied (evaluate_begin r)"
| step_evaluated: "rg_loop r = LoopProbing (map fst answers) \<Longrightarrow> hstep r (Evaluated answers) (evaluate_end answers r)"
| step_started: "rg_loop r = LoopWaiting \<Longrightarrow> \<not> rg_started r \<Longrightarrow> hstep r StartReturned (r\<lparr>rg_started := True\<rparr>)"
| step_drain: "hstep r Drained (begin_draining r)"

inductive_cases hstepE: "hstep r e s"
inductive_simps hstep_simps [simp]:
  "hstep r (Registered c) s" "hstep r Copied s" "hstep r (Evaluated answers) s" "hstep r StartReturned s" "hstep r Drained s"

inductive hpath :: "registry \<Rightarrow> health_event list \<Rightarrow> registry \<Rightarrow> bool" where
  path_nil: "hpath r [] r"
| path_snoc: "hpath r es s \<Longrightarrow> hstep s e t \<Longrightarrow> hpath r (es @ [e]) t"

fun last_evaluation :: "health_event list \<Rightarrow> (check \<times> probe_answer) list option" where
  "last_evaluation [] = None"
| "last_evaluation (e # es) = (case last_evaluation es of Some a \<Rightarrow> Some a
     | None \<Rightarrow> (case e of Evaluated a \<Rightarrow> Some a | _ \<Rightarrow> None))"

lemma last_evaluation_snoc [simp]:
  "last_evaluation (es @ [e]) = (case e of Evaluated a \<Rightarrow> Some a | _ \<Rightarrow> last_evaluation es)"
  by (induction es) (auto split: health_event.split option.split)

section \<open>Lemmas\<close>

definition check_names :: "(check \<times> probe_answer) list \<Rightarrow> string list" where
  "check_names a = map (ck_name \<circ> fst) a"

definition failing :: "check \<times> probe_answer \<Rightarrow> bool" where
  "failing p \<longleftrightarrow> ck_critical (fst p) \<and> fst (snd p) \<noteq> None"

text \<open>No critical check failed, unless a later check has the same name.\<close>

fun no_unmasked_failure :: "(check \<times> probe_answer) list \<Rightarrow> bool" where
  "no_unmasked_failure [] = True"
| "no_unmasked_failure (p # ps) \<longleftrightarrow> (\<not> failing p \<or> ck_name (fst p) \<in> set (check_names ps)) \<and> no_unmasked_failure ps"

lemma no_failure_distinct:
  "distinct (check_names a) \<Longrightarrow> no_unmasked_failure a \<longleftrightarrow> list_all (\<lambda>p. \<not> failing p) a"
  by (induction a) (auto simp: check_names_def)

lemma set_update:
  "distinct (map fst t) \<Longrightarrow> set (AList.update k v t) = insert (k, v) {p \<in> set t. fst p \<noteq> k}"
proof (induction t)
  case Nil
  then show ?case by simp
next
  case (Cons q t)
  show ?case
  proof (cases "fst q = k")
    case True
    from Cons.prems have "fst q \<notin> fst ` set t" by simp
    with True have "\<forall>p \<in> set t. fst p \<noteq> k" by (metis image_eqI)
    then show ?thesis using True by (cases q) auto
  next
    case False
    then show ?thesis using Cons by (cases q) auto
  qed
qed

abbreviation passes :: "check_status \<Rightarrow> bool" where
  "passes s \<equiv> \<not> (hs_critical s \<and> \<not> hs_healthy s)"

lemma eval_results_ok:
  "distinct (map fst t) \<Longrightarrow>
     (\<forall>p \<in> set (eval_results a t). passes (snd p)) \<longleftrightarrow>
     no_unmasked_failure a \<and> (\<forall>p \<in> set t. fst p \<notin> set (check_names a) \<longrightarrow> passes (snd p))"
proof (induction a arbitrary: t)
  case Nil
  then show ?case by (simp add: check_names_def)
next
  case (Cons p a)
  obtain c x where p: "p = (c, x)" by (cases p)
  let ?t = "AList.update (ck_name c) (probe_status c x) t"
  have d: "distinct (map fst ?t)" using Cons.prems by (rule distinct_update)
  have f: "passes (probe_status c x) \<longleftrightarrow> \<not> failing p"
    by (simp add: p failing_def probe_status_def)
  have n: "set (check_names (p # a)) = insert (ck_name c) (set (check_names a))"
    by (simp add: check_names_def p)
  have u: "no_unmasked_failure (p # a) \<longleftrightarrow> (\<not> failing p \<or> ck_name c \<in> set (check_names a)) \<and> no_unmasked_failure a"
    by (simp add: p)
  have e: "eval_results (p # a) t = eval_results a ?t" by (simp add: p)
  have t: "(\<forall>q \<in> set ?t. fst q \<notin> set (check_names a) \<longrightarrow> passes (snd q)) \<longleftrightarrow>
      (ck_name c \<notin> set (check_names a) \<longrightarrow> \<not> failing p) \<and>
      (\<forall>q \<in> set t. fst q \<noteq> ck_name c \<longrightarrow> fst q \<notin> set (check_names a) \<longrightarrow> passes (snd q))"
    unfolding set_update [OF Cons.prems] using f by fastforce
  show ?case unfolding e Cons.IH [OF d] t u n by blast
qed

fun registered :: "health_event list \<Rightarrow> check list" where
  "registered [] = []"
| "registered (Registered c # es) = c # registered es"
| "registered (_ # es) = registered es"

lemma registered_snoc [simp]:
  "registered (es @ [e]) = registered es @ (case e of Registered c \<Rightarrow> [c] | _ \<Rightarrow> [])"
  by (induction es rule: registered.induct) (auto split: health_event.split)

lemma path_state:
  assumes "hpath r0 es r" and "r0 = new_registry service version interval"
  shows "(rg_draining r \<longleftrightarrow> Drained \<in> set es) \<and> (rg_started r \<longleftrightarrow> StartReturned \<in> set es) \<and>
    rg_status r = (case last_evaluation es of Some a \<Rightarrow> eval_results a [] | None \<Rightarrow> []) \<and>
    ((rg_started r \<or> rg_loop r = LoopWaiting) \<longrightarrow> last_evaluation es \<noteq> None) \<and>
    (case last_evaluation es of Some a \<Rightarrow> prefix (map fst a) (registered es) | None \<Rightarrow> True) \<and>
    rg_checks r = registered es \<and>
    (\<forall>cs. rg_loop r = LoopProbing cs \<longrightarrow> prefix cs (registered es))"
  using assms
proof (induction rule: hpath.induct)
  case (path_nil r)
  then show ?case by (simp add: new_registry_def)
next
  case (path_snoc r es s e t)
  note ih = path_snoc.IH [OF path_snoc.prems]
  from path_snoc.hyps(2) show ?case
    by (cases rule: hstep.cases)
      (use ih in \<open>auto simp: register_check_def evaluate_begin_def evaluate_end_def begin_draining_def split: option.splits\<close>)
qed

section \<open>Properties\<close>

text \<open>C14. Readiness, exactly: after any sequence of steps of a new registry, the readiness endpoint answers 200 when
  draining has not begun, \<open>Start\<close> has returned, and in the last evaluation every critical check that failed
  is followed by another check of the same name; it answers 503 otherwise. With distinct names that is every
  critical check of the last evaluation being healthy. The checks of an evaluation are the first ones
  registered, in order; one registered later counts from the next evaluation on.\<close>

theorem readiness_exact:
  assumes "hpath (new_registry service version interval) es r"
  shows "(hr_status (http_run (readiness_handler fmt perm r r')) =
      Some (if Drained \<notin> set es \<and> StartReturned \<in> set es \<and> no_unmasked_failure (the (last_evaluation es)) then 200 else 503)) \<and>
    (StartReturned \<in> set es \<longrightarrow>
      (\<exists>a. last_evaluation es = Some a \<and> prefix (map fst a) (registered es) \<and>
        (distinct (map ck_name (registered es)) \<longrightarrow> (no_unmasked_failure a \<longleftrightarrow> list_all (\<lambda>p. \<not> failing p) a))))"
proof -
  note st = path_state [OF assms refl]
  have r: "ready r \<longleftrightarrow> Drained \<notin> set es \<and> StartReturned \<in> set es \<and> no_unmasked_failure (the (last_evaluation es))"
    using st eval_results_ok [of "[]" "the (last_evaluation es)"]
    by (cases "rg_draining r \<or> \<not> rg_started r") (auto simp: ready_def list_all_iff simp del: split_paired_All split_paired_Ball_Sigma)
  have h: "hr_status (http_run (readiness_handler fmt perm r r')) = Some (if ready r then 200 else 503)"
    by (simp add: readiness_handler_def health_json_def http_run_def empty_resp_def)
  have "\<exists>a. last_evaluation es = Some a \<and> prefix (map fst a) (registered es) \<and>
        (distinct (map ck_name (registered es)) \<longrightarrow> (no_unmasked_failure a \<longleftrightarrow> list_all (\<lambda>p. \<not> failing p) a))"
    if "StartReturned \<in> set es"
  proof -
    from st that obtain a where a: "last_evaluation es = Some a" "prefix (map fst a) (registered es)" by auto
    moreover have "no_unmasked_failure a \<longleftrightarrow> list_all (\<lambda>p. \<not> failing p) a" if "distinct (map ck_name (registered es))"
      using that a(2) by (intro no_failure_distinct) (auto simp: check_names_def prefix_def)
    ultimately show ?thesis by blast
  qed
  then show ?thesis using h r by simp
qed

definition sample_path :: "(check \<times> probe_answer) list \<Rightarrow> health_event list" where
  "sample_path a = map (Registered \<circ> fst) a @ [Copied, Evaluated a, StartReturned]"

lemma hpath_registered: "hpath r (map (Registered \<circ> fst) a) (r\<lparr>rg_checks := rg_checks r @ map fst a\<rparr>)"
proof (induction a rule: rev_induct)
  case Nil
  then show ?case by (simp add: path_nil)
next
  case (snoc p a)
  have "hpath r (map (Registered \<circ> fst) a @ [Registered (fst p)])
      (register_check (fst p) (r\<lparr>rg_checks := rg_checks r @ map fst a\<rparr>))"
    using snoc by (rule path_snoc) simp
  then show ?case by (simp add: register_check_def comp_def)
qed

lemma hpath_sample:
  "\<exists>r. hpath (new_registry service version interval) (sample_path a) r \<and> rg_status r = eval_results a [] \<and>
     rg_started r \<and> \<not> rg_draining r"
proof -
  let ?r0 = "new_registry service version interval"
  let ?r1 = "?r0\<lparr>rg_checks := rg_checks ?r0 @ map fst a\<rparr>"
  let ?r2 = "evaluate_begin ?r1"
  let ?r3 = "evaluate_end a ?r2"
  let ?r4 = "?r3\<lparr>rg_started := True\<rparr>"
  have 1: "hpath ?r0 (map (Registered \<circ> fst) a) ?r1" by (rule hpath_registered)
  have 2: "hpath ?r0 (map (Registered \<circ> fst) a @ [Copied]) ?r2"
    by (rule path_snoc [OF 1]) (simp add: new_registry_def)
  have 3: "hpath ?r0 ((map (Registered \<circ> fst) a @ [Copied]) @ [Evaluated a]) ?r3"
    by (rule path_snoc [OF 2]) (simp add: new_registry_def evaluate_begin_def)
  have 4: "hpath ?r0 (((map (Registered \<circ> fst) a @ [Copied]) @ [Evaluated a]) @ [StartReturned]) ?r4"
    by (rule path_snoc [OF 3]) (simp add: new_registry_def evaluate_begin_def evaluate_end_def)
  show ?thesis
    by (intro exI [of _ ?r4] conjI)
      (use 4 in \<open>simp_all add: sample_path_def new_registry_def evaluate_begin_def evaluate_end_def\<close>)
qed

theorem readiness_exact_witness:
  "\<exists>es r. hpath (new_registry ''api'' ''1'' 0) es r \<and>
     hr_status (http_run (readiness_handler (\<lambda>t. []) (\<lambda>x. x) r r)) = Some 200"
proof -
  let ?a = "[(\<lparr>ck_name = ''db'', ck_critical = True\<rparr>, (None, 0)), (\<lparr>ck_name = ''cache'', ck_critical = False\<rparr>, (Some ''down'', 0))]"
  obtain r where r: "hpath (new_registry ''api'' ''1'' 0) (sample_path ?a) r" using hpath_sample by blast
  have "hr_status (http_run (readiness_handler (\<lambda>t. []) (\<lambda>x. x) r r)) = Some 200"
    using readiness_exact [OF r, of "\<lambda>t. []" "\<lambda>x. x" r] by (simp add: sample_path_def failing_def)
  with r show ?thesis by blast
qed

text \<open>The results are kept by name, and \<open>Register\<close> accepts a name twice: a critical check that fails does not
  make the service unready when a check of the same name follows it.\<close>

theorem failing_check_masked:
  "\<exists>r. hpath (new_registry service version interval) (sample_path
      [(\<lparr>ck_name = n, ck_critical = True\<rparr>, (Some e, t)), (\<lparr>ck_name = n, ck_critical = False\<rparr>, (None, t))]) r \<and> ready r"
  using hpath_sample
    [of service version interval "[(\<lparr>ck_name = n, ck_critical = True\<rparr>, (Some e, t)), (\<lparr>ck_name = n, ck_critical = False\<rparr>, (None, t))]"]
  by (auto simp: ready_def probe_status_def)

end
