(* ===== verification/Money.thy ===== *)
theory Money
  imports Complex_Main Ids
begin

text \<open>
  \<open>src/money/money.go\<close>: amounts, asset codes, and their text, column and JSON forms. The decimal library
  (\<open>shopspring/decimal\<close>) is the argument \<open>dc\<close>. Its numbers are a type parameter; \<open>decimal_laws\<close> says
  what the operations mean in terms of the rational number \<open>val d\<close> a decimal denotes: the arithmetic is exact,
  \<open>Exponent\<close> bounds the decimal places, \<open>NewFromString\<close> reads plain decimal notation, \<open>StringFixed\<close> rounds half
  away from zero to a number of places, and \<open>String\<close> prints with as few places as the number needs. What
  \<open>NewFromString\<close> answers on any other text is left open.
\<close>

section \<open>Decimal notation\<close>

definition digit_text :: "string \<Rightarrow> bool" where
  "digit_text s \<longleftrightarrow> list_all (\<lambda>c. 48 \<le> byte_val c \<and> byte_val c \<le> 57) s"

text \<open>An optional minus sign, digits, and decimal places after a point when there are any.\<close>

definition plain_text :: "bool \<Rightarrow> string \<Rightarrow> string \<Rightarrow> string" where
  "plain_text neg ds fs = (if neg then ''-'' else []) @ ds @ (if fs = [] then [] else CHR ''.'' # fs)"

definition plain_value :: "bool \<Rightarrow> string \<Rightarrow> string \<Rightarrow> rat" where
  "plain_value neg ds fs = (if neg then -1 else 1) *
     of_int (case digits_val 0 (ds @ fs) of Some n \<Rightarrow> n | None \<Rightarrow> 0) / 10 ^ length fs"

definition round_half_away :: "rat \<Rightarrow> int" where
  "round_half_away q = (if q < 0 then - \<lfloor>- q + 1 / 2\<rfloor> else \<lfloor>q + 1 / 2\<rfloor>)"

definition plain_or_sign :: "char \<Rightarrow> bool" where
  "plain_or_sign c \<longleftrightarrow> (48 \<le> byte_val c \<and> byte_val c \<le> 57) \<or> c = CHR ''-'' \<or> c = CHR ''.''"

text \<open>The number rounded to \<open>n\<close> places, and its text.\<close>

definition round_places :: "nat \<Rightarrow> rat \<Rightarrow> rat" where
  "round_places n q = of_int (round_half_away (q * 10 ^ n)) / 10 ^ n"

definition padded_digits :: "nat \<Rightarrow> nat \<Rightarrow> string" where
  "padded_digits n m = replicate (Suc n - length (show_nat m)) (CHR ''0'') @ show_nat m"

definition fixed_text :: "nat \<Rightarrow> rat \<Rightarrow> string" where
  "fixed_text n q = (let m = round_half_away (q * 10 ^ n); t = padded_digits n (nat \<bar>m\<bar>); k = length t - n
     in plain_text (m < 0) (take k t) (drop k t))"

definition at_scale :: "nat \<Rightarrow> rat \<Rightarrow> bool" where
  "at_scale n q \<longleftrightarrow> q * 10 ^ n \<in> \<int>"

section \<open>The decimal library\<close>

record 'd decimal_lib =
  dc_zero :: 'd
  dc_parse :: "string \<Rightarrow> 'd option"
  dc_int :: "int \<Rightarrow> 'd"
  dc_exponent :: "'d \<Rightarrow> int"
  dc_abs :: "'d \<Rightarrow> 'd"
  dc_greater :: "'d \<Rightarrow> 'd \<Rightarrow> bool"
  dc_add :: "'d \<Rightarrow> 'd \<Rightarrow> 'd"
  dc_sub :: "'d \<Rightarrow> 'd \<Rightarrow> 'd"
  dc_mul :: "'d \<Rightarrow> 'd \<Rightarrow> 'd"
  dc_is_zero :: "'d \<Rightarrow> bool"
  dc_is_negative :: "'d \<Rightarrow> bool"
  dc_is_positive :: "'d \<Rightarrow> bool"
  dc_equal :: "'d \<Rightarrow> 'd \<Rightarrow> bool"
  dc_cmp :: "'d \<Rightarrow> 'd \<Rightarrow> int"
  dc_string_fixed :: "'d \<Rightarrow> int \<Rightarrow> string"
  dc_string :: "'d \<Rightarrow> string"

definition decimal_laws :: "'d decimal_lib \<Rightarrow> ('d \<Rightarrow> rat) \<Rightarrow> bool" where
  "decimal_laws dc val \<longleftrightarrow>
     val (dc_zero dc) = 0 \<and> (\<forall>n. val (dc_int dc n) = of_int n) \<and>
     (\<forall>d. at_scale (nat (- dc_exponent dc d)) (val d)) \<and>
     (\<forall>d. val (dc_abs dc d) = \<bar>val d\<bar>) \<and> (\<forall>d e. dc_greater dc d e \<longleftrightarrow> val e < val d) \<and>
     (\<forall>d e. val (dc_add dc d e) = val d + val e) \<and> (\<forall>d e. val (dc_sub dc d e) = val d - val e) \<and>
     (\<forall>d e. val (dc_mul dc d e) = val d * val e) \<and>
     (\<forall>d. dc_is_zero dc d \<longleftrightarrow> val d = 0) \<and> (\<forall>d. dc_is_negative dc d \<longleftrightarrow> val d < 0) \<and>
     (\<forall>d. dc_is_positive dc d \<longleftrightarrow> 0 < val d) \<and> (\<forall>d e. dc_equal dc d e \<longleftrightarrow> val d = val e) \<and>
     (\<forall>d e. dc_cmp dc d e = (if val d < val e then -1 else if val d = val e then 0 else 1)) \<and>
     (\<forall>neg ds fs. ds \<noteq> [] \<longrightarrow> digit_text (ds @ fs) \<longrightarrow>
        (\<exists>d. dc_parse dc (plain_text neg ds fs) = Some d \<and> val d = plain_value neg ds fs \<and> dc_exponent dc d = - int (length fs))) \<and>
     (\<forall>d n. dc_string_fixed dc d (int n) = fixed_text n (val d)) \<and>
     (\<forall>d. \<exists>k. dc_string dc d = fixed_text k (val d) \<and> at_scale k (val d) \<and> (\<forall>j < k. \<not> at_scale j (val d)))"

section \<open>Asset codes\<close>

definition scale :: int where "scale = 8"

definition err_invalid_amount :: go_error where "err_invalid_amount = Sentinel ''invalid amount''"
definition err_invalid_asset :: go_error where "err_invalid_asset = Sentinel ''invalid asset code''"
definition err_negative :: go_error where "err_negative = Sentinel ''amount must not be negative''"
definition err_asset_mismatch :: go_error where "err_asset_mismatch = Sentinel ''asset code mismatch''"

type_synonym asset = string

definition asset_usd :: asset where "asset_usd = ''USD''"
definition asset_rub :: asset where "asset_rub = ''RUB''"
definition asset_usdt :: asset where "asset_usdt = ''USDT''"
definition asset_moricoin :: asset where "asset_moricoin = ''MORICOIN''"

definition settlement_assets :: "asset list" where
  "settlement_assets = [asset_rub, asset_usd]"

definition asset_string :: "asset \<Rightarrow> string" where
  "asset_string a = a"

definition is_settlement :: "asset \<Rightarrow> bool" where
  "is_settlement a = list_ex (\<lambda>candidate. a = candidate) settlement_assets"

definition asset_char :: "char \<Rightarrow> bool" where
  "asset_char r \<longleftrightarrow> \<not> ((byte_val r < 65 \<or> 90 < byte_val r) \<and> (byte_val r < 48 \<or> 57 < byte_val r) \<and> r \<noteq> CHR ''_'')"

text \<open>The loop runs over runes; a rune outside ASCII fails the test, and so does each of its bytes here.\<close>

definition parse_asset :: "(string \<Rightarrow> string) \<Rightarrow> string \<Rightarrow> go_error + asset" where
  "parse_asset uni s = (let v = trim_space (to_upper uni s) in
     if v = [] \<or> length v > 16 then Inl (wrap_err s err_invalid_asset)
     else if list_ex (\<lambda>r. \<not> asset_char r) v then Inl (wrap_err s err_invalid_asset)
     else Inr v)"

section \<open>Amounts\<close>

record 'd amount =
  am_d :: 'd

definition zero_amount :: "'d decimal_lib \<Rightarrow> 'd amount" where
  "zero_amount dc = \<lparr>am_d = dc_zero dc\<rparr>"

definition from_string :: "'d decimal_lib \<Rightarrow> string \<Rightarrow> go_error + 'd amount" where
  "from_string dc s = (let t = trim_space s in
     if t = [] then Inl (wrap_err ''empty'' err_invalid_amount)
     else if list_ex (\<lambda>c. c = CHR ''e'' \<or> c = CHR ''E'') t
       then Inl (wrap_err ''scientific notation is not accepted'' err_invalid_amount)
     else case dc_parse dc t of
       None \<Rightarrow> Inl (wrap_err s err_invalid_amount)
     | Some d \<Rightarrow>
         if dc_exponent dc d < - scale then Inl (wrap_err ''more than 8 decimal places'' err_invalid_amount)
         else if dc_greater dc (dc_abs dc d) (dc_int dc 1000000000000) then Inl (wrap_err ''out of range'' err_invalid_amount)
         else Inr \<lparr>am_d = d\<rparr>)"

text \<open>\<open>None\<close> is the panic.\<close>

definition must_from_string :: "'d decimal_lib \<Rightarrow> string \<Rightarrow> 'd amount option" where
  "must_from_string dc s = (case from_string dc s of Inl e \<Rightarrow> None | Inr a \<Rightarrow> Some a)"

definition from_int :: "'d decimal_lib \<Rightarrow> int \<Rightarrow> 'd amount" where
  "from_int dc v = \<lparr>am_d = dc_int dc v\<rparr>"

definition amount_string :: "'d decimal_lib \<Rightarrow> 'd amount \<Rightarrow> string" where
  "amount_string dc a = dc_string_fixed dc (am_d a) 2"

definition string_exact :: "'d decimal_lib \<Rightarrow> 'd amount \<Rightarrow> string" where
  "string_exact dc a = dc_string dc (am_d a)"

definition amount_decimal :: "'d amount \<Rightarrow> 'd" where
  "amount_decimal a = am_d a"

definition amount_add :: "'d decimal_lib \<Rightarrow> 'd amount \<Rightarrow> 'd amount \<Rightarrow> 'd amount" where
  "amount_add dc a b = \<lparr>am_d = dc_add dc (am_d a) (am_d b)\<rparr>"

definition amount_sub :: "'d decimal_lib \<Rightarrow> 'd amount \<Rightarrow> 'd amount \<Rightarrow> 'd amount" where
  "amount_sub dc a b = \<lparr>am_d = dc_sub dc (am_d a) (am_d b)\<rparr>"

definition mul_int :: "'d decimal_lib \<Rightarrow> 'd amount \<Rightarrow> int \<Rightarrow> 'd amount" where
  "mul_int dc a n = \<lparr>am_d = dc_mul dc (am_d a) (dc_int dc n)\<rparr>"

definition amount_is_zero :: "'d decimal_lib \<Rightarrow> 'd amount \<Rightarrow> bool" where
  "amount_is_zero dc a = dc_is_zero dc (am_d a)"

definition amount_is_negative :: "'d decimal_lib \<Rightarrow> 'd amount \<Rightarrow> bool" where
  "amount_is_negative dc a = dc_is_negative dc (am_d a)"

definition amount_is_positive :: "'d decimal_lib \<Rightarrow> 'd amount \<Rightarrow> bool" where
  "amount_is_positive dc a = dc_is_positive dc (am_d a)"

definition amount_equal :: "'d decimal_lib \<Rightarrow> 'd amount \<Rightarrow> 'd amount \<Rightarrow> bool" where
  "amount_equal dc a b = dc_equal dc (am_d a) (am_d b)"

definition amount_cmp :: "'d decimal_lib \<Rightarrow> 'd amount \<Rightarrow> 'd amount \<Rightarrow> int" where
  "amount_cmp dc a b = dc_cmp dc (am_d a) (am_d b)"

section \<open>Columns and JSON\<close>

definition amount_value :: "'d decimal_lib \<Rightarrow> 'd amount \<Rightarrow> sql_value" where
  "amount_value dc a = SqlString (dc_string_fixed dc (am_d a) scale)"

definition amount_scan :: "'d decimal_lib \<Rightarrow> sql_value \<Rightarrow> go_error + 'd amount" where
  "amount_scan dc src = (case src of
       SqlNull \<Rightarrow> Inr (zero_amount dc)
     | SqlBytes v \<Rightarrow> (case dc_parse dc v of None \<Rightarrow> Inl (wrap_err v err_invalid_amount) | Some d \<Rightarrow> Inr \<lparr>am_d = d\<rparr>)
     | SqlString v \<Rightarrow> (case dc_parse dc v of None \<Rightarrow> Inl (wrap_err v err_invalid_amount) | Some d \<Rightarrow> Inr \<lparr>am_d = d\<rparr>)
     | _ \<Rightarrow> Inl (wrap_err ''unsupported scan type'' err_invalid_amount))"

definition amount_marshal :: "'d decimal_lib \<Rightarrow> 'd amount \<Rightarrow> string" where
  "amount_marshal dc a = json_quote (amount_string dc a)"

definition amount_unmarshal :: "'d decimal_lib \<Rightarrow> string \<Rightarrow> go_error + 'd amount" where
  "amount_unmarshal dc b = (case unmarshal Some b of
       Some (JStr s) \<Rightarrow> from_string dc s
     | Some JNull \<Rightarrow> from_string dc []
     | _ \<Rightarrow> Inl (wrap_err ''amounts must be JSON strings'' err_invalid_amount))"

section \<open>Money\<close>

record 'd money =
  mn_amount :: "'d amount"
  mn_asset :: asset

definition new_money :: "'d decimal_lib \<Rightarrow> (string \<Rightarrow> string) \<Rightarrow> string \<Rightarrow> string \<Rightarrow> go_error + 'd money" where
  "new_money dc uni amt asset = (case from_string dc amt of
       Inl e \<Rightarrow> Inl e
     | Inr a \<Rightarrow> (case parse_asset uni asset of
           Inl e \<Rightarrow> Inl e
         | Inr code \<Rightarrow> Inr \<lparr>mn_amount = a, mn_asset = code\<rparr>))"

definition must_new :: "'d decimal_lib \<Rightarrow> (string \<Rightarrow> string) \<Rightarrow> string \<Rightarrow> string \<Rightarrow> 'd money option" where
  "must_new dc uni amt asset = (case new_money dc uni amt asset of Inl e \<Rightarrow> None | Inr m \<Rightarrow> Some m)"

definition money_add :: "'d decimal_lib \<Rightarrow> 'd money \<Rightarrow> 'd money \<Rightarrow> go_error + 'd money" where
  "money_add dc m o' = (if mn_asset m \<noteq> mn_asset o'
     then Inl (wrap_err (mn_asset m @ '' vs '' @ mn_asset o') err_asset_mismatch)
     else Inr \<lparr>mn_amount = amount_add dc (mn_amount m) (mn_amount o'), mn_asset = mn_asset m\<rparr>)"

definition money_string :: "'d decimal_lib \<Rightarrow> 'd money \<Rightarrow> string" where
  "money_string dc m = amount_string dc (mn_amount m) @ '' '' @ asset_string (mn_asset m)"

section \<open>Rounding and text\<close>

lemma round_half_away_Ints: "q \<in> \<int> \<Longrightarrow> of_int (round_half_away q) = q"
  by (auto simp: round_half_away_def elim!: Ints_cases) linarith+

lemma round_small:
  assumes "\<bar>q\<bar> < 1 / 200"
  shows "round_places 2 q = 0"
proof (cases "q < 0")
  case True
  have "\<lfloor>- (q * 100) + 1 / 2\<rfloor> = 0" unfolding floor_eq_iff using assms True by (simp add: abs_if)
  then show ?thesis using True by (simp add: round_places_def round_half_away_def)
next
  case False
  have "\<lfloor>q * 100 + 1 / 2\<rfloor> = 0" unfolding floor_eq_iff using assms False by (simp add: abs_if)
  then show ?thesis using False by (simp add: round_places_def round_half_away_def)
qed

lemma at_scale_round: "at_scale n (round_places n q)"
  by (simp add: at_scale_def round_places_def)

lemma round_places_exact: "at_scale n q \<Longrightarrow> round_places n q = q"
  by (simp add: round_places_def at_scale_def round_half_away_Ints)

lemma at_scale_arith:
  "at_scale n p \<Longrightarrow> at_scale n q \<Longrightarrow> at_scale n (p + q)"
  "at_scale n p \<Longrightarrow> at_scale n q \<Longrightarrow> at_scale n (p - q)"
  "at_scale n p \<Longrightarrow> at_scale n (p * of_int k)"
  "at_scale n (of_int k)"
proof -
  assume p: "at_scale n p"
  show "at_scale n (p + q)" if "at_scale n q"
    using p that by (simp add: at_scale_def distrib_right)
  show "at_scale n (p - q)" if "at_scale n q"
    using p that by (simp add: at_scale_def left_diff_distrib)
  have "(p * of_int k) * 10 ^ n = (p * 10 ^ n) * of_int k" by simp
  then show "at_scale n (p * of_int k)" using p by (simp only: at_scale_def Ints_mult Ints_of_int)
qed (simp add: at_scale_def)

lemma at_scale_mono: "at_scale j q \<Longrightarrow> j \<le> n \<Longrightarrow> at_scale n q"
proof -
  assume q: "at_scale j q" and "j \<le> n"
  then obtain k where n: "n = j + k" by (auto simp: le_iff_add)
  have "q * 10 ^ n = (q * 10 ^ j) * 10 ^ k" by (simp only: n power_add mult.assoc)
  moreover have "(10 :: rat) ^ k \<in> \<int>" by simp
  ultimately show ?thesis using q by (simp only: at_scale_def Ints_mult)
qed

lemma digit_text_simps [simp]:
  "digit_text []" "digit_text (c # s) \<longleftrightarrow> 48 \<le> byte_val c \<and> byte_val c \<le> 57 \<and> digit_text s"
  "digit_text (s @ t) \<longleftrightarrow> digit_text s \<and> digit_text t"
  by (auto simp: digit_text_def)

lemma digit_text_zeros [simp]: "digit_text (replicate n (CHR ''0''))"
  by (induction n) (auto simp: byte_val_def)

lemma digit_text_show_nat [simp]: "digit_text (show_nat n)"
  using show_nat_digits by (auto simp: digit_text_def list_all_iff)

lemma digits_val_zeros: "digits_val 0 (replicate n (CHR ''0'') @ s) = digits_val 0 s"
  by (induction n) (auto simp: byte_val_def)

lemma padded_digits_facts:
  "digit_text (padded_digits n m)" "n < length (padded_digits n m)" "digits_val 0 (padded_digits n m) = Some (int m)"
  by (auto simp: padded_digits_def digits_val_zeros digits_val_show_nat)

lemma fixed_text_plain:
  "\<exists>neg ds fs. fixed_text n q = plain_text neg ds fs \<and> ds \<noteq> [] \<and> digit_text (ds @ fs) \<and> length fs = n \<and>
     plain_value neg ds fs = round_places n q"
proof -
  let ?m = "round_half_away (q * 10 ^ n)"
  let ?t = "padded_digits n (nat \<bar>?m\<bar>)"
  let ?k = "length ?t - n"
  note t = padded_digits_facts [of n "nat \<bar>?m\<bar>"]
  have "plain_value (?m < 0) (take ?k ?t) (drop ?k ?t) = round_places n q"
    using t by (simp add: plain_value_def round_places_def)
  moreover have "take ?k ?t \<noteq> []" using t(2) by auto
  moreover have "digit_text (take ?k ?t @ drop ?k ?t)" using t(1) by simp
  moreover have "length (drop ?k ?t) = n" using t(2) by simp
  ultimately show ?thesis by (metis fixed_text_def)
qed

lemma plain_text_visible:
  assumes "ds \<noteq> []" and "digit_text (ds @ fs)"
  shows "trim_space (plain_text neg ds fs) = plain_text neg ds fs"
    and "\<not> list_ex (\<lambda>c. c = CHR ''e'' \<or> c = CHR ''E'') (plain_text neg ds fs)"
    and "list_all plain_or_sign (plain_text neg ds fs)"
proof -
  have all: "\<forall>c \<in> set (plain_text neg ds fs). (48 \<le> byte_val c \<and> byte_val c \<le> 57) \<or> c = CHR ''-'' \<or> c = CHR ''.''"
    using assms(2) by (auto simp: plain_text_def digit_text_def list_all_iff)
  have vis: "\<forall>c \<in> set (plain_text neg ds fs). visible c"
    using all by (auto simp: visible_def byte_val_def)
  have ne: "plain_text neg ds fs \<noteq> []" using assms(1) by (simp add: plain_text_def)
  show "trim_space (plain_text neg ds fs) = plain_text neg ds fs"
    using ne vis by (intro trim_space_visible) auto
  have "\<forall>c \<in> set (plain_text neg ds fs). c \<noteq> CHR ''e'' \<and> c \<noteq> CHR ''E''"
    using all by (auto simp: byte_val_def)
  then show "\<not> list_ex (\<lambda>c. c = CHR ''e'' \<or> c = CHR ''E'') (plain_text neg ds fs)"
    by (auto simp: list_ex_iff)
  show "list_all plain_or_sign (plain_text neg ds fs)"
    using all by (auto simp: plain_or_sign_def list_all_iff)
qed

section \<open>The laws, one by one\<close>

lemma decimal_lawsD:
  assumes "decimal_laws dc val"
  shows "val (dc_zero dc) = 0" "val (dc_int dc n) = of_int n" "at_scale (nat (- dc_exponent dc d)) (val d)"
    "val (dc_abs dc d) = \<bar>val d\<bar>" "dc_greater dc d e \<longleftrightarrow> val e < val d" "val (dc_add dc d e) = val d + val e"
    "val (dc_sub dc d e) = val d - val e" "val (dc_mul dc d e) = val d * val e" "dc_is_zero dc d \<longleftrightarrow> val d = 0"
    "dc_equal dc d e \<longleftrightarrow> val d = val e" "dc_string_fixed dc d (int k) = fixed_text k (val d)"
  using assms by (simp_all add: decimal_laws_def)

lemma string_law:
  assumes "decimal_laws dc val"
  shows "\<exists>k. dc_string dc d = fixed_text k (val d) \<and> at_scale k (val d) \<and> (\<forall>j < k. \<not> at_scale j (val d))"
proof -
  have "\<forall>d. \<exists>k. dc_string dc d = fixed_text k (val d) \<and> at_scale k (val d) \<and> (\<forall>j < k. \<not> at_scale j (val d))"
    using assms unfolding decimal_laws_def by (elim conjE)
  then show ?thesis by (rule spec)
qed

lemma parse_plain:
  assumes "decimal_laws dc val" and "ds \<noteq> []" and "digit_text (ds @ fs)"
  shows "\<exists>d. dc_parse dc (plain_text neg ds fs) = Some d \<and> val d = plain_value neg ds fs \<and> dc_exponent dc d = - int (length fs)"
  using assms unfolding decimal_laws_def by blast

lemma parse_fixed:
  assumes "decimal_laws dc val"
  shows "\<exists>d. dc_parse dc (fixed_text n q) = Some d \<and> val d = round_places n q \<and> dc_exponent dc d = - int n"
  using fixed_text_plain [of n q] parse_plain [OF assms] by metis

text \<open>\<open>FromString\<close> on plain decimal notation.\<close>

lemma from_string_plain:
  assumes "decimal_laws dc val" and "ds \<noteq> []" and "digit_text (ds @ fs)"
  shows "\<exists>d. val d = plain_value neg ds fs \<and> from_string dc (plain_text neg ds fs) =
    (if 8 < length fs then Inl (wrap_err ''more than 8 decimal places'' err_invalid_amount)
     else if 1000000000000 < \<bar>plain_value neg ds fs\<bar> then Inl (wrap_err ''out of range'' err_invalid_amount)
     else Inr \<lparr>am_d = d\<rparr>)"
proof -
  obtain d where d: "dc_parse dc (plain_text neg ds fs) = Some d" "val d = plain_value neg ds fs"
      "dc_exponent dc d = - int (length fs)"
    using parse_plain [OF assms] by blast
  have "plain_text neg ds fs \<noteq> []" using assms(2) by (simp add: plain_text_def)
  then have "from_string dc (plain_text neg ds fs) =
    (if 8 < length fs then Inl (wrap_err ''more than 8 decimal places'' err_invalid_amount)
     else if 1000000000000 < \<bar>plain_value neg ds fs\<bar> then Inl (wrap_err ''out of range'' err_invalid_amount)
     else Inr \<lparr>am_d = d\<rparr>)"
    using d plain_text_visible [OF assms(2, 3)]
    by (simp add: from_string_def Let_def scale_def decimal_lawsD [OF assms(1)])
  with d(2) show ?thesis by blast
qed

lemma from_string_fixed:
  assumes "decimal_laws dc val"
  shows "\<exists>d. val d = round_places n q \<and> from_string dc (fixed_text n q) =
    (if 8 < n then Inl (wrap_err ''more than 8 decimal places'' err_invalid_amount)
     else if 1000000000000 < \<bar>round_places n q\<bar> then Inl (wrap_err ''out of range'' err_invalid_amount)
     else Inr \<lparr>am_d = d\<rparr>)"
  using fixed_text_plain [of n q] from_string_plain [OF assms] by metis

lemma from_string_bounds:
  assumes "decimal_laws dc val" and "from_string dc s = Inr a"
  shows "at_scale 8 (val (am_d a))" and "\<bar>val (am_d a)\<bar> \<le> 1000000000000"
proof -
  have e: "- 8 \<le> dc_exponent dc (am_d a)" and "\<bar>val (am_d a)\<bar> \<le> 1000000000000"
    using assms(2) by (auto simp: from_string_def Let_def scale_def decimal_lawsD [OF assms(1)] split: if_splits option.splits)
  then show "\<bar>val (am_d a)\<bar> \<le> 1000000000000" by simp
  have "at_scale (nat (- dc_exponent dc (am_d a))) (val (am_d a))" by (rule decimal_lawsD [OF assms(1)])
  moreover have "nat (- dc_exponent dc (am_d a)) \<le> 8" using e by simp
  ultimately show "at_scale 8 (val (am_d a))" by (rule at_scale_mono)
qed

lemma from_string_error: "from_string dc s = Inl e \<Longrightarrow> err_is e ''invalid amount''"
  by (auto simp: from_string_def Let_def err_invalid_amount_def split: if_splits option.splits)

lemma fixed_text_ascii: "utf8_ok (fixed_text n q)"
proof -
  have ascii: "utf8_ok s" if "list_all plain_or_sign s" for s
    using that by (induction s) (auto simp: plain_or_sign_def byte_val_def)
  obtain neg ds fs where f: "fixed_text n q = plain_text neg ds fs" "ds \<noteq> []" "digit_text (ds @ fs)"
    using fixed_text_plain [of n q] by blast
  show ?thesis using plain_text_visible(3) [OF f(2, 3), of neg] unfolding f(1) by (rule ascii)
qed

section \<open>A decimal library\<close>

text \<open>The laws hold of numbers kept as a coefficient and a number of decimal places.\<close>

definition dec_val :: "int \<times> nat \<Rightarrow> rat" where
  "dec_val d = of_int (fst d) / 10 ^ snd d"

fun strip_zeros :: "int \<Rightarrow> nat \<Rightarrow> int \<times> nat" where
  "strip_zeros c 0 = (c, 0)"
| "strip_zeros c (Suc k) = (if c mod 10 = 0 then strip_zeros (c div 10) k else (c, Suc k))"

definition dec_parse :: "string \<Rightarrow> (int \<times> nat) option" where
  "dec_parse s = (let neg = (s \<noteq> [] \<and> hd s = CHR ''-''); r = (if neg then tl s else s);
       ds = takeWhile (\<lambda>c. c \<noteq> CHR ''.'') r; fs = drop (Suc (length ds)) r
     in if ds = [] then None else case digits_val 0 (ds @ fs) of
        None \<Rightarrow> None
      | Some n \<Rightarrow> Some (if neg then - n else n, length fs))"

definition dec_lib :: "(int \<times> nat) decimal_lib" where
  "dec_lib = \<lparr>dc_zero = (0, 0), dc_parse = dec_parse, dc_int = (\<lambda>n. (n, 0)), dc_exponent = (\<lambda>d. - int (snd d)),
     dc_abs = (\<lambda>d. (\<bar>fst d\<bar>, snd d)), dc_greater = (\<lambda>d e. dec_val e < dec_val d),
     dc_add = (\<lambda>d e. (fst d * 10 ^ snd e + fst e * 10 ^ snd d, snd d + snd e)),
     dc_sub = (\<lambda>d e. (fst d * 10 ^ snd e - fst e * 10 ^ snd d, snd d + snd e)),
     dc_mul = (\<lambda>d e. (fst d * fst e, snd d + snd e)), dc_is_zero = (\<lambda>d. dec_val d = 0),
     dc_is_negative = (\<lambda>d. dec_val d < 0), dc_is_positive = (\<lambda>d. 0 < dec_val d), dc_equal = (\<lambda>d e. dec_val d = dec_val e),
     dc_cmp = (\<lambda>d e. if dec_val d < dec_val e then -1 else if dec_val d = dec_val e then 0 else 1),
     dc_string_fixed = (\<lambda>d n. fixed_text (nat n) (dec_val d)),
     dc_string = (\<lambda>d. fixed_text (snd (strip_zeros (fst d) (snd d))) (dec_val d))\<rparr>"

lemma strip_zeros_facts:
  "strip_zeros c k = (c', k') \<Longrightarrow> dec_val (c, k) = dec_val (c', k') \<and> (k' = 0 \<or> c' mod 10 \<noteq> 0)"
proof (induction c k rule: strip_zeros.induct)
  case (1 c)
  then show ?case by simp
next
  case (2 c k)
  show ?case
  proof (cases "c mod 10 = 0")
    case True
    then have "c = 10 * (c div 10)" by presburger
    then have "dec_val (c, Suc k) = dec_val (c div 10, k)"
      by (metis dec_val_def fst_conv mult_divide_mult_cancel_left of_int_mult of_int_numeral power_Suc snd_conv zero_neq_numeral)
    with 2 True show ?thesis by simp
  next
    case False
    with "2.prems" show ?thesis by auto
  qed
qed

lemma dec_val_places:
  assumes "c mod 10 \<noteq> 0" and "j < k"
  shows "\<not> at_scale j (dec_val (c, k))"
proof
  assume "at_scale j (dec_val (c, k))"
  then obtain m where m: "of_int c / 10 ^ k * 10 ^ j = (of_int m :: rat)" by (auto simp: at_scale_def dec_val_def elim: Ints_cases)
  obtain i where k: "k = Suc i + j" using assms(2) by (metis add.commute less_iff_Suc_add add_Suc)
  have "(of_int c :: rat) = of_int m * 10 ^ Suc i"
    using m unfolding k power_add by (simp add: field_simps)
  then have "(of_int c :: rat) = of_int (m * 10 ^ Suc i)" by simp
  then have "c = m * 10 ^ Suc i" by (simp only: of_int_eq_iff)
  then have "c mod 10 = 0" by simp
  with assms(1) show False by simp
qed

lemma dec_val_scale: "at_scale k (dec_val (c, k))"
  by (simp add: at_scale_def dec_val_def)

lemma digits_val_digits: "digit_text s \<Longrightarrow> \<exists>n. digits_val acc s = Some n"
  by (induction acc s rule: digits_val.induct) auto

lemma dec_parse_plain:
  assumes "ds \<noteq> []" and "digit_text (ds @ fs)"
  shows "\<exists>d. dec_parse (plain_text neg ds fs) = Some d \<and> dec_val d = plain_value neg ds fs \<and> snd d = length fs"
proof -
  let ?r = "ds @ (if fs = [] then [] else CHR ''.'' # fs)"
  have dig: "48 \<le> byte_val c" if "c \<in> set ds" for c
    using assms(2) that by (simp add: digit_text_def list_all_iff)
  have "\<not> 48 \<le> byte_val (CHR ''.'')" "\<not> 48 \<le> byte_val (CHR ''-'')" by (simp_all add: byte_val_def)
  with dig hd_in_set [OF assms(1)] have nodot: "\<forall>c \<in> set ds. c \<noteq> CHR ''.''" and nominus: "hd ds \<noteq> CHR ''-''"
    by metis+
  have tw: "takeWhile (\<lambda>c. c \<noteq> CHR ''.'') ?r = ds"
    using nodot by (simp add: takeWhile_append)
  have dr: "drop (Suc (length ds)) ?r = fs" by simp
  have neg: "(plain_text neg ds fs \<noteq> [] \<and> hd (plain_text neg ds fs) = CHR ''-'') = neg"
    using assms(1) nominus by (simp add: plain_text_def hd_append)
  have r: "(if neg then tl (plain_text neg ds fs) else plain_text neg ds fs) = ?r"
    by (simp add: plain_text_def)
  obtain n where n: "digits_val 0 (ds @ fs) = Some n" using digits_val_digits [OF assms(2)] by blast
  have "dec_parse (plain_text neg ds fs) = Some (if neg then - n else n, length fs)"
    unfolding dec_parse_def Let_def neg r tw dr n using assms(1) by simp
  then show ?thesis by (simp add: dec_val_def plain_value_def n)
qed

lemma dec_laws: "decimal_laws dec_lib dec_val"
proof -
  have str: "\<exists>k. dc_string dec_lib d = fixed_text k (dec_val d) \<and> at_scale k (dec_val d) \<and> (\<forall>j < k. \<not> at_scale j (dec_val d))" for d
  proof -
    obtain c k where s: "strip_zeros (fst d) (snd d) = (c, k)" by (cases "strip_zeros (fst d) (snd d)")
    from strip_zeros_facts [OF s] have v: "dec_val d = dec_val (c, k)" "k = 0 \<or> c mod 10 \<noteq> 0" by simp_all
    show ?thesis using v dec_val_scale [of k c] dec_val_places [of c _ k]
      by (intro exI [of _ k]) (auto simp: dec_lib_def s)
  qed
  have parse: "\<exists>d. dc_parse dec_lib (plain_text neg ds fs) = Some d \<and> dec_val d = plain_value neg ds fs \<and>
      dc_exponent dec_lib d = - int (length fs)" if "ds \<noteq> []" "digit_text (ds @ fs)" for neg ds fs
    using dec_parse_plain [OF that, of neg] by (auto simp: dec_lib_def)
  have arith: "dec_val (fst d * 10 ^ snd e + fst e * 10 ^ snd d, snd d + snd e) = dec_val d + dec_val e"
    "dec_val (fst d * 10 ^ snd e - fst e * 10 ^ snd d, snd d + snd e) = dec_val d - dec_val e"
    "dec_val (fst d * fst e, snd d + snd e) = dec_val d * dec_val e"
    "dec_val (\<bar>fst d\<bar>, snd d) = \<bar>dec_val d\<bar>" for d e
    by (simp_all add: dec_val_def power_add field_simps)
  show ?thesis unfolding decimal_laws_def
    using parse str dec_val_scale by (auto simp: dec_lib_def arith) (auto simp: dec_val_def)
qed

section \<open>Properties of amounts\<close>

text \<open>A column of eight decimal places prints a value with exactly eight, which is what \<open>Value\<close> stores.\<close>

definition eight_place_column :: "sql_value \<Rightarrow> bool" where
  "eight_place_column src \<longleftrightarrow> (case src of
       SqlNull \<Rightarrow> True
     | SqlBytes t \<Rightarrow> \<exists>q. t = fixed_text 8 q
     | SqlString t \<Rightarrow> \<exists>q. t = fixed_text 8 q
     | _ \<Rightarrow> False)"

text \<open>The amounts a program can make with the package, when it scans such columns only.\<close>

inductive built :: "'d decimal_lib \<Rightarrow> 'd amount \<Rightarrow> bool" for dc where
  built_zero: "built dc (zero_amount dc)"
| built_parsed: "from_string dc s = Inr a \<Longrightarrow> built dc a"
| built_decoded: "amount_unmarshal dc b = Inr a \<Longrightarrow> built dc a"
| built_scanned: "amount_scan dc src = Inr a \<Longrightarrow> eight_place_column src \<Longrightarrow> built dc a"
| built_int: "built dc (from_int dc v)"
| built_add: "built dc a \<Longrightarrow> built dc b \<Longrightarrow> built dc (amount_add dc a b)"
| built_sub: "built dc a \<Longrightarrow> built dc b \<Longrightarrow> built dc (amount_sub dc a b)"
| built_mul: "built dc a \<Longrightarrow> built dc (mul_int dc a n)"

lemma unmarshal_bounds:
  assumes "decimal_laws dc val" and "amount_unmarshal dc b = Inr a"
  shows "at_scale 8 (val (am_d a))" and "\<bar>val (am_d a)\<bar> \<le> 1000000000000"
proof -
  obtain s where "from_string dc s = Inr a"
    using assms(2) by (auto simp: amount_unmarshal_def split: option.splits json.splits)
  then show "at_scale 8 (val (am_d a))" "\<bar>val (am_d a)\<bar> \<le> 1000000000000"
    using from_string_bounds [OF assms(1)] by blast+
qed


lemma scan_fixed:
  assumes "decimal_laws dc val"
  shows "\<exists>b. amount_scan dc (SqlString (fixed_text k q)) = Inr b \<and> amount_scan dc (SqlBytes (fixed_text k q)) = Inr b \<and>
    val (am_d b) = round_places k q"
  using parse_fixed [OF assms, of k q] by (auto simp: amount_scan_def)

lemma scan_scale:
  assumes "decimal_laws dc val" and "amount_scan dc src = Inr a" and "eight_place_column src"
  shows "at_scale 8 (val (am_d a))"
proof (cases "src = SqlNull")
  case True
  then show ?thesis using assms(2) at_scale_arith(4) [of 8 0]
    by (auto simp: amount_scan_def zero_amount_def decimal_lawsD [OF assms(1)])
next
  case False
  then obtain q where "src = SqlString (fixed_text 8 q) \<or> src = SqlBytes (fixed_text 8 q)"
    using assms(3) by (auto simp: eight_place_column_def split: sql_value.splits)
  then have "val (am_d a) = round_places 8 q" using scan_fixed [OF assms(1), of 8 q] assms(2) by auto
  then show ?thesis by (simp add: at_scale_round)
qed

lemma built_scale:
  assumes "decimal_laws dc val" and "built dc a"
  shows "at_scale 8 (val (am_d a))"
  using assms(2)
proof induction
  case built_zero
  show ?case using at_scale_arith(4) [of 8 0] by (simp add: zero_amount_def decimal_lawsD [OF assms(1)])
next
  case (built_parsed s a)
  then show ?case by (rule from_string_bounds [OF assms(1)])
next
  case (built_decoded b a)
  then show ?case by (rule unmarshal_bounds [OF assms(1)])
next
  case (built_scanned src a)
  then show ?case by (rule scan_scale [OF assms(1)])
next
  case (built_int v)
  show ?case using at_scale_arith(4) by (simp add: from_int_def decimal_lawsD [OF assms(1)])
qed (simp_all add: amount_add_def amount_sub_def mul_int_def decimal_lawsD [OF assms(1)] at_scale_arith)

text \<open>C12. Scale is a type invariant as long as the columns keep it: every amount made by parsing text or JSON, from whole
  numbers, by scanning columns of eight decimal places, and by any sequence of additions, subtractions and
  multiplications, is a multiple of the eighth decimal place; what is parsed is also within a million million of
  zero. \<open>Scan\<close> itself checks neither: a text of any number of places is taken with its value.\<close>

theorem amounts_keep_scale:
  assumes "decimal_laws dc val" and "built dc a"
  shows "at_scale 8 (val (am_d a)) \<and>
    (\<forall>s b. from_string dc s = Inr b \<longrightarrow> \<bar>val (am_d b)\<bar> \<le> 1000000000000) \<and>
    (\<forall>s b. amount_unmarshal dc s = Inr b \<longrightarrow> \<bar>val (am_d b)\<bar> \<le> 1000000000000) \<and>
    (\<forall>k q. \<exists>b. amount_scan dc (SqlString (fixed_text k q)) = Inr b \<and> val (am_d b) = round_places k q)"
  using built_scale [OF assms] from_string_bounds(2) [OF assms(1)] unmarshal_bounds(2) [OF assms(1)] scan_fixed [OF assms(1)] by blast

text \<open>C24. The column round trip loses nothing: whatever arithmetic built the amount, the column text has exactly eight
  places, and scanning it, as a string or as bytes, gives an amount that is \<open>Equal\<close>.\<close>

theorem column_lossless:
  assumes "decimal_laws dc val" and "built dc a"
  shows "\<exists>v neg ds fs. amount_value dc a = SqlString v \<and> v = plain_text neg ds fs \<and> digit_text (ds @ fs) \<and> length fs = 8 \<and>
    (\<exists>b. amount_scan dc (SqlString v) = Inr b \<and> amount_scan dc (SqlBytes v) = Inr b \<and> amount_equal dc a b)"
proof -
  let ?v = "fixed_text 8 (val (am_d a))"
  obtain d where d: "dc_parse dc ?v = Some d" "val d = val (am_d a)"
    using parse_fixed [OF assms(1), of 8 "val (am_d a)"] round_places_exact [OF built_scale [OF assms]] by auto
  have "amount_value dc a = SqlString ?v"
    using decimal_lawsD(11) [OF assms(1), of "am_d a" 8] by (simp add: amount_value_def scale_def)
  moreover have "amount_scan dc (SqlString ?v) = Inr \<lparr>am_d = d\<rparr>" "amount_scan dc (SqlBytes ?v) = Inr \<lparr>am_d = d\<rparr>"
    by (simp_all add: amount_scan_def d)
  moreover have "amount_equal dc a \<lparr>am_d = d\<rparr>"
    by (simp add: amount_equal_def decimal_lawsD(10) [OF assms(1)] d)
  ultimately show ?thesis using fixed_text_plain [of 8 "val (am_d a)"] by metis
qed

lemma string_exact_back:
  assumes "decimal_laws dc val" and "built dc a" and "\<bar>val (am_d a)\<bar> \<le> 1000000000000"
  shows "\<exists>b. from_string dc (string_exact dc a) = Inr b \<and> amount_equal dc a b"
proof -
  let ?q = "val (am_d a)"
  obtain k where k: "dc_string dc (am_d a) = fixed_text k ?q" "at_scale k ?q" "\<forall>j < k. \<not> at_scale j ?q"
    using string_law [OF assms(1), of "am_d a"] by blast
  have "\<not> 8 < k" using k(3) built_scale [OF assms(1,2)] by blast
  then have "k \<le> 8" by simp
  have r: "round_places k ?q = ?q" by (rule round_places_exact [OF k(2)])
  obtain d where d: "val d = ?q" "from_string dc (fixed_text k ?q) =
    (if 8 < k then Inl (wrap_err ''more than 8 decimal places'' err_invalid_amount)
     else if 1000000000000 < \<bar>?q\<bar> then Inl (wrap_err ''out of range'' err_invalid_amount) else Inr \<lparr>am_d = d\<rparr>)"
    using from_string_fixed [OF assms(1), of k ?q] unfolding r by blast
  have "from_string dc (string_exact dc a) = Inr \<lparr>am_d = d\<rparr>"
    unfolding string_exact_def k(1) d(2) using \<open>k \<le> 8\<close> assms(3) by (simp only: not_less [symmetric] if_False)
  moreover have "amount_equal dc a \<lparr>am_d = d\<rparr>" by (simp add: amount_equal_def decimal_lawsD(10) [OF assms(1)] d(1))
  ultimately show ?thesis by blast
qed

text \<open>C25. The JSON round trip, exactly: the amount comes back rounded to two decimal places, half away from zero; it is
  refused when that is beyond a million million. So an amount of whole cents comes back \<open>Equal\<close>, and one below half
  a cent comes back as zero. The exact text loses nothing: parsing \<open>StringExact\<close> gives an \<open>Equal\<close> amount.\<close>

theorem json_rounds_to_cents:
  assumes "decimal_laws dc val" and "built dc a"
  shows "(if 1000000000000 < \<bar>round_places 2 (val (am_d a))\<bar>
      then (\<exists>e. amount_unmarshal dc (amount_marshal dc a) = Inl e \<and> err_is e ''invalid amount'')
      else (\<exists>b. amount_unmarshal dc (amount_marshal dc a) = Inr b \<and> val (am_d b) = round_places 2 (val (am_d a)) \<and>
        (at_scale 2 (val (am_d a)) \<longrightarrow> amount_equal dc a b))) \<and>
    (\<bar>val (am_d a)\<bar> < 1 / 200 \<longrightarrow> round_places 2 (val (am_d a)) = 0) \<and>
    (\<bar>val (am_d a)\<bar> \<le> 1000000000000 \<longrightarrow> (\<exists>b. from_string dc (string_exact dc a) = Inr b \<and> amount_equal dc a b))"
proof -
  let ?q = "val (am_d a)"
  have str: "amount_string dc a = fixed_text 2 ?q"
    using decimal_lawsD(11) [OF assms(1), of "am_d a" 2] by (simp add: amount_string_def)
  have json: "amount_unmarshal dc (amount_marshal dc a) = from_string dc (fixed_text 2 ?q)"
    by (simp add: amount_unmarshal_def amount_marshal_def str unmarshal_json_quote fixed_text_ascii)
  have eq: "amount_equal dc a b" if "val (am_d b) = ?q" for b
    using that by (simp add: amount_equal_def decimal_lawsD(10) [OF assms(1)])
  have one: "if 1000000000000 < \<bar>round_places 2 ?q\<bar>
      then (\<exists>e. amount_unmarshal dc (amount_marshal dc a) = Inl e \<and> err_is e ''invalid amount'')
      else (\<exists>b. amount_unmarshal dc (amount_marshal dc a) = Inr b \<and> val (am_d b) = round_places 2 ?q \<and>
        (at_scale 2 ?q \<longrightarrow> amount_equal dc a b))"
    using from_string_fixed [OF assms(1), of 2 ?q] eq round_places_exact [of 2 ?q]
    by (auto simp: json err_invalid_amount_def)
  have two: "round_places 2 ?q = 0" if "\<bar>?q\<bar> < 1 / 200"
    using that by (rule round_small)
  from one two string_exact_back [OF assms] show ?thesis by blast
qed

text \<open>Parsing, exactly: plain decimal notation is accepted with its exact value when it has at most eight decimal
  places and is within a million million of zero, and refused with the reason otherwise; text in scientific
  notation is refused whatever the library would make of it; every refusal, of any text, is an
  \<open>ErrInvalidAmount\<close>.\<close>

theorem from_string_exact:
  assumes "decimal_laws dc val" and "ds \<noteq> []" and "digit_text (ds @ fs)"
  shows "(if 8 < length fs
      then from_string dc (plain_text neg ds fs) = Inl (wrap_err ''more than 8 decimal places'' err_invalid_amount)
      else if 1000000000000 < \<bar>plain_value neg ds fs\<bar>
      then from_string dc (plain_text neg ds fs) = Inl (wrap_err ''out of range'' err_invalid_amount)
      else (\<exists>a. from_string dc (plain_text neg ds fs) = Inr a \<and> val (am_d a) = plain_value neg ds fs)) \<and>
    (\<forall>s. (CHR ''e'' \<in> set (trim_space s) \<or> CHR ''E'' \<in> set (trim_space s)) \<longrightarrow> (\<exists>e. from_string dc s = Inl e)) \<and>
    (\<forall>s e. from_string dc s = Inl e \<longrightarrow> err_is e ''invalid amount'')"
proof -
  have "\<exists>e. from_string dc s = Inl e" if "CHR ''e'' \<in> set (trim_space s) \<or> CHR ''E'' \<in> set (trim_space s)" for s
    using that by (auto simp: from_string_def Let_def list_ex_iff)
  then show ?thesis using from_string_plain [OF assms, of neg] from_string_error by (auto simp: Let_def)
qed

text \<open>A million million itself is accepted; its column text has thirteen digits before the point, and \<open>DECIMAL(20,8)\<close>
  has room for twelve.\<close>

lemma show_nat_shift: "0 < n \<Longrightarrow> show_nat (n * 10 ^ k) = show_nat n @ replicate k (CHR ''0'')"
proof (induction k)
  case 0
  then show ?case by simp
next
  case (Suc k)
  have "\<not> n * 10 ^ Suc k < 10" using Suc.prems by simp
  moreover have "n * 10 ^ Suc k div 10 = n * 10 ^ k" "n * 10 ^ Suc k mod 10 = 0" by simp_all
  moreover have "digit_char 0 = CHR ''0''" by code_simp
  ultimately have "show_nat (n * 10 ^ Suc k) = show_nat (n * 10 ^ k) @ [CHR ''0'']"
    by (simp only: show_nat.simps [of "n * 10 ^ Suc k"] if_False)
  with Suc show ?case by (simp add: replicate_append_same)
qed

lemma limit_text: "fixed_text 8 1000000000000 = ''1000000000000.00000000''"
proof -
  have "of_int (round_half_away (1000000000000 * 10 ^ 8)) = (1000000000000 * 10 ^ 8 :: rat)"
    by (rule round_half_away_Ints) simp
  also have "\<dots> = of_int 100000000000000000000" by simp
  finally have r: "round_half_away (1000000000000 * 10 ^ 8) = 100000000000000000000" by (simp only: of_int_eq_iff)
  have "show_nat 1 = ''1''" "replicate 20 (CHR ''0'') = ''00000000000000000000''" by code_simp+
  then have n: "show_nat 100000000000000000000 = ''100000000000000000000''"
    using show_nat_shift [of 1 20] by simp
  have t: "padded_digits 8 100000000000000000000 = ''100000000000000000000''"
    unfolding padded_digits_def n by simp
  have "plain_text False (take 13 ''100000000000000000000'') (drop 13 ''100000000000000000000'') = ''1000000000000.00000000''"
    by code_simp
  with r t show ?thesis by (simp add: fixed_text_def Let_def)
qed

theorem limit_not_storable:
  assumes "decimal_laws dc val"
  shows "\<exists>a. from_string dc ''1000000000000'' = Inr a \<and> amount_value dc a = SqlString ''1000000000000.00000000''"
proof -
  have d: "digit_text (''1000000000000'' @ [])" by (simp add: byte_val_def)
  have v: "plain_value False ''1000000000000'' [] = 1000000000000"
    by (simp add: plain_value_def byte_val_def)
  have p: "plain_text False ''1000000000000'' [] = ''1000000000000''" by (simp add: plain_text_def)
  obtain a where a: "from_string dc ''1000000000000'' = Inr \<lparr>am_d = a\<rparr>" "val a = 1000000000000"
    using from_string_plain [OF assms _ d, of False] unfolding v p by auto
  have "amount_value dc \<lparr>am_d = a\<rparr> = SqlString (fixed_text 8 (val a))"
    using decimal_lawsD(11) [OF assms, of a 8] by (simp add: amount_value_def scale_def)
  with a limit_text show ?thesis by auto
qed

section \<open>Properties of assets\<close>

lemma parse_asset_valid:
  assumes "parse_asset uni s = Inr v"
  shows "v \<noteq> [] \<and> length v \<le> 16 \<and> list_all asset_char v"
  using assms by (auto simp: parse_asset_def Let_def list_ex_iff list_all_iff split: if_splits)

lemma asset_char_facts: "asset_char c \<Longrightarrow> visible c \<and> is_ascii c \<and> ascii_upper c = c"
  by (auto simp: asset_char_def visible_def is_ascii_def ascii_upper_def byte_val_def)

text \<open>Asset codes: what \<open>ParseAsset\<close> accepts is one to sixteen characters of \<open>A-Z\<close>, \<open>0-9\<close> and the underscore, and
  is its own normal form; every other text is an \<open>ErrInvalidAsset\<close>. Adding two amounts of money keeps the
  asset and adds exactly when the assets agree, and is an \<open>ErrAssetMismatch\<close> otherwise, so no sum mixes
  assets.\<close>

theorem assets_never_mix:
  assumes "decimal_laws dc val"
  shows "(case parse_asset uni s of
       Inr v \<Rightarrow> 1 \<le> length v \<and> length v \<le> 16 \<and> list_all asset_char v \<and> parse_asset uni v = Inr v
     | Inl e \<Rightarrow> err_is e ''invalid asset code'') \<and>
    (case money_add dc m n of
       Inr r \<Rightarrow> mn_asset m = mn_asset n \<and> mn_asset r = mn_asset m \<and>
         val (am_d (mn_amount r)) = val (am_d (mn_amount m)) + val (am_d (mn_amount n))
     | Inl e \<Rightarrow> mn_asset m \<noteq> mn_asset n \<and> err_is e ''asset code mismatch'')"
proof -
  have fixed: "parse_asset uni v = Inr v" if v: "v \<noteq> []" "length v \<le> 16" "list_all asset_char v" for v
  proof -
    have all: "\<forall>c \<in> set v. visible c \<and> is_ascii c \<and> ascii_upper c = c"
      using v(3) asset_char_facts by (auto simp: list_all_iff)
    then have "map ascii_upper v = v" by (simp add: map_idI)
    then have "to_upper uni v = v" using all by (simp add: to_upper_def list_all_iff)
    moreover have "trim_space v = v" using v(1) all by (intro trim_space_visible) auto
    ultimately show ?thesis using v by (auto simp: parse_asset_def Let_def list_ex_iff list_all_iff)
  qed
  have "case parse_asset uni s of
       Inr v \<Rightarrow> 1 \<le> length v \<and> length v \<le> 16 \<and> list_all asset_char v \<and> parse_asset uni v = Inr v
     | Inl e \<Rightarrow> err_is e ''invalid asset code''"
  proof (cases "parse_asset uni s")
    case (Inl e)
    then have "err_is e ''invalid asset code''"
      by (auto simp: parse_asset_def Let_def err_invalid_asset_def split: if_splits)
    with Inl show ?thesis by simp
  next
    case (Inr v)
    from parse_asset_valid [OF Inr] fixed [of v] Inr show ?thesis by (auto simp: Suc_le_eq)
  qed
  then show ?thesis
    by (simp add: money_add_def amount_add_def err_asset_mismatch_def decimal_lawsD [OF assms])
qed

section \<open>Witnesses\<close>

lemma built_cents: "built dec_lib \<lparr>am_d = (5, 3)\<rparr>"
proof (rule built_parsed)
  show "from_string dec_lib ''0.005'' = Inr \<lparr>am_d = (5, 3)\<rparr>"
    using plain_text_visible(1) [of "''0''" "''005''" False]
    by (simp add: from_string_def Let_def scale_def dec_lib_def dec_parse_def dec_val_def plain_text_def byte_val_def)
qed

lemma built_sum: "built dec_lib (amount_add dec_lib \<lparr>am_d = (5, 3)\<rparr> (from_int dec_lib 2))"
  by (intro built_add built_cents built_int)

theorem amounts_keep_scale_witness:
  "at_scale 8 (dec_val (am_d (amount_add dec_lib \<lparr>am_d = (5, 3)\<rparr> (from_int dec_lib 2))))"
  using amounts_keep_scale [OF dec_laws built_sum] by blast

theorem column_lossless_witness:
  "\<exists>v b. amount_value dec_lib \<lparr>am_d = (5, 3)\<rparr> = SqlString v \<and> amount_scan dec_lib (SqlBytes v) = Inr b \<and>
     amount_equal dec_lib \<lparr>am_d = (5, 3)\<rparr> b"
  using column_lossless [OF dec_laws built_cents] by blast

theorem json_rounds_to_cents_witness:
  "\<exists>b. amount_unmarshal dec_lib (amount_marshal dec_lib \<lparr>am_d = (5, 3)\<rparr>) = Inr b \<and> dec_val (am_d b) = 1 / 100"
proof -
  have "round_half_away (dec_val (5, 3) * 10 ^ 2) = 1" by (simp add: dec_val_def round_half_away_def)
  then have "round_places 2 (dec_val (5, 3)) = 1 / 100" by (simp add: round_places_def)
  with json_rounds_to_cents [OF dec_laws built_cents] show ?thesis by auto
qed

theorem from_string_exact_witness:
  "\<exists>a. from_string dec_lib ''-30.5'' = Inr a \<and> dec_val (am_d a) = - 61 / 2"
proof -
  have d: "digit_text (''30'' @ ''5'')" by (simp add: byte_val_def)
  have v: "plain_value True ''30'' ''5'' = - 61 / 2" by (simp add: plain_value_def byte_val_def)
  have p: "plain_text True ''30'' ''5'' = ''-30.5''" by (simp add: plain_text_def)
  show ?thesis using from_string_exact [OF dec_laws _ d, of True] unfolding v p by simp
qed

theorem assets_never_mix_witness:
  "parse_asset (\<lambda>s. s) '' usd '' = Inr ''USD'' \<and> parse_asset (\<lambda>s. s) ''USD'' = Inr ''USD'' \<and>
   isl (money_add dec_lib \<lparr>mn_amount = from_int dec_lib 1, mn_asset = ''USD''\<rparr> \<lparr>mn_amount = from_int dec_lib 1, mn_asset = ''RUB''\<rparr>)"
proof -
  have "parse_asset (\<lambda>s. s) '' usd '' = Inr ''USD''" by code_simp
  with assets_never_mix [OF dec_laws, of "\<lambda>s. s" "'' usd ''"
      "\<lparr>mn_amount = from_int dec_lib 1, mn_asset = ''USD''\<rparr>" "\<lparr>mn_amount = from_int dec_lib 1, mn_asset = ''RUB''\<rparr>"]
  show ?thesis by (auto split: sum.splits)
qed

end
