(* ===== verification/Metrics.thy ===== *)
theory Metrics
  imports Go_Prelude
begin

text \<open>
  \<open>src/observability/metrics.go\<close>: the metrics the module declares and registers when it is loaded. A declaration is
  the Go variable, the name, the help text, the kind and the label names; the buckets of a histogram are in
  thousandths of a second. \<open>promauto\<close> registers each declaration in the order of the source and panics when the
  registry refuses one; which declarations a registry accepts is the argument \<open>accepts\<close>, and \<open>registry_laws\<close>
  is what the Prometheus client documents: a valid declaration is accepted when its name is new.

  \<open>label_uses\<close> lists the calls of \<open>WithLabelValues\<close> in the module's packages with the number of values they pass;
  the method panics when that is not the number of labels.
\<close>

section \<open>Declarations\<close>

datatype metric_kind = CounterM | GaugeM | HistogramM "nat list"

record metric_decl =
  md_var :: string
  md_name :: string
  md_help :: string
  md_kind :: metric_kind
  md_labels :: "string list"

definition metric :: "string \<Rightarrow> string \<Rightarrow> string \<Rightarrow> metric_kind \<Rightarrow> string list \<Rightarrow> metric_decl" where
  "metric var name help kind labels =
     \<lparr>md_var = var, md_name = name, md_help = help, md_kind = kind, md_labels = labels\<rparr>"

lemma metric_sel [simp]:
  "md_var (metric v n h k ls) = v" "md_name (metric v n h k ls) = n" "md_help (metric v n h k ls) = h"
  "md_kind (metric v n h k ls) = k" "md_labels (metric v n h k ls) = ls"
  by (simp_all add: metric_def)

definition http_metrics :: "metric_decl list" where
  "http_metrics = [
     metric ''HTTPRequestsTotal'' ''moribox_http_requests_total''
       ''HTTP requests handled, by route, method and status class.''
       CounterM [''service'', ''route'', ''method'', ''status''],
     metric ''HTTPRequestDuration'' ''moribox_http_request_duration_seconds''
       ''HTTP request latency in seconds.''
       (HistogramM [5, 10, 25, 50, 100, 250, 500, 750, 1000, 1500, 3000, 5000, 10000]) [''service'', ''route'', ''method''],
     metric ''HTTPInFlight'' ''moribox_http_in_flight_requests''
       ''HTTP requests currently being served.''
       GaugeM [''service''],
     metric ''HTTPRejectedTotal'' ''moribox_http_rejected_total''
       ''Requests rejected before handler execution.''
       CounterM [''service'', ''reason'']]"

definition db_metrics :: "metric_decl list" where
  "db_metrics = [
     metric ''DBConnectionsInUse'' ''moribox_db_connections_in_use''
       ''Database connections currently checked out of the pool.''
       GaugeM [''service'', ''role''],
     metric ''DBConnectionsIdle'' ''moribox_db_connections_idle''
       ''Idle database connections in the pool.''
       GaugeM [''service'', ''role''],
     metric ''DBWaitCount'' ''moribox_db_wait_count''
       ''Cumulative number of connection waits.''
       GaugeM [''service'', ''role''],
     metric ''DBQueryDuration'' ''moribox_db_query_duration_seconds''
       ''Database statement latency in seconds.''
       (HistogramM [1, 5, 10, 25, 50, 100, 250, 500, 1000, 3000]) [''service'', ''operation''],
     metric ''DBDeadlocksTotal'' ''moribox_db_deadlocks_total''
       ''Transactions aborted by deadlock or lock wait timeout.''
       CounterM [''service'', ''operation''],
     metric ''DBRetriesTotal'' ''moribox_db_retries_total''
       ''Transaction retries triggered by transient database errors.''
       CounterM [''service'', ''operation'']]"

definition provider_metrics :: "metric_decl list" where
  "provider_metrics = [
     metric ''ProviderRequestsTotal'' ''moribox_provider_requests_total''
       ''Outbound provider calls by taxonomy outcome.''
       CounterM [''provider'', ''operation'', ''outcome''],
     metric ''ProviderRequestDuration'' ''moribox_provider_request_duration_seconds''
       ''Outbound provider latency in seconds.''
       (HistogramM [10, 50, 100, 250, 500, 1000, 2000, 5000, 10000]) [''provider'', ''operation''],
     metric ''ProviderCircuitState'' ''moribox_provider_circuit_state''
       ''Circuit breaker state: 0 closed, 1 half-open, 2 open.''
       GaugeM [''provider'', ''operation'']]"

definition queue_metrics :: "metric_decl list" where
  "queue_metrics = [
     metric ''QueueMessagesTotal'' ''moribox_queue_messages_total''
       ''Queue messages published or consumed.''
       CounterM [''queue'', ''direction'', ''outcome''],
     metric ''QueueOldestMessageAge'' ''moribox_queue_oldest_message_age_seconds''
       ''Age of the oldest visible message.''
       GaugeM [''queue''],
     metric ''QueueDepth'' ''moribox_queue_depth''
       ''Visible plus in-flight messages.''
       GaugeM [''queue''],
     metric ''DLQDepth'' ''moribox_dlq_depth''
       ''Messages waiting in a dead letter queue.''
       GaugeM [''queue'']]"

definition outbox_metrics :: "metric_decl list" where
  "outbox_metrics = [
     metric ''OutboxLagSeconds'' ''moribox_outbox_lag_seconds''
       ''Age of the oldest unpublished outbox event.''
       GaugeM [],
     metric ''OutboxUnpublished'' ''moribox_outbox_unpublished_events''
       ''Outbox events not yet published.''
       GaugeM [],
     metric ''OutboxPublishedTotal'' ''moribox_outbox_published_total''
       ''Outbox events published to a queue.''
       CounterM [''event_type'', ''outcome'']]"

definition limit_metrics :: "metric_decl list" where
  "limit_metrics = [
     metric ''IdempotencyConflictsTotal'' ''moribox_idempotency_conflicts_total''
       ''Requests rejected because a key was replayed with a different body.''
       CounterM [''route''],
     metric ''IdempotencyReplayTotal'' ''moribox_idempotency_replay_total''
       ''Requests served from a stored idempotent response.''
       CounterM [''route''],
     metric ''RateLimitedTotal'' ''moribox_rate_limited_total''
       ''Requests rejected by a rate limiter.''
       CounterM [''route'', ''dimension''],
     metric ''CacheErrorsTotal'' ''moribox_cache_errors_total''
       ''Cache backend operations that failed.''
       CounterM [''operation''],
     metric ''CacheHitsTotal'' ''moribox_cache_hits_total''
       ''Cache lookups by outcome.''
       CounterM [''namespace'', ''outcome'']]"

definition security_metrics :: "metric_decl list" where
  "security_metrics = [
     metric ''AuditAppendFailuresTotal'' ''moribox_audit_append_failures_total''
       ''Audit events that could not be appended.''
       CounterM [],
     metric ''AuditChainIntact'' ''moribox_audit_chain_intact''
       ''1 when the last chain verification found no broken link, 0 otherwise.''
       GaugeM [],
     metric ''AuditChainVerifiedEvents'' ''moribox_audit_chain_verified_events''
       ''Events examined by the most recent chain verification.''
       GaugeM [],
     metric ''SecurityAlertsTotal'' ''moribox_security_alerts_total''
       ''Security relevant events raised by the application.''
       CounterM [''kind'', ''severity''],
     metric ''BuildInfo'' ''moribox_build_info''
       ''Build metadata, always 1.''
       GaugeM [''service'', ''version'', ''env'']]"

definition all_metrics :: "metric_decl list" where
  "all_metrics = http_metrics @ db_metrics @ provider_metrics @ queue_metrics @ outbox_metrics @ limit_metrics @ security_metrics"

text \<open>The collectors of the Go runtime and of the process are registered first; \<open>base\<close> are the names they take.\<close>

fun register_all :: "(string list \<Rightarrow> metric_decl \<Rightarrow> bool) \<Rightarrow> string list \<Rightarrow> metric_decl list \<Rightarrow> string list option" where
  "register_all accepts names [] = Some names"
| "register_all accepts names (m # ms) =
     (if accepts names m then register_all accepts (md_name m # names) ms else None)"

section \<open>Valid declarations\<close>

definition name_start :: "char \<Rightarrow> bool" where
  "name_start c \<longleftrightarrow> (65 \<le> byte_val c \<and> byte_val c \<le> 90) \<or> (97 \<le> byte_val c \<and> byte_val c \<le> 122) \<or> c = CHR ''_''"

definition name_char :: "char \<Rightarrow> bool" where
  "name_char c \<longleftrightarrow> name_start c \<or> (48 \<le> byte_val c \<and> byte_val c \<le> 57)"

definition valid_name :: "string \<Rightarrow> bool" where
  "valid_name s \<longleftrightarrow> (case s of [] \<Rightarrow> False | c # r \<Rightarrow> name_start c \<and> list_all name_char r)"

definition valid_kind :: "metric_kind \<Rightarrow> string list \<Rightarrow> bool" where
  "valid_kind k ls = (case k of HistogramM bs \<Rightarrow> sorted_wrt (<) bs \<and> bs \<noteq> [] \<and> ''le'' \<notin> set ls | _ \<Rightarrow> True)"

definition valid_metric :: "metric_decl \<Rightarrow> bool" where
  "valid_metric m \<longleftrightarrow> valid_name (md_name m) \<and> md_help m \<noteq> [] \<and> list_all (\<lambda>l. valid_name l \<and> \<not> has_prefix l ''__'') (md_labels m) \<and>
     distinct (md_labels m) \<and> valid_kind (md_kind m) (md_labels m)"

definition registry_laws :: "(string list \<Rightarrow> metric_decl \<Rightarrow> bool) \<Rightarrow> bool" where
  "registry_laws accepts \<longleftrightarrow> (\<forall>names m. valid_metric m \<longrightarrow> md_name m \<notin> set names \<longrightarrow> accepts names m)"

text \<open>Where labels are filled in: the file, the variable, the number of values.\<close>

definition label_uses :: "(string \<times> string \<times> nat) list" where
  "label_uses = [
     (''database/database.go'', ''DBConnectionsInUse'', 2), (''database/database.go'', ''DBConnectionsIdle'', 2),
     (''database/database.go'', ''DBWaitCount'', 2), (''database/database.go'', ''DBRetriesTotal'', 2),
     (''database/database.go'', ''DBDeadlocksTotal'', 2), (''database/database.go'', ''DBQueryDuration'', 2),
     (''ratelimit/ratelimit.go'', ''CacheErrorsTotal'', 1), (''ratelimit/ratelimit.go'', ''RateLimitedTotal'', 2),
     (''providers/client.go'', ''ProviderRequestsTotal'', 3), (''providers/client.go'', ''ProviderRequestDuration'', 2),
     (''providers/circuit.go'', ''ProviderCircuitState'', 2), (''providers/callback.go'', ''SecurityAlertsTotal'', 2),
     (''cache/cache.go'', ''CacheHitsTotal'', 2), (''cache/cache.go'', ''CacheErrorsTotal'', 1),
     (''audit/audit.go'', ''AuditAppendFailuresTotal'', 0), (''httpx/middleware.go'', ''HTTPInFlight'', 1),
     (''httpx/middleware.go'', ''HTTPRequestsTotal'', 4), (''httpx/middleware.go'', ''HTTPRequestDuration'', 3),
     (''httpx/middleware.go'', ''HTTPRejectedTotal'', 2), (''idempotency/middleware.go'', ''IdempotencyConflictsTotal'', 1),
     (''idempotency/middleware.go'', ''SecurityAlertsTotal'', 2), (''idempotency/middleware.go'', ''IdempotencyReplayTotal'', 1)]"

section \<open>Properties\<close>

lemma register_all_valid:
  assumes "registry_laws accepts" and "list_all valid_metric ms" and "distinct (map md_name ms @ names)"
  shows "register_all accepts names ms = Some (rev (map md_name ms) @ names)"
  using assms(2,3)
proof (induction ms arbitrary: names)
  case Nil
  then show ?case by simp
next
  case (Cons m ms)
  have "accepts names m" using assms(1) Cons.prems by (auto simp: registry_laws_def)
  moreover have "register_all accepts (md_name m # names) ms = Some (rev (map md_name ms) @ md_name m # names)"
    using Cons.prems by (intro Cons.IH) auto
  ultimately show ?case by simp
qed

lemmas metric_lists = all_metrics_def http_metrics_def db_metrics_def provider_metrics_def queue_metrics_def
  outbox_metrics_def limit_metrics_def security_metrics_def

text \<open>The declarations without their texts, the common prefix of the names taken off; the facts about them are decided
  on this table.\<close>

definition decl_table :: "(string \<times> string list \<times> metric_kind) list" where
  "decl_table = [
     (''http_requests_total'', [''service'', ''route'', ''method'', ''status''], CounterM),
     (''http_request_duration_seconds'', [''service'', ''route'', ''method''], HistogramM [5, 10, 25, 50, 100, 250, 500, 750, 1000, 1500, 3000, 5000, 10000]),
     (''http_in_flight_requests'', [''service''], GaugeM),
     (''http_rejected_total'', [''service'', ''reason''], CounterM),
     (''db_connections_in_use'', [''service'', ''role''], GaugeM),
     (''db_connections_idle'', [''service'', ''role''], GaugeM),
     (''db_wait_count'', [''service'', ''role''], GaugeM),
     (''db_query_duration_seconds'', [''service'', ''operation''], HistogramM [1, 5, 10, 25, 50, 100, 250, 500, 1000, 3000]),
     (''db_deadlocks_total'', [''service'', ''operation''], CounterM),
     (''db_retries_total'', [''service'', ''operation''], CounterM),
     (''provider_requests_total'', [''provider'', ''operation'', ''outcome''], CounterM),
     (''provider_request_duration_seconds'', [''provider'', ''operation''], HistogramM [10, 50, 100, 250, 500, 1000, 2000, 5000, 10000]),
     (''provider_circuit_state'', [''provider'', ''operation''], GaugeM),
     (''queue_messages_total'', [''queue'', ''direction'', ''outcome''], CounterM),
     (''queue_oldest_message_age_seconds'', [''queue''], GaugeM),
     (''queue_depth'', [''queue''], GaugeM),
     (''dlq_depth'', [''queue''], GaugeM),
     (''outbox_lag_seconds'', [], GaugeM),
     (''outbox_unpublished_events'', [], GaugeM),
     (''outbox_published_total'', [''event_type'', ''outcome''], CounterM),
     (''idempotency_conflicts_total'', [''route''], CounterM),
     (''idempotency_replay_total'', [''route''], CounterM),
     (''rate_limited_total'', [''route'', ''dimension''], CounterM),
     (''cache_errors_total'', [''operation''], CounterM),
     (''cache_hits_total'', [''namespace'', ''outcome''], CounterM),
     (''audit_append_failures_total'', [], CounterM),
     (''audit_chain_intact'', [], GaugeM),
     (''audit_chain_verified_events'', [], GaugeM),
     (''security_alerts_total'', [''kind'', ''severity''], CounterM),
     (''build_info'', [''service'', ''version'', ''env''], GaugeM)]"

lemma decl_table_eq:
  "map (\<lambda>m. (md_name m, md_labels m, md_kind m, md_help m = [])) all_metrics =
     map (\<lambda>(n, ls, k). (''moribox_'' @ n, ls, k, False)) decl_table"
  by (simp add: metric_lists decl_table_def)

lemma all_metrics_table:
  assumes "m \<in> set all_metrics"
  shows "\<exists>n. (n, md_labels m, md_kind m) \<in> set decl_table \<and> md_name m = ''moribox_'' @ n \<and> md_help m \<noteq> []"
proof -
  have "(md_name m, md_labels m, md_kind m, md_help m = []) \<in> set (map (\<lambda>(n, ls, k). (''moribox_'' @ n, ls, k, False)) decl_table)"
    unfolding decl_table_eq [symmetric] using assms by simp
  then show ?thesis by auto
qed

definition lower_chars :: string where "lower_chars = ''eoitsrn_aldcmhpubgqvkwfxjyz''"

definition lower_text :: "string \<Rightarrow> bool" where
  "lower_text s \<longleftrightarrow> list_all (List.member lower_chars) s"

definition label_names :: "string list" where
  "label_names = [''dimension'', ''direction'', ''env'', ''event_type'', ''kind'', ''method'', ''namespace'', ''operation'', ''outcome'', ''provider'', ''queue'', ''reason'', ''role'', ''route'', ''service'', ''severity'', ''status'', ''version'']"

lemma lower_text_chars: "lower_text s \<Longrightarrow> list_all name_start s"
proof -
  have "list_all name_start lower_chars" by code_simp
  then show "lower_text s \<Longrightarrow> list_all name_start s"
    by (auto simp: lower_text_def list_all_iff)
qed

lemma lower_text_valid: "lower_text s \<Longrightarrow> s \<noteq> [] \<Longrightarrow> valid_name s"
  using lower_text_chars [of s] by (cases s) (auto simp: valid_name_def name_char_def list_all_iff)

lemma names_1: "list_all lower_text [''http_requests_total'', ''http_request_duration_seconds'', ''http_in_flight_requests'', ''http_rejected_total'']"
  by code_simp

lemma names_2: "list_all lower_text [''db_connections_in_use'', ''db_connections_idle'', ''db_wait_count'', ''db_query_duration_seconds'']"
  by code_simp

lemma names_3: "list_all lower_text [''db_deadlocks_total'', ''db_retries_total'', ''provider_requests_total'', ''provider_request_duration_seconds'']"
  by code_simp

lemma names_4: "list_all lower_text [''provider_circuit_state'', ''queue_messages_total'', ''queue_oldest_message_age_seconds'', ''queue_depth'']"
  by code_simp

lemma names_5: "list_all lower_text [''dlq_depth'', ''outbox_lag_seconds'', ''outbox_unpublished_events'', ''outbox_published_total'']"
  by code_simp

lemma names_6: "list_all lower_text [''idempotency_conflicts_total'', ''idempotency_replay_total'', ''rate_limited_total'', ''cache_errors_total'']"
  by code_simp

lemma names_7: "list_all lower_text [''cache_hits_total'', ''audit_append_failures_total'', ''audit_chain_intact'', ''audit_chain_verified_events'']"
  by code_simp

lemma names_8: "list_all lower_text [''security_alerts_total'', ''build_info'']"
  by code_simp

lemma table_names: "list_all (\<lambda>(n, ls, k). lower_text n) decl_table"
  using names_1 names_2 names_3 names_4 names_5 names_6 names_7 names_8 by (simp add: decl_table_def)

lemma table_labels: "list_all (\<lambda>(n, ls, k). list_all (List.member label_names) ls \<and> distinct ls \<and> valid_kind k ls) decl_table"
  by (simp add: decl_table_def label_names_def valid_kind_def)

lemma label_names_ok: "list_all (\<lambda>l. l \<noteq> [] \<and> lower_text l \<and> \<not> has_prefix l ''__'') label_names"
  by code_simp

lemma metrics_valid: "list_all valid_metric all_metrics"
proof -
  have "valid_metric m" if m: "m \<in> set all_metrics" for m
  proof -
    from all_metrics_table [OF m] obtain n where t: "(n, md_labels m, md_kind m) \<in> set decl_table"
      and n: "md_name m = ''moribox_'' @ n" and h: "md_help m \<noteq> []" by blast
    have "lower_text n" using table_names t by (fastforce simp: list_all_iff)
    moreover have "lower_text ''moribox_''" by code_simp
    ultimately have "lower_text (md_name m)" by (simp add: lower_text_def n)
    then have "valid_name (md_name m)" using n by (intro lower_text_valid) simp_all
    moreover have "list_all (List.member label_names) (md_labels m) \<and> distinct (md_labels m) \<and> valid_kind (md_kind m) (md_labels m)"
      using table_labels t by (fastforce simp: list_all_iff)
    moreover have "valid_name l \<and> \<not> has_prefix l ''__''" if "l \<in> set label_names" for l
      using label_names_ok that lower_text_valid by (auto simp: list_all_iff)
    ultimately show ?thesis using h by (auto simp: valid_metric_def list_all_iff)
  qed
  then show ?thesis by (simp add: list_all_iff)
qed

lemma table_distinct: "distinct (map fst decl_table)"
  by (simp add: decl_table_def)

lemma metric_names: "map md_name all_metrics = map (\<lambda>n. ''moribox_'' @ n) (map fst decl_table)"
proof -
  have "map fst (map (\<lambda>m. (md_name m, md_labels m, md_kind m, md_help m = [])) all_metrics) =
      map fst (map (\<lambda>(n, ls, k). (''moribox_'' @ n, ls, k, False)) decl_table)"
    by (rule arg_cong [OF decl_table_eq])
  then show ?thesis by (simp add: comp_def split_beta)
qed

lemma metrics_distinct: "distinct (map md_name all_metrics)"
  unfolding metric_names distinct_map [of "\<lambda>n. ''moribox_'' @ n"] using table_distinct by (simp add: inj_on_def)

lemma metrics_prefixed: "list_all (\<lambda>m. has_prefix (md_name m) ''moribox_'') all_metrics"
  using all_metrics_table by (fastforce simp: list_all_iff)

text \<open>Every use passes as many values as its metric has labels.\<close>

lemma metrics_labelled:
  "list_all (\<lambda>(f, v, n). list_ex (\<lambda>m. md_var m = v \<and> length (md_labels m) = n) all_metrics) label_uses"
  by (simp add: metric_lists label_uses_def)

text \<open>Exactly the counters are named so.\<close>

lemma counters_total:
  "list_all (\<lambda>m. (md_kind m = CounterM) = has_prefix (rev (md_name m)) (rev ''_total'')) all_metrics"
  by (simp add: metric_lists)

text \<open>Loading the package does not panic: every declaration is valid and no two have one name, nor a name of another
  collector that does not begin with \<open>moribox_\<close>, so every registry that keeps its documented rules accepts them
  all in the order of the source. Every use in the module passes as many label values as the metric has labels, so
  none of them panics; and exactly the counters end in \<open>_total\<close>.\<close>

theorem metrics_never_panic:
  assumes "registry_laws accepts" and "list_all (\<lambda>n. \<not> has_prefix n ''moribox_'') base" and "distinct base"
  shows "register_all accepts base all_metrics = Some (rev (map md_name all_metrics) @ base) \<and>
    list_all (\<lambda>(f, v, n). list_ex (\<lambda>m. md_var m = v \<and> length (md_labels m) = n) all_metrics) label_uses \<and>
    list_all (\<lambda>m. (md_kind m = CounterM) = has_prefix (rev (md_name m)) (rev ''_total'')) all_metrics"
proof -
  have "distinct (map md_name all_metrics @ base)"
    using assms(2,3) metrics_distinct metrics_prefixed by (auto simp: list_all_iff)
  from register_all_valid [OF assms(1) metrics_valid this] show ?thesis
    using metrics_labelled counters_total by blast
qed

text \<open>A registry that keeps exactly the documented rules.\<close>

definition strict_registry :: "string list \<Rightarrow> metric_decl \<Rightarrow> bool" where
  "strict_registry names m \<longleftrightarrow> valid_metric m \<and> md_name m \<notin> set names"

theorem metrics_never_panic_witness:
  "register_all strict_registry [''go_goroutines'', ''process_open_fds''] all_metrics =
     Some (rev (map md_name all_metrics) @ [''go_goroutines'', ''process_open_fds''])"
  using metrics_never_panic [of strict_registry "[''go_goroutines'', ''process_open_fds'']"]
  by (simp add: registry_laws_def strict_registry_def)

end
