(* ===== verification/Tracing.thy ===== *)
theory Tracing
  imports Go_Prelude
begin

text \<open>
  \<open>src/observability/tracing.go\<close>: \<open>StartTracing\<close>. The OpenTelemetry SDK is the argument \<open>tr\<close>: how an exporter is
  built and how a resource is merged with the default one. What the call does to the process is a list of settings of
  the global \<open>otel\<close> package; the result is what the returned function shuts down, nothing or the provider. The
  sample ratio is passed on and not interpreted.
\<close>

record 'f tracing_config =
  tg_service_name :: string
  tg_namespace :: string
  tg_build_digest :: string
  tg_environment :: string
  tg_enabled :: bool
  tg_endpoint :: string
  tg_insecure :: bool
  tg_sample_ratio :: 'f

datatype exporter_option = EndpointURL string | InsecureTransport

record ('e, 'r) trace_lib =
  tr_exporter :: "exporter_option list \<Rightarrow> go_error + 'e"
  tr_merge :: "(string \<times> string) list \<Rightarrow> go_error + 'r"

record ('e, 'r, 'f) tracer_provider =
  tv_exporter :: 'e
  tv_batch_timeout :: duration
  tv_resource :: 'r
  tv_ratio :: 'f

datatype ('e, 'r, 'f) otel_setting = SetPropagators "string list" | SetTracerProvider "('e, 'r, 'f) tracer_provider"

definition propagators :: "string list" where
  "propagators = [''tracecontext'', ''baggage'']"

definition exporter_options :: "'f tracing_config \<Rightarrow> exporter_option list" where
  "exporter_options cfg = [EndpointURL (tg_endpoint cfg)] @ (if tg_insecure cfg then [InsecureTransport] else [])"

definition resource_attributes :: "'f tracing_config \<Rightarrow> (string \<times> string) list" where
  "resource_attributes cfg =
     [(''service.name'', tg_service_name cfg), (''service.version'', tg_build_digest cfg),
      (''deployment.environment.name'', tg_environment cfg)] @
     (if tg_namespace cfg \<noteq> [] then [(''service.namespace'', tg_namespace cfg)] else [])"

definition start_tracing :: "('e, 'r) trace_lib \<Rightarrow> 'f tracing_config
    \<Rightarrow> (go_error + ('e, 'r, 'f) tracer_provider option) \<times> ('e, 'r, 'f) otel_setting list" where
  "start_tracing tr cfg =
     (if \<not> tg_enabled cfg then (Inr None, [SetPropagators propagators])
      else (case tr_exporter tr (exporter_options cfg) of
          Inl e \<Rightarrow> (Inl e, [])
        | Inr ex \<Rightarrow> (case tr_merge tr (resource_attributes cfg) of
            Inl e \<Rightarrow> (Inl e, [])
          | Inr res \<Rightarrow>
              let p = \<lparr>tv_exporter = ex, tv_batch_timeout = 5 * second, tv_resource = res, tv_ratio = tg_sample_ratio cfg\<rparr>
              in (Inr (Some p), [SetTracerProvider p, SetPropagators propagators]))))"

text \<open>Trace contexts are propagated whether or not traces are recorded; a provider becomes the global one exactly when it
  is the one the caller can shut down; and a start that fails changes nothing of the process.\<close>

theorem tracing_all_or_nothing:
  "case start_tracing tr cfg of (res, settings) \<Rightarrow>
     (case res of Inl e \<Rightarrow> tg_enabled cfg \<and> settings = []
      | Inr shutdown \<Rightarrow> SetPropagators propagators \<in> set settings \<and> (shutdown = None \<longleftrightarrow> \<not> tg_enabled cfg) \<and>
          (\<forall>p. SetTracerProvider p \<in> set settings \<longleftrightarrow> shutdown = Some p))"
  by (auto simp: start_tracing_def Let_def split: sum.splits)

end
