(* ===== verification/Spec2Isabelle.thy ===== *)
theory Spec2Isabelle
  imports Idempotency_Retries Audit_Trail Outbox_Relay Provider_Recovery Provider_Setup Database_Pool Id_Generation Ratelimit_Quota Cache_Lock
    Telegram Callback Secrets Health Money Metrics Tracing
begin

text \<open>
  A verification development for \<open>moribox-shared\<close>, the Go module of process infrastructure under
  \<open>src/\<close>: identifiers, money, the database layer, idempotency, the audit trail, the outbox, the cache and the rate
  limiter, the HTTP surface, health probes, logging, metrics and tracing, the client of external providers and the
  verifier of their callbacks, Telegram launch data, OCI identities and secrets.

  \<^bold>\<open>Conventions.\<close> A Go struct is a record, an enumeration a datatype, an error the datatype
  \<open>go_error\<close> (\<open>errors.Is\<close> is \<open>err_is\<close>), a function that can fail returns \<open>go_error + 'a\<close>, a Go string or byte
  slice is a \<open>string\<close> of bytes. State is passed explicitly. Whatever a call draws from outside (the clock, fresh
  identifiers, how a server answers a statement, what other sessions do) is a record of inputs, so a theorem
  that does not constrain it holds for every server. A duration is an \<open>int\<close> of nanoseconds, and \<open>wrap64\<close> is written
  where the code can leave the range of \<open>int64\<close>. Cryptographic functions, the ULID codec, the conversion of
  JSON numbers, the decimal library, cloud clients and Unicode tables are arguments; the laws assumed of them
  (\<open>ulid_laws\<close>, \<open>generator_laws\<close>, \<open>number_codec\<close>, \<open>redis_laws\<close>, \<open>decimal_laws\<close>, \<open>jwks_laws\<close>, \<open>registry_laws\<close>)
  each have an instance for which they are proved.

  \<^bold>\<open>Theories.\<close> The prelude and the model of the standard library:
  \<^item> \<open>Go_Prelude\<close>: errors, strings, decimal and hexadecimal text, time.
  \<^item> \<open>Go_Url\<close>: \<open>url.Values\<close>, query parsing and encoding.
  \<^item> \<open>Go_Json\<close>, \<open>Json_Value\<close>: \<open>encoding/json\<close>, its string literals and its parser. The parser takes fuel;
    \<open>parse_fuel\<close> is twice the length of the input plus two, and \<open>parse_stable\<close> shows that more never changes the
    result. \<open>Json_Struct\<close> is \<open>json.Unmarshal\<close> into a struct of scalar fields.
  \<^item> \<open>Go_Base64\<close>: the standard and the URL alphabet, encoding and decoding.

  The components, in the order in which they depend on each other:
  \<^item> \<open>Circuit_Breaker\<close> (\<open>providers/circuit.go\<close>): the breaker as a state machine; invariant, one probe, and
    refinement of a breaker that never forgets a failure.
  \<^item> \<open>Provider_Client\<close> (\<open>providers/client.go\<close>): \<open>Client.Do\<close> over the breaker, the token source, the retry header.
    \<open>Provider_Recovery\<close> follows a client through an outage of its provider.
  \<^item> \<open>Database\<close> (\<open>database/\<close>): classification of driver errors and \<open>InTx\<close>. A transaction body is a function
    of type \<open>tx_fn\<close> on a table and the variables its closure captures; a rollback restores the table and not
    the variables. The loop needs no fuel beyond the code's own four attempts. The locale \<open>tx_body\<close> lifts an
    invariant of one run of a body to the whole loop.
  \<^item> \<open>Ids\<close> (\<open>ids/ids.go\<close>): the type, its text, column and JSON forms. The locale \<open>sql_column\<close> is the contract of
    \<open>Value\<close> and \<open>Scan\<close>.
  \<^item> \<open>Canonical_Json\<close>, \<open>Idempotency_Store\<close> (\<open>idempotency/store.go\<close>): the canonical encoder, the digests, the table
    of records; \<open>Begin\<close> refines an abstract claim (\<open>claim_spec\<close>).
  \<^item> \<open>Httpx_Problem\<close>, \<open>Response_Writer\<close>, \<open>Httpx_Middleware\<close> (\<open>httpx/\<close>): a handler returns how it ended and the list
    of calls it made on its \<open>ResponseWriter\<close>; \<open>http_run\<close> is what the client receives; a middleware is a
    function on handlers. The locale \<open>status_wrapper\<close> covers both wrappers of the response writer. The deadline of a
    context is a field of the request.
  \<^item> \<open>Idempotency_Middleware\<close> (\<open>idempotency/middleware.go\<close>, \<open>context.go\<close>): admission, claim, execution, stored
    outcome and replay. \<open>Idempotency_Retries\<close> follows a client that sends one mutation again and again through it; what
    the attempts together do is the property of this theory.
  \<^item> \<open>Observability\<close> (\<open>observability/logging.go\<close>): redaction and request scoped values.
  \<^item> \<open>Audit_Trail\<close> (\<open>audit/audit.go\<close>): the hash chained trail; \<open>AppendStandalone\<close> is a \<open>tx_body\<close>.
  \<^item> \<open>Outbox\<close> (\<open>outbox/outbox.go\<close>): append, claim, lag; \<open>ClaimBatch\<close> is a \<open>tx_body\<close>. \<open>Outbox_Relay\<close> is the relay over
    many claims, a refinement of \<open>relay_spec\<close> on the identifiers of the unpublished events.
  \<^item> \<open>Cache\<close> (\<open>cache/cache.go\<close>) and \<open>Ratelimit\<close> (\<open>ratelimit/ratelimit.go\<close>): the client over a server that keeps
    \<open>redis_laws\<close>, and the limiter over the locale \<open>counter_store\<close>, which the cache and the database fallback both
    interpret. \<open>Ratelimit_Quota\<close> interleaves the statements of concurrent requests (\<open>quota_step\<close>),
    \<open>Cache_Lock\<close> the calls of the workers that share a lock (\<open>lock_step\<close>).
  \<^item> \<open>Provider_Setup\<close> (\<open>providers/client.go\<close>, \<open>New\<close>), \<open>Database_Pool\<close> (\<open>database/database.go\<close>, \<open>Open\<close> and the pools),
    \<open>Id_Generation\<close> (\<open>ids/ids.go\<close>, \<open>New\<close>, \<open>NewAt\<close>, \<open>Time\<close>): construction.
  \<^item> \<open>Callback\<close> (\<open>providers/callback.go\<close>): the timestamp window, the detached JWS and the HMAC mechanism.
  \<^item> \<open>Telegram\<close> (\<open>telegram/initdata.go\<close>): the check string, \<open>Verify\<close> and what it reads.
  \<^item> \<open>Oci\<close> (\<open>oci/oci.go\<close>) and \<open>Secrets\<close> (\<open>secrets/\<close>): \<open>Resolve\<close>, and the providers behind one cache; the locale
    \<open>cached_source\<close> is interpreted on both remote providers.
  \<^item> \<open>Health\<close> (\<open>health/health.go\<close>): the registry as a step relation, and the three probes.
  \<^item> \<open>Money\<close> (\<open>money/money.go\<close>): asset codes and amounts over an exact decimal library.
  \<^item> \<open>Metrics\<close>, \<open>Tracing\<close> (\<open>observability/\<close>): the declared metrics and \<open>StartTracing\<close>.

  \<^bold>\<open>What the lemmas show.\<close> Each theory closes with its properties. They are of four kinds:
  \<^item> An operation does what its contract says on every branch: \<open>begin_refines\<close>, \<open>replay_verbatim\<close>,
    \<open>burst_within_limit\<close>, \<open>request_hash_binds\<close>, \<open>id_round_trips\<close>, \<open>launch_accepted_exact\<close>, \<open>hmac_callback_exact\<close>,
    \<open>readiness_exact\<close>, \<open>every_request_answered\<close>.
  \<^item> An invariant survives failures, retries and interleavings. \<open>claim_keeps_events\<close>, \<open>concurrency_bound\<close>, \<open>secrets_served_fresh\<close> and
    \<open>amounts_keep_scale\<close> leave the servers and the callers free. The others hold under conditions that their text blocks name:
    \<open>in_tx_atomic\<close> that no applied commit is reported as failed (\<open>in_tx_lost_ack_applies_twice\<close> shows what happens otherwise),
    \<open>intact_trail_verifies\<close> that the events are clean, \<open>effectively_once\<close> that the claims of the key are served before it expires,
    \<open>quota_holds\<close> that the limiter fails closed or no statement fails, \<open>lock_excludes\<close> that the holders work within their leases.
  \<^item> Something good happens, within a bound: \<open>outbox_drains\<close> (the number of claims), \<open>outage_paced_then_recovers\<close>
    (one call for each cooldown, then recovery), \<open>in_tx_bounded\<close> (four runs of the body).
  \<^item> Where the contract ends, as a statement of what the code does there: \<open>lost_probe_wedges_client\<close>,
    \<open>stale_ownership\<close>, \<open>resealed_trail_verifies\<close>, \<open>undetected_edits\<close>, \<open>panic_locks_key\<close>, \<open>poison_starves\<close>, \<open>jws_callback_replay\<close>,
    \<open>json_rounds_to_cents\<close>.

  \<^bold>\<open>Not modelled.\<close> The SDKs of the secret stores and of OCI, the Redis and MySQL clients, and log lines other than
  the access record: they hold no logic of the module. Metrics are declared and their labels checked, and the circuit
  gauge, the pool gauges and the call counters are part of the state; the other increments and the query histogram
  are left out. Go's scheduler: concurrent callers appear as sequences of atomic steps, where a lock, a channel or a
  statement makes the step atomic. The precision of time columns, the length limits of text columns, and the passing
  of a deadline, except as a failure a call can meet.
\<close>

section \<open>One mutation, sent again and again\<close>

text \<open>C4. A mutation with an idempotency key is executed at most once to the end. Conditions: the attempts reach the
  middleware one after the other, with the same actor, key and digest; the statements of their claims are answered; they
  arrive before the key expires; the key is new; each handler sends final statuses and leaves the record of the key
  alone, or completes it with the answer it gives (\<open>CompleteTx\<close>). The statements that store an outcome may fail, and
  the handlers may answer anything or panic. Then every response is the one its own run of the handler gave, or a
  stored one, or a refusal: first come attempts that are refused with 409, or whose handler answers 429 or a server error;
  then at most one attempt whose handler ends otherwise; and after it no handler runs. When that handler returned and its answer
  could be stored, all later attempts get its status and its body (an empty one beyond 64 KiB); only when it panicked, or the
  statement that stores the answer failed, they may all be refused with 409 instead.\<close>

theorem effectively_once:
  assumes "list_all (served conf dg uc scope s k h t) as" and "idem_find s k db = None"
    and "retry_all conf dg uc scope as (w, db) = (outs, st)"
  shows "\<exists>before after. outs = before @ after \<and>
    list_all (\<lambda>(runs, resp). (runs = [] \<and> resp_status resp = 409) \<or> (\<exists>x. runs = [x] \<and> retriable x \<and> resp = snd x)) before \<and>
    (after = [] \<or> (\<exists>x rest. after = ([x], snd x) # rest \<and> \<not> retriable x \<and>
      (list_all (\<lambda>(runs, resp). runs = [] \<and> resp_status resp = 409) rest \<and>
         (fst x \<noteq> HReturn \<or> ie_complete (rt_env (as ! length before)) \<noteq> None) \<or>
       fst x = HReturn \<and> list_all (\<lambda>(runs, resp). runs = [] \<and> resp_status resp = resp_status (snd x) \<and>
         http_resp.hr_body resp = (if length (http_resp.hr_body (snd x)) \<le> max_stored_body then http_resp.hr_body (snd x) else [])) rest)))"
proof -
  have "unanswered uc s k h t db" using assms(2) by (simp add: unanswered_def)
  from retry_unanswered [OF assms(1) this assms(3)] show ?thesis
    unfolding refused_def retried_def replayed_def stored_body_def case_prod_beta .
qed

theorem effectively_once_witness:
  "\<exists>x resp st. retry_all sample_conf sample_digests sample_codec one_actor [sample_retry, sample_retry] ((), []) = ([([x], snd x), ([], resp)], st) \<and>
    resp_status resp = 201 \<and> http_resp.hr_body resp = ''created''"
proof -
  let ?x = "(HReturn, final_resp (http_run [WriteHeader 201, WriteBody ''created'']))"
  have x: "resp_status (snd ?x) = 201" "http_resp.hr_body (snd ?x) = ''created''" "\<not> retriable ?x"
    using final_resp_buffered [of "[WriteHeader 201, WriteBody ''created'']"]
    by (simp_all add: retriable_def Let_def bw_write_def bw_write_header_def new_buffering_writer_def)
  obtain outs st where run: "retry_all sample_conf sample_digests sample_codec one_actor [sample_retry, sample_retry] ((), []) = (outs, st)"
    by (metis surj_pair)
  have ran: "length outs = 2" "fst (outs ! 0) = [?x]"
    using sample_first_run run by (auto simp: sample_retry_def split: prod.splits)
  have "list_all (served sample_conf sample_digests sample_codec one_actor ''user:1'' ''k1'' sample_hash 100) [sample_retry, sample_retry]"
    by (simp add: sample_retry_served)
  from effectively_once [OF this idem_find_Nil run] obtain before after where o: "outs = before @ after"
    and b: "list_all (\<lambda>(runs, resp). (runs = [] \<and> resp_status resp = 409) \<or> (\<exists>x. runs = [x] \<and> retriable x \<and> resp = snd x)) before"
    and a: "after = [] \<or> (\<exists>x rest. after = ([x], snd x) # rest \<and> \<not> retriable x \<and>
      (list_all (\<lambda>(runs, resp). runs = [] \<and> resp_status resp = 409) rest \<and>
         (fst x \<noteq> HReturn \<or> ie_complete (rt_env ([sample_retry, sample_retry] ! length before)) \<noteq> None) \<or>
       fst x = HReturn \<and> list_all (\<lambda>(runs, resp). runs = [] \<and> resp_status resp = resp_status (snd x) \<and>
         http_resp.hr_body resp = (if length (http_resp.hr_body (snd x)) \<le> max_stored_body then http_resp.hr_body (snd x) else [])) rest))" by blast
  have "before = []" using o b ran x(3) by (cases before) auto
  moreover from this obtain rest where "after = ([?x], snd ?x) # rest" using a o ran by (cases after) auto
  ultimately obtain resp where "outs = [([?x], snd ?x), ([], resp)]" "resp_status resp = 201" "http_resp.hr_body resp = ''created''"
    using o a ran(1) x(1,2) by (cases rest) (auto simp: sample_retry_def sample_idem_env_def max_stored_body_def)
  with run show ?thesis by (intro exI [of _ ?x] exI [of _ resp] exI [of _ st]) simp
qed

end
